(* ===== verification/Prelude.thy ===== *)
theory Prelude
  imports Complex_Main "HOL-Library.Char_ord" "HOL-Library.List_Lexorder" "HOL-Library.Sublist"
begin

text \<open>
  Shared vocabulary of the development: the collections the component theories fill, and the
  generic facts on lists, options and maps their proofs rest on. A Go string is the list of its
  bytes, so the type \<^typ>\<open>string\<close> (a list of 8-bit characters) is the model's string
  type; a Go map is a partial function; a fallible Go function returns a value of a sum type
  whose left side is the error.
\<close>

named_theorems str_simps \<open>rewrite rules of the Go string library\<close>
named_theorems rx_simps \<open>characterisations of the regular expressions of the code\<close>
named_theorems wf_intros \<open>introduction rules for the well-formedness invariants\<close>
named_theorems sys_defs \<open>definitions of the state transformers of the stateful components\<close>

type_synonym ('e, 'a) result = "'e + 'a"

abbreviation Err :: "'e \<Rightarrow> ('e, 'a) result" where
  "Err \<equiv> Inl"

abbreviation Ok :: "'a \<Rightarrow> ('e, 'a) result" where
  "Ok \<equiv> Inr"

text \<open>Sequencing of fallible calls: \<open>x, err := f(); if err != nil { return err }\<close>.\<close>

definition bind_res :: "('e, 'a) result \<Rightarrow> ('a \<Rightarrow> ('e, 'b) result) \<Rightarrow> ('e, 'b) result" where
  "bind_res r f = (case r of Inl e \<Rightarrow> Inl e | Inr a \<Rightarrow> f a)"

lemma bind_res_simps [simp]:
  "bind_res (Err e) f = Err e"
  "bind_res (Ok a) f = f a"
  by (simp_all add: bind_res_def)

lemma bind_res_Ok_iff: "bind_res r f = Ok b \<longleftrightarrow> (\<exists>a. r = Ok a \<and> f a = Ok b)"
  by (cases r) auto

lemma bind_res_Err_iff: "bind_res r f = Err e \<longleftrightarrow> r = Err e \<or> (\<exists>a. r = Ok a \<and> f a = Err e)"
  by (cases r) auto

text \<open>Wrapping an error, as \<open>fmt.Errorf("...: %w", err)\<close> does.\<close>

definition map_err :: "('e \<Rightarrow> 'f) \<Rightarrow> ('e, 'a) result \<Rightarrow> ('f, 'a) result" where
  "map_err f r = (case r of Inl e \<Rightarrow> Inl (f e) | Inr a \<Rightarrow> Inr a)"

lemma map_err_simps [simp]:
  "map_err f (Err e) = Err (f e)"
  "map_err f (Ok a) = Ok a"
  by (simp_all add: map_err_def)

lemma map_err_Ok_iff [simp]: "map_err f r = Ok a \<longleftrightarrow> r = Ok a"
  by (cases r) auto

lemma map_err_Err_iff: "map_err f r = Err e' \<longleftrightarrow> (\<exists>e. r = Err e \<and> e' = f e)"
  by (cases r) auto

text \<open>The mapping of a fallible function over a list, stopping at the first error, as a Go loop with an
  early return does.\<close>

fun traverse :: "('a \<Rightarrow> ('e, 'b) result) \<Rightarrow> 'a list \<Rightarrow> ('e, 'b list) result" where
  "traverse f [] = Ok []"
| "traverse f (x # xs) = bind_res (f x) (\<lambda>y. bind_res (traverse f xs) (\<lambda>ys. Ok (y # ys)))"

lemma traverse_Ok_iff:
  "traverse f xs = Ok ys \<longleftrightarrow> list_all2 (\<lambda>x y. f x = Ok y) xs ys"
proof (induction xs arbitrary: ys)
  case Nil
  then show ?case by auto
next
  case (Cons x xs)
  show ?case
  proof
    assume "traverse f (x # xs) = Ok ys"
    then obtain y zs where yz: "f x = Ok y" "traverse f xs = Ok zs" "ys = y # zs"
      by (auto simp: bind_res_Ok_iff)
    from yz(2) have "list_all2 (\<lambda>x y. f x = Ok y) xs zs" by (simp only: Cons.IH)
    with yz show "list_all2 (\<lambda>x y. f x = Ok y) (x # xs) ys" by simp
  next
    assume "list_all2 (\<lambda>x y. f x = Ok y) (x # xs) ys"
    then obtain y zs where "ys = y # zs" "f x = Ok y" "list_all2 (\<lambda>x y. f x = Ok y) xs zs"
      by (auto simp: list_all2_Cons1)
    moreover from this(3) have "traverse f xs = Ok zs" by (simp only: Cons.IH)
    ultimately show "traverse f (x # xs) = Ok ys" by simp
  qed
qed

lemma traverse_Err: "traverse f xs = Err e \<Longrightarrow> \<exists>x \<in> set xs. f x = Err e"
  by (induction xs) (auto simp: bind_res_Err_iff)

text \<open>Lists.\<close>

lemma filter_length_1_unique:
  assumes "length (filter P xs) = 1" "x \<in> set xs" "y \<in> set xs" "P x" "P y"
  shows "x = y"
proof -
  from assms(1) obtain z where "filter P xs = [z]" by (auto simp: length_Suc_conv)
  moreover from assms(2-5) have "x \<in> set (filter P xs)" "y \<in> set (filter P xs)" by simp_all
  ultimately show ?thesis by simp
qed

lemma map_of_distinct_map:
  assumes "distinct (map k xs)" "x \<in> set xs"
  shows "map_of (map (\<lambda>x. (k x, v x)) xs) (k x) = Some (v x)"
  using assms by (induction xs) (auto simp: image_iff)

lemma map_of_map_dom: "dom (map_of (map (\<lambda>x. (k x, v x)) xs)) = k ` set xs"
  by (simp add: dom_map_of_conv_image_fst image_image)

lemma list_all2_in_set2: "list_all2 P xs ys \<Longrightarrow> y \<in> set ys \<Longrightarrow> \<exists>x \<in> set xs. P x y"
  by (induction rule: list_all2_induct) auto

lemma list_all2_in_set1: "list_all2 P xs ys \<Longrightarrow> x \<in> set xs \<Longrightarrow> \<exists>y \<in> set ys. P x y"
  by (induction rule: list_all2_induct) auto

text \<open>Maps.\<close>

lemma finite_dom_upd [simp]: "finite (dom m) \<Longrightarrow> finite (dom (m(k \<mapsto> v)))"
  by simp

lemma card_dom_upd:
  assumes "finite (dom m)"
  shows "card (dom (m(k \<mapsto> v))) = (if k \<in> dom m then card (dom m) else Suc (card (dom m)))"
  using assms by (simp add: insert_absorb)

lemma card_dom_upd_le: "finite (dom m) \<Longrightarrow> card (dom (m(k \<mapsto> v))) \<le> Suc (card (dom m))"
  by (simp add: card_insert_le_m1 card_insert_if)

lemma card_dom_del:
  assumes "finite (dom m)"
  shows "card (dom (m(k := None))) = (if k \<in> dom m then card (dom m) - 1 else card (dom m))"
  using assms by simp

end
