(* ===== verification/GoStrings.thy ===== *)
theory GoStrings
  imports Prelude
begin

text \<open>
  The part of Go's \<open>strings\<close>, \<open>strconv\<close> and \<open>unicode/utf8\<close> packages the repository calls, on
  strings as lists of bytes. \<open>to_lower\<close> takes the non-ASCII part of the table behind
  \<open>unicode.ToLower\<close> as an argument, so what is proved holds for every version of that table.
\<close>

section \<open>Bytes and character classes\<close>

definition byte :: "char \<Rightarrow> nat" where
  "byte c = of_char c"

definition is_lower :: "char \<Rightarrow> bool" where
  "is_lower c \<longleftrightarrow> 97 \<le> byte c \<and> byte c \<le> 122"

definition is_upper :: "char \<Rightarrow> bool" where
  "is_upper c \<longleftrightarrow> 65 \<le> byte c \<and> byte c \<le> 90"

definition is_digit :: "char \<Rightarrow> bool" where
  "is_digit c \<longleftrightarrow> 48 \<le> byte c \<and> byte c \<le> 57"

definition is_ascii :: "char \<Rightarrow> bool" where
  "is_ascii c \<longleftrightarrow> byte c < 128"

definition lower_byte :: "char \<Rightarrow> char" where
  "lower_byte c = (if is_upper c then char_of (byte c + 32) else c)"

lemmas char_class_defs = is_lower_def is_upper_def is_digit_def is_ascii_def byte_def

lemma byte_less_256 [simp]: "byte c < 256"
  by (simp add: byte_def)

lemma byte_char_of: "n < 256 \<Longrightarrow> byte (char_of n) = n"
  by (simp add: byte_def)

lemma byte_inject [simp]: "byte c = byte d \<longleftrightarrow> c = d"
  by (simp add: byte_def)

lemma is_lower_not_upper [simp]: "is_lower c \<Longrightarrow> \<not> is_upper c"
  by (simp add: char_class_defs)

lemma is_digit_not_upper [simp]: "is_digit c \<Longrightarrow> \<not> is_upper c"
  by (simp add: char_class_defs)

lemma lower_byte_not_upper [simp]: "\<not> is_upper (lower_byte c)"
  by (auto simp: lower_byte_def is_upper_def byte_char_of)

lemma lower_byte_idem [simp]: "lower_byte (lower_byte c) = lower_byte c"
  using lower_byte_not_upper [of c] by (simp add: lower_byte_def [of "lower_byte c"])

lemma lower_byte_id: "\<not> is_upper c \<Longrightarrow> lower_byte c = c"
  by (simp add: lower_byte_def)

lemma is_ascii_lower_byte [simp]: "is_ascii (lower_byte c) = is_ascii c"
  by (auto simp: lower_byte_def is_upper_def is_ascii_def byte_char_of)

section \<open>Prefixes, suffixes, cutting and searching\<close>

definition has_prefix :: "string \<Rightarrow> string \<Rightarrow> bool" where
  "has_prefix s p \<longleftrightarrow> take (length p) s = p"

definition has_suffix :: "string \<Rightarrow> string \<Rightarrow> bool" where
  "has_suffix s p \<longleftrightarrow> length p \<le> length s \<and> drop (length s - length p) s = p"

definition cut_prefix :: "string \<Rightarrow> string \<Rightarrow> string option" where
  "cut_prefix s p = (if has_prefix s p then Some (drop (length p) s) else None)"

definition cut_suffix :: "string \<Rightarrow> string \<Rightarrow> string option" where
  "cut_suffix s p = (if has_suffix s p then Some (take (length s - length p) s) else None)"

definition trim_prefix :: "string \<Rightarrow> string \<Rightarrow> string" where
  "trim_prefix s p = (case cut_prefix s p of Some r \<Rightarrow> r | None \<Rightarrow> s)"

definition trim_suffix :: "string \<Rightarrow> string \<Rightarrow> string" where
  "trim_suffix s p = (case cut_suffix s p of Some r \<Rightarrow> r | None \<Rightarrow> s)"

text \<open>\<open>strings.TrimRight\<close> with a one-byte cutset, \<open>strings.Cut\<close> and \<open>strings.Split\<close> at a
  one-byte separator, \<open>strings.ContainsAny\<close> with an ASCII set, \<open>strings.Contains\<close>.\<close>

definition trim_right :: "string \<Rightarrow> char \<Rightarrow> string" where
  "trim_right s c = rev (dropWhile (\<lambda>x. x = c) (rev s))"

definition cut :: "string \<Rightarrow> char \<Rightarrow> (string \<times> string) option" where
  "cut s c = (if c \<in> set s then Some (takeWhile (\<lambda>x. x \<noteq> c) s, tl (dropWhile (\<lambda>x. x \<noteq> c) s))
              else None)"

fun split :: "string \<Rightarrow> char \<Rightarrow> string list" where
  "split [] c = [[]]"
| "split (x # xs) c =
     (if x = c then [] # split xs c
      else (case split xs c of [] \<Rightarrow> [[x]] | w # ws \<Rightarrow> (x # w) # ws))"

definition contains_any :: "string \<Rightarrow> string \<Rightarrow> bool" where
  "contains_any s cs \<longleftrightarrow> list_ex (\<lambda>c. c \<in> set cs) s"

fun contains_str :: "string \<Rightarrow> string \<Rightarrow> bool" where
  "contains_str [] p \<longleftrightarrow> p = []"
| "contains_str (x # xs) p \<longleftrightarrow> has_prefix (x # xs) p \<or> contains_str xs p"

fun join :: "string list \<Rightarrow> string \<Rightarrow> string" where
  "join [] sep = []"
| "join [s] sep = s"
| "join (s # t # ts) sep = s @ sep @ join (t # ts) sep"

lemma has_prefix_iff: "has_prefix s p \<longleftrightarrow> (\<exists>r. s = p @ r)"
proof
  assume "has_prefix s p"
  then have "s = p @ drop (length p) s" by (metis append_take_drop_id has_prefix_def)
  then show "\<exists>r. s = p @ r" ..
qed (auto simp: has_prefix_def)

lemma has_prefix_append [simp, str_simps]: "has_prefix (p @ r) p"
  by (simp add: has_prefix_def)

lemma has_suffix_iff: "has_suffix s p \<longleftrightarrow> (\<exists>r. s = r @ p)"
proof
  assume "has_suffix s p"
  then have "s = take (length s - length p) s @ p"
    by (metis append_take_drop_id has_suffix_def)
  then show "\<exists>r. s = r @ p" ..
qed (auto simp: has_suffix_def)

lemma cut_prefix_append [simp, str_simps]: "cut_prefix (p @ r) p = Some r"
  by (simp add: cut_prefix_def)

lemma cut_suffix_append [simp, str_simps]: "cut_suffix (r @ p) p = Some r"
  by (simp add: cut_suffix_def has_suffix_def)

lemma cut_prefix_Some: "cut_prefix s p = Some r \<longleftrightarrow> s = p @ r"
  by (auto simp: cut_prefix_def has_prefix_iff)

lemma cut_suffix_Some: "cut_suffix s p = Some r \<longleftrightarrow> s = r @ p"
  by (auto simp: cut_suffix_def has_suffix_iff)

lemma trim_suffix_cases: "trim_suffix s p = s \<or> s = trim_suffix s p @ p"
  by (auto simp: trim_suffix_def cut_suffix_Some split: option.splits)

lemma trim_prefix_cases: "trim_prefix s p = s \<or> s = p @ trim_prefix s p"
  by (auto simp: trim_prefix_def cut_prefix_Some split: option.splits)

lemma cut_Some: "cut s c = Some (a, b) \<longleftrightarrow> s = a @ c # b \<and> c \<notin> set a"
proof
  assume *: "cut s c = Some (a, b)"
  then have c: "c \<in> set s" and a: "a = takeWhile (\<lambda>x. x \<noteq> c) s"
    and b: "b = tl (dropWhile (\<lambda>x. x \<noteq> c) s)"
    by (auto simp: cut_def split: if_splits)
  from c have ne: "dropWhile (\<lambda>x. x \<noteq> c) s \<noteq> []" by (auto simp: dropWhile_eq_Nil_conv)
  from hd_dropWhile [OF this] have "hd (dropWhile (\<lambda>x. x \<noteq> c) s) = c" by simp
  with ne b have "dropWhile (\<lambda>x. x \<noteq> c) s = c # b" by (simp add: list.expand)
  then have "s = a @ c # b" by (metis a takeWhile_dropWhile_id)
  moreover have "c \<notin> set a" using a by (auto dest: set_takeWhileD)
  ultimately show "s = a @ c # b \<and> c \<notin> set a" by simp
next
  assume *: "s = a @ c # b \<and> c \<notin> set a"
  then have "takeWhile (\<lambda>x. x \<noteq> c) s = a" "dropWhile (\<lambda>x. x \<noteq> c) s = c # b"
    by (auto simp: takeWhile_append dropWhile_append)
  with * show "cut s c = Some (a, b)" by (simp add: cut_def)
qed

lemma cut_None: "cut s c = None \<longleftrightarrow> c \<notin> set s"
  by (simp add: cut_def)

lemma trim_right_no_suffix: "trim_right s c = [] \<or> last (trim_right s c) \<noteq> c"
proof (cases "dropWhile (\<lambda>x. x = c) (rev s)")
  case (Cons x xs)
  with hd_dropWhile [of "\<lambda>x. x = c" "rev s"] have "x \<noteq> c" by simp
  with Cons show ?thesis by (simp add: trim_right_def last_rev)
qed (simp add: trim_right_def)

lemma split_nonempty [simp]: "split s c \<noteq> []"
  by (induction s c rule: split.induct) (auto split: list.splits)

lemma split_word: "c \<notin> set w \<Longrightarrow> split w c = [w]"
  by (induction w) auto

lemma split_append_sep: "c \<notin> set w \<Longrightarrow> split (w @ c # s) c = w # split s c"
  by (induction w) auto

lemma split_join:
  assumes "ws \<noteq> []" "\<forall>w \<in> set ws. c \<notin> set w"
  shows "split (join ws [c]) c = ws"
  using assms
proof (induction ws "[c]" rule: join.induct)
  case (3 s t ts)
  then show ?case by (simp add: split_append_sep)
qed (auto simp: split_word)

lemma set_split: "c \<notin> \<Union> (set ` set (split s c))"
  by (induction s c rule: split.induct) (auto split: list.splits)

section \<open>White space\<close>

text \<open>
  \<open>unicode.IsSpace\<close>, as the UTF-8 encodings of its code points; \<open>strings.TrimSpace\<close> removes
  leading and trailing ones. UTF-8 synchronises itself, so removing an encoding from the end of
  the bytes is what \<open>DecodeLastRune\<close> does.
\<close>

definition space_encodings :: "string list" where
  "space_encodings =
     [[CHR 0x09], [CHR 0x0A], [CHR 0x0B], [CHR 0x0C], [CHR 0x0D], [CHR 0x20],
      [CHR 0xC2, CHR 0x85], [CHR 0xC2, CHR 0xA0], [CHR 0xE1, CHR 0x9A, CHR 0x80],
      [CHR 0xE2, CHR 0x80, CHR 0x80], [CHR 0xE2, CHR 0x80, CHR 0x81],
      [CHR 0xE2, CHR 0x80, CHR 0x82], [CHR 0xE2, CHR 0x80, CHR 0x83],
      [CHR 0xE2, CHR 0x80, CHR 0x84], [CHR 0xE2, CHR 0x80, CHR 0x85],
      [CHR 0xE2, CHR 0x80, CHR 0x86], [CHR 0xE2, CHR 0x80, CHR 0x87],
      [CHR 0xE2, CHR 0x80, CHR 0x88], [CHR 0xE2, CHR 0x80, CHR 0x89],
      [CHR 0xE2, CHR 0x80, CHR 0x8A], [CHR 0xE2, CHR 0x80, CHR 0xA8],
      [CHR 0xE2, CHR 0x80, CHR 0xA9], [CHR 0xE2, CHR 0x80, CHR 0xAF],
      [CHR 0xE2, CHR 0x81, CHR 0x9F], [CHR 0xE3, CHR 0x80, CHR 0x80]]"

definition strip_first :: "string list \<Rightarrow> string \<Rightarrow> string option" where
  "strip_first encs s =
     (case find (has_prefix s) encs of None \<Rightarrow> None | Some p \<Rightarrow> Some (drop (length p) s))"

lemma strip_first_shorter:
  assumes "strip_first encs s = Some r" "[] \<notin> set encs"
  shows "length r < length s"
proof -
  from assms obtain p where p: "find (has_prefix s) encs = Some p" "r = drop (length p) s"
    by (auto simp: strip_first_def split: option.splits)
  then have "p \<in> set encs" "has_prefix s p" by (auto simp: find_Some_iff)
  with assms(2) have "p \<noteq> []" "\<exists>q. s = p @ q" by (auto simp: has_prefix_iff)
  with p(2) show ?thesis by auto
qed

lemma strip_first_set: "strip_first encs s = Some r \<Longrightarrow> set r \<subseteq> set s"
  by (auto simp: strip_first_def split: option.splits dest: in_set_dropD)

function trim_left_of :: "string list \<Rightarrow> string \<Rightarrow> string" where
  "trim_left_of encs s =
     (if [] \<in> set encs then s
      else (case strip_first encs s of None \<Rightarrow> s | Some r \<Rightarrow> trim_left_of encs r))"
  by pat_completeness auto
termination
  by (relation "measure (\<lambda>(encs, s). length s)") (auto dest: strip_first_shorter)

declare trim_left_of.simps [simp del]

definition trim_space :: "string \<Rightarrow> string" where
  "trim_space s =
     rev (trim_left_of (map rev space_encodings) (rev (trim_left_of space_encodings s)))"

lemma trim_left_of_set: "set (trim_left_of encs s) \<subseteq> set s"
proof (induction encs s rule: trim_left_of.induct)
  case (1 encs s)
  show ?case
  proof (cases "[] \<in> set encs \<or> strip_first encs s = None")
    case True
    then show ?thesis by (subst trim_left_of.simps) auto
  next
    case False
    then obtain r where r: "strip_first encs s = Some r" by auto
    with False "1.IH" have "set (trim_left_of encs r) \<subseteq> set r" by simp
    with r False strip_first_set [OF r] show ?thesis by (subst trim_left_of.simps) auto
  qed
qed

lemma trim_space_set: "set (trim_space s) \<subseteq> set s"
  using trim_left_of_set [of "map rev space_encodings" "rev (trim_left_of space_encodings s)"]
    trim_left_of_set [of space_encodings s]
  by (auto simp: trim_space_def)

lemma strip_first_None: "strip_first encs s = None \<longleftrightarrow> (\<forall>p \<in> set encs. \<not> has_prefix s p)"
  by (auto simp: strip_first_def find_None_iff find_Some_iff split: option.splits)

lemma trim_left_of_id: "(\<forall>p \<in> set encs. \<not> has_prefix s p) \<Longrightarrow> trim_left_of encs s = s"
  by (subst trim_left_of.simps) (simp add: strip_first_None [THEN iffD2])

text \<open>A byte that starts or ends no space encoding.\<close>

definition solid :: "char \<Rightarrow> bool" where
  "solid c \<longleftrightarrow> 33 \<le> byte c \<and> byte c < 128"

lemma space_encodings_not_solid:
  "list_all (\<lambda>p. p \<noteq> [] \<and> \<not> solid (hd p) \<and> \<not> solid (last p)) space_encodings"
  by (simp add: space_encodings_def solid_def byte_def)

lemma not_space_prefix:
  assumes "solid (hd s)" "p \<in> set space_encodings"
  shows "\<not> has_prefix s p" and "\<not> has_prefix s (rev p)"
proof -
  from space_encodings_not_solid assms(2)
  have p: "p \<noteq> []" "\<not> solid (hd p)" "\<not> solid (last p)" by (auto simp: list_all_iff)
  then show "\<not> has_prefix s p" using assms(1) by (auto simp: has_prefix_iff)
  from p show "\<not> has_prefix s (rev p)" using assms(1) by (auto simp: has_prefix_iff hd_rev)
qed

lemma trim_space_id:
  assumes "s = [] \<or> solid (hd s) \<and> solid (last s)"
  shows "trim_space s = s"
proof (cases "s = []")
  case True
  have "\<forall>p \<in> set space_encodings. p \<noteq> []"
    using space_encodings_not_solid by (auto simp: list_all_iff)
  then have "trim_left_of space_encodings [] = []" "trim_left_of (map rev space_encodings) [] = []"
    by (auto intro!: trim_left_of_id simp: has_prefix_iff)
  with True show ?thesis by (simp add: trim_space_def)
next
  case False
  with assms have s: "solid (hd s)" "solid (hd (rev s))" by (auto simp: hd_rev)
  then have "trim_left_of space_encodings s = s"
    using not_space_prefix(1) by (blast intro: trim_left_of_id)
  moreover have "trim_left_of (map rev space_encodings) (rev s) = rev s"
    using not_space_prefix(2) s(2) by (auto intro!: trim_left_of_id)
  ultimately show ?thesis by (simp add: trim_space_def)
qed

end
