(* ===== verification/GoText.thy ===== *)
theory GoText
  imports GoStrings
begin

text \<open>
  UTF-8, case mapping, decimal conversion and replacement: \<open>strings.ToLower\<close>,
  \<open>strings.EqualFold\<close>, \<open>strings.ReplaceAll\<close>, \<open>utf8.RuneCountInString\<close>,
  \<open>strconv.Itoa\<close>, \<open>strconv.Atoi\<close>. A record holds what these functions read from the Unicode
  tables for code points outside ASCII.
\<close>

section \<open>UTF-8\<close>

record unicode =
  u_lower :: "nat \<Rightarrow> nat"
  u_fold :: "nat \<Rightarrow> nat \<Rightarrow> bool"

definition rune_error :: nat where
  "rune_error = 65533"

definition cont :: "nat \<Rightarrow> nat \<Rightarrow> char \<Rightarrow> bool" where
  "cont lo hi c \<longleftrightarrow> lo \<le> byte c \<and> byte c \<le> hi"

definition low6 :: "char \<Rightarrow> nat" where
  "low6 c = byte c mod 64"

text \<open>\<open>utf8.DecodeRuneInString\<close>: the first code point and the bytes after it; an invalid
  encoding is \<open>RuneError\<close> of width one.\<close>

definition decode_rune :: "char \<Rightarrow> string \<Rightarrow> nat \<times> string" where
  "decode_rune c t =
     (let n = byte c in
      if n < 128 then (n, t)
      else if 194 \<le> n \<and> n \<le> 223 then
        (case t of
           c1 # r \<Rightarrow> if cont 128 191 c1 then ((n - 192) * 64 + low6 c1, r) else (rune_error, t)
         | _ \<Rightarrow> (rune_error, t))
      else if 224 \<le> n \<and> n \<le> 239 then
        (case t of
           c1 # c2 # r \<Rightarrow>
             if cont (if n = 224 then 160 else 128) (if n = 237 then 159 else 191) c1
                \<and> cont 128 191 c2
             then ((n - 224) * 4096 + low6 c1 * 64 + low6 c2, r) else (rune_error, t)
         | _ \<Rightarrow> (rune_error, t))
      else if 240 \<le> n \<and> n \<le> 244 then
        (case t of
           c1 # c2 # c3 # r \<Rightarrow>
             if cont (if n = 240 then 144 else 128) (if n = 244 then 143 else 191) c1
                \<and> cont 128 191 c2 \<and> cont 128 191 c3
             then ((n - 240) * 262144 + low6 c1 * 4096 + low6 c2 * 64 + low6 c3, r)
             else (rune_error, t)
         | _ \<Rightarrow> (rune_error, t))
      else (rune_error, t))"

lemma decode_rune_shorter: "length (snd (decode_rune c t)) \<le> length t"
  by (auto simp: decode_rune_def Let_def split: list.splits)

function runes :: "string \<Rightarrow> nat list" where
  "runes [] = []"
| "runes (c # t) = fst (decode_rune c t) # runes (snd (decode_rune c t))"
  by pat_completeness auto
termination
  by (relation "measure length") (auto simp: le_imp_less_Suc decode_rune_shorter)

definition rune_count :: "string \<Rightarrow> nat" where
  "rune_count s = length (runes s)"

definition encode_rune :: "nat \<Rightarrow> string" where
  "encode_rune n =
     (if n < 128 then [char_of n]
      else if n < 2048 then [char_of (192 + n div 64), char_of (128 + n mod 64)]
      else if 55296 \<le> n \<and> n \<le> 57343 \<or> 1114111 < n
        then [CHR 0xEF, CHR 0xBF, CHR 0xBD]
      else if n < 65536 then
        [char_of (224 + n div 4096), char_of (128 + n div 64 mod 64), char_of (128 + n mod 64)]
      else
        [char_of (240 + n div 262144), char_of (128 + n div 4096 mod 64),
         char_of (128 + n div 64 mod 64), char_of (128 + n mod 64)])"

definition rune_lower :: "unicode \<Rightarrow> nat \<Rightarrow> nat" where
  "rune_lower u r = (if r < 128 then (if 65 \<le> r \<and> r \<le> 90 then r + 32 else r) else u_lower u r)"

definition to_lower :: "unicode \<Rightarrow> string \<Rightarrow> string" where
  "to_lower u s =
     (if list_all is_ascii s then map lower_byte s
      else concat (map (\<lambda>r. encode_rune (rune_lower u r)) (runes s)))"

definition fold_eq :: "unicode \<Rightarrow> nat \<Rightarrow> nat \<Rightarrow> bool" where
  "fold_eq u a b \<longleftrightarrow>
     a = b \<or> (if a < 128 \<and> b < 128 then rune_lower u a = rune_lower u b else u_fold u a b)"

definition equal_fold :: "unicode \<Rightarrow> string \<Rightarrow> string \<Rightarrow> bool" where
  "equal_fold u s t \<longleftrightarrow> list_all2 (fold_eq u) (runes s) (runes t)"

lemma decode_rune_ascii: "is_ascii c \<Longrightarrow> decode_rune c t = (byte c, t)"
  by (simp add: decode_rune_def is_ascii_def)

lemma runes_ascii: "list_all is_ascii s \<Longrightarrow> runes s = map byte s"
  by (induction s) (auto simp: decode_rune_ascii)

lemma rune_count_ascii: "list_all is_ascii s \<Longrightarrow> rune_count s = length s"
  by (simp add: rune_count_def runes_ascii)

lemma to_lower_ascii: "list_all is_ascii s \<Longrightarrow> to_lower u s = map lower_byte s"
  by (simp add: to_lower_def)

lemma to_lower_id: "list_all (\<lambda>c. is_ascii c \<and> \<not> is_upper c) s \<Longrightarrow> to_lower u s = s"
  by (auto simp: to_lower_def list_all_iff lower_byte_id intro: map_idI)

lemma equal_fold_refl [simp]: "equal_fold u s s"
  by (simp add: equal_fold_def fold_eq_def list.rel_refl)

text \<open>A sample of the tables, for evaluation: the two code points outside ASCII whose lower case
  is an ASCII letter, and the two that fold onto one.\<close>

definition sample_unicode :: unicode where
  "sample_unicode =
     \<lparr>u_lower = (\<lambda>r. if r = 304 then 105 else if r = 8490 then 107 else r),
      u_fold = (\<lambda>a b. {a, b} \<in> {{75, 8490}, {107, 8490}, {83, 383}, {115, 383}})\<rparr>"

section \<open>Decimal conversion\<close>

definition digit_char :: "nat \<Rightarrow> char" where
  "digit_char d = char_of (48 + d)"

fun dec :: "nat \<Rightarrow> string" where
  "dec n = (if n < 10 then [digit_char n] else dec (n div 10) @ [digit_char (n mod 10)])"

declare dec.simps [simp del]

definition itoa :: "int \<Rightarrow> string" where
  "itoa i = (if i < 0 then CHR ''-'' # dec (nat (- i)) else dec (nat i))"

fun parse_dec :: "nat \<Rightarrow> string \<Rightarrow> nat option" where
  "parse_dec acc [] = Some acc"
| "parse_dec acc (c # cs) =
     (if is_digit c then parse_dec (10 * acc + (byte c - 48)) cs else None)"

definition max_int64 :: int where
  "max_int64 = 9223372036854775807"

text \<open>\<open>strconv.Atoi\<close>: an optional sign and at least one digit, in the range of a 64-bit
  \<open>int\<close>.\<close>

definition atoi :: "string \<Rightarrow> int option" where
  "atoi s =
     (let neg = (s \<noteq> [] \<and> hd s = CHR ''-'');
          ds = (if s \<noteq> [] \<and> (hd s = CHR ''-'' \<or> hd s = CHR ''+'') then tl s else s)
      in if ds = [] then None
         else (case parse_dec 0 ds of
                 None \<Rightarrow> None
               | Some n \<Rightarrow>
                   let i = (if neg then - int n else int n)
                   in if - max_int64 - 1 \<le> i \<and> i \<le> max_int64 then Some i else None))"

lemma byte_digit_char: "d < 10 \<Longrightarrow> byte (digit_char d) = 48 + d"
  by (simp add: digit_char_def byte_char_of)

lemma is_digit_digit_char [simp]: "d < 10 \<Longrightarrow> is_digit (digit_char d)"
  by (simp add: is_digit_def byte_digit_char)

lemma dec_nonempty [simp]: "dec n \<noteq> []"
  by (subst dec.simps) simp

lemma dec_digits: "list_all is_digit (dec n)"
proof (induction n rule: dec.induct)
  case (1 n)
  then show ?case by (subst dec.simps) auto
qed

lemma parse_dec_append:
  "parse_dec acc (s @ t) = (case parse_dec acc s of None \<Rightarrow> None | Some n \<Rightarrow> parse_dec n t)"
  by (induction s arbitrary: acc) auto

lemma parse_dec_dec: "parse_dec 0 (dec n) = Some n"
proof (induction n rule: dec.induct)
  case (1 n)
  show ?case
  proof (cases "n < 10")
    case True
    then show ?thesis by (subst dec.simps) (simp add: byte_digit_char)
  next
    case False
    with "1.IH" have "parse_dec 0 (dec (n div 10)) = Some (n div 10)" by simp
    with False show ?thesis
      by (subst dec.simps) (simp add: parse_dec_append byte_digit_char)
  qed
qed

lemma digit_neq_sign [simp]: "is_digit c \<Longrightarrow> c \<noteq> CHR ''-''" "is_digit c \<Longrightarrow> c \<noteq> CHR ''+''"
  by (auto simp: is_digit_def byte_def)

lemma hd_dec: "is_digit (hd (dec n))"
  using dec_digits [of n] dec_nonempty [of n] by (cases "dec n") auto

lemma atoi_itoa:
  assumes "- max_int64 - 1 \<le> i" "i \<le> max_int64"
  shows "atoi (itoa i) = Some i"
proof (cases "i < 0")
  case True
  with assms show ?thesis by (simp add: itoa_def atoi_def parse_dec_dec)
next
  case False
  have "hd (dec (nat i)) \<noteq> CHR ''-''" "hd (dec (nat i)) \<noteq> CHR ''+''"
    by (rule digit_neq_sign, rule hd_dec)+
  with False assms show ?thesis by (simp add: itoa_def atoi_def parse_dec_dec)
qed

lemma dec_inject [simp]: "dec m = dec n \<longleftrightarrow> m = n"
  by (metis parse_dec_dec option.inject)

lemma itoa_nonneg: "0 \<le> i \<Longrightarrow> itoa i = dec (nat i)"
  by (simp add: itoa_def)

lemma itoa_inject [simp]: "itoa i = itoa j \<longleftrightarrow> i = j"
proof
  assume *: "itoa i = itoa j"
  have d: "dec n \<noteq> CHR ''-'' # s" for n s
    using digit_neq_sign(1) [OF hd_dec [of n]] by (metis list.sel(1))
  show "i = j"
  proof (cases "i < 0"; cases "j < 0")
    assume "i < 0" "\<not> j < 0"
    with * d [of "nat j" "dec (nat (- i))"] show ?thesis by (simp add: itoa_def)
  next
    assume "\<not> i < 0" "j < 0"
    with * d [of "nat i" "dec (nat (- j))"] show ?thesis by (simp add: itoa_def)
  qed (use * in \<open>simp_all add: itoa_def\<close>)
qed simp

section \<open>Replacement\<close>

text \<open>\<open>strings.ReplaceAll\<close> for a non-empty search string: the occurrences from the left that do
  not overlap.\<close>

function replace_all :: "string \<Rightarrow> string \<Rightarrow> string \<Rightarrow> string" where
  "replace_all [] old new = []"
| "replace_all (x # xs) old new =
     (if old \<noteq> [] \<and> has_prefix (x # xs) old
      then new @ replace_all (drop (length old) (x # xs)) old new
      else x # replace_all xs old new)"
  by pat_completeness auto
termination
  by (relation "measure (\<lambda>(s, old, new). length s)") auto

lemma contains_str_iff: "contains_str s p \<longleftrightarrow> (\<exists>a b. s = a @ p @ b)"
proof (induction s)
  case Nil
  then show ?case by auto
next
  case (Cons x xs)
  show ?case
  proof
    assume "contains_str (x # xs) p"
    then consider "has_prefix (x # xs) p" | "contains_str xs p" by auto
    then show "\<exists>a b. x # xs = a @ p @ b"
    proof cases
      case 1
      then obtain r where "x # xs = [] @ p @ r" by (auto simp: has_prefix_iff)
      then show ?thesis by blast
    next
      case 2
      with Cons.IH obtain a b where "x # xs = (x # a) @ p @ b" by auto
      then show ?thesis by blast
    qed
  next
    assume "\<exists>a b. x # xs = a @ p @ b"
    then obtain a b where ab: "x # xs = a @ p @ b" by blast
    then show "contains_str (x # xs) p"
    proof (cases a)
      case Nil
      with ab have "has_prefix (x # xs) p" by simp
      then show ?thesis by simp
    next
      case (Cons y ys)
      with ab Cons.IH show ?thesis by auto
    qed
  qed
qed

lemma replace_all_prefix:
  assumes "has_prefix (replace_all s old new) w" "set w \<inter> set new = {}" "new \<noteq> []"
  shows "has_prefix s w"
  using assms
proof (induction s old new arbitrary: w rule: replace_all.induct)
  case (1 old new)
  then show ?case by simp
next
  case (2 x xs old new)
  show ?case
  proof (cases w)
    case Nil
    then show ?thesis by (simp add: has_prefix_def)
  next
    case (Cons c w')
    show ?thesis
    proof (cases "old \<noteq> [] \<and> has_prefix (x # xs) old")
      case True
      with 2 Cons have "has_prefix (new @ replace_all (drop (length old) (x # xs)) old new) (c # w')"
        by simp
      with \<open>new \<noteq> []\<close> have "c = hd new" by (cases new) (auto simp: has_prefix_iff)
      with \<open>new \<noteq> []\<close> "2.prems"(2) Cons have False by auto
      then show ?thesis ..
    next
      case False
      with 2 Cons have "c = x" "has_prefix (replace_all xs old new) w'"
        by (auto simp: has_prefix_iff)
      with 2 Cons False have "has_prefix xs w'" by auto
      with Cons \<open>c = x\<close> show ?thesis by (auto simp: has_prefix_iff)
    qed
  qed
qed

lemma replace_all_removes:
  assumes "old \<noteq> []" "new \<noteq> []" "set old \<inter> set new = {}"
  shows "\<not> contains_str (replace_all s old new) old"
  using assms
proof (induction s old new rule: replace_all.induct)
  case (1 old new)
  then show ?case by simp
next
  case (2 x xs old new)
  show ?case
  proof (cases "has_prefix (x # xs) old")
    case True
    let ?r = "replace_all (drop (length old) (x # xs)) old new"
    have rest: "\<not> contains_str ?r old" using 2 True by simp
    have "\<not> contains_str (ns @ ?r) old" if "set ns \<subseteq> set new" for ns
      using that
    proof (induction ns)
      case (Cons n ns)
      then have "n \<notin> set old" using "2.prems"(3) by auto
      with \<open>old \<noteq> []\<close> have "\<not> has_prefix (n # ns @ ?r) old"
        by (cases old) (auto simp: has_prefix_iff)
      with Cons show ?case by simp
    qed (use rest in simp)
    then have "\<not> contains_str (new @ ?r) old" by blast
    with True \<open>old \<noteq> []\<close> show ?thesis by simp
  next
    case False
    with 2 have rest: "\<not> contains_str (replace_all xs old new) old" by simp
    have "\<not> has_prefix (x # replace_all xs old new) old"
      using replace_all_prefix [of "x # xs" old new old] 2 False by auto
    with rest False show ?thesis by simp
  qed
qed

end
