(* ===== verification/GoRegex.thy ===== *)
theory GoRegex
  imports GoText
begin

text \<open>
  The regular expressions of the code (\<open>regexp.MustCompile\<close>), all anchored at both ends: a
  syntax whose atoms are byte classes, an executable matcher by derivatives
  (\<open>MatchString\<close>), and its correctness against the inductively defined language. A class that
  holds ASCII characters only matches a byte exactly when Go, which reads runes, matches the rune.
\<close>

datatype rx =
    RNone
  | REps
  | RCls "char \<Rightarrow> bool"
  | RSeq rx rx
  | RAlt rx rx
  | RStar rx

inductive in_rx :: "rx \<Rightarrow> string \<Rightarrow> bool" where
  in_eps: "in_rx REps []"
| in_cls: "P c \<Longrightarrow> in_rx (RCls P) [c]"
| in_seq: "in_rx a s \<Longrightarrow> in_rx b t \<Longrightarrow> in_rx (RSeq a b) (s @ t)"
| in_altL: "in_rx a s \<Longrightarrow> in_rx (RAlt a b) s"
| in_altR: "in_rx b s \<Longrightarrow> in_rx (RAlt a b) s"
| in_starN: "in_rx (RStar r) []"
| in_starS: "in_rx r s \<Longrightarrow> in_rx (RStar r) t \<Longrightarrow> in_rx (RStar r) (s @ t)"

inductive_simps in_rx_simps [simp]:
  "in_rx RNone s" "in_rx REps s" "in_rx (RCls P) s" "in_rx (RAlt a b) s"

inductive_simps in_rx_seq: "in_rx (RSeq a b) s"

fun nullable :: "rx \<Rightarrow> bool" where
  "nullable RNone = False"
| "nullable REps = True"
| "nullable (RCls P) = False"
| "nullable (RSeq a b) = (nullable a \<and> nullable b)"
| "nullable (RAlt a b) = (nullable a \<or> nullable b)"
| "nullable (RStar r) = True"

text \<open>Smart constructors keep the derivatives small.\<close>

fun seq_rx :: "rx \<Rightarrow> rx \<Rightarrow> rx" where
  "seq_rx RNone b = RNone"
| "seq_rx REps b = b"
| "seq_rx a b = RSeq a b"

fun alt_rx :: "rx \<Rightarrow> rx \<Rightarrow> rx" where
  "alt_rx RNone b = b"
| "alt_rx a RNone = a"
| "alt_rx a b = RAlt a b"

fun rx_deriv :: "char \<Rightarrow> rx \<Rightarrow> rx" where
  "rx_deriv c RNone = RNone"
| "rx_deriv c REps = RNone"
| "rx_deriv c (RCls P) = (if P c then REps else RNone)"
| "rx_deriv c (RSeq a b) =
     (if nullable a then alt_rx (seq_rx (rx_deriv c a) b) (rx_deriv c b)
      else seq_rx (rx_deriv c a) b)"
| "rx_deriv c (RAlt a b) = alt_rx (rx_deriv c a) (rx_deriv c b)"
| "rx_deriv c (RStar r) = seq_rx (rx_deriv c r) (RStar r)"

fun match_string :: "rx \<Rightarrow> string \<Rightarrow> bool" where
  "match_string r [] = nullable r"
| "match_string r (c # cs) = match_string (rx_deriv c r) cs"

lemma in_seq_rx [simp]: "in_rx (seq_rx a b) s = in_rx (RSeq a b) s"
proof (cases a)
  case REps
  then show ?thesis by (auto simp: in_rx_seq)
qed (auto simp: in_rx_seq)

lemma in_alt_rx [simp]: "in_rx (alt_rx a b) s = in_rx (RAlt a b) s"
  by (cases "(a, b)" rule: alt_rx.cases) auto

lemma nullable_iff: "nullable r \<longleftrightarrow> in_rx r []"
  by (induction r) (auto simp: in_rx_seq intro: in_rx.intros)

lemma in_star_ConsD:
  assumes "in_rx (RStar r) (c # s)"
  shows "\<exists>t u. s = t @ u \<and> in_rx r (c # t) \<and> in_rx (RStar r) u"
proof -
  have "in_rx q w \<Longrightarrow> q = RStar r \<Longrightarrow> w = c # s \<Longrightarrow>
      \<exists>t u. s = t @ u \<and> in_rx r (c # t) \<and> in_rx (RStar r) u" for q w
  proof (induction arbitrary: s rule: in_rx.induct)
    case (in_starS r' v w)
    then show ?case by (cases v) auto
  qed auto
  with assms show ?thesis by blast
qed

lemma in_rx_deriv: "in_rx (rx_deriv c r) s \<longleftrightarrow> in_rx r (c # s)"
proof (induction r arbitrary: s)
  case (RSeq a b)
  have "in_rx (RSeq a b) (c # s) \<longleftrightarrow>
      (\<exists>t u. s = t @ u \<and> in_rx a (c # t) \<and> in_rx b u) \<or> (in_rx a [] \<and> in_rx b (c # s))"
    by (auto simp: in_rx_seq Cons_eq_append_conv)
  with RSeq show ?case by (auto simp: nullable_iff in_rx_seq)
next
  case (RStar r)
  show ?case
  proof
    assume "in_rx (rx_deriv c (RStar r)) s"
    then obtain t u where "s = t @ u" "in_rx r (c # t)" "in_rx (RStar r) u"
      using RStar by (auto simp: in_rx_seq)
    then show "in_rx (RStar r) (c # s)" using in_starS [of r "c # t" u] by simp
  next
    assume "in_rx (RStar r) (c # s)"
    then show "in_rx (rx_deriv c (RStar r)) s"
      using RStar in_star_ConsD by (fastforce simp: in_rx_seq)
  qed
qed auto

theorem match_string_iff: "match_string r s \<longleftrightarrow> in_rx r s"
  by (induction s arbitrary: r) (simp_all add: nullable_iff in_rx_deriv)

section \<open>Derived forms\<close>

definition ROpt :: "rx \<Rightarrow> rx" where
  "ROpt r = RAlt REps r"

definition RChr :: "char \<Rightarrow> rx" where
  "RChr c = RCls (\<lambda>x. x = c)"

primrec rx_pow :: "rx \<Rightarrow> nat \<Rightarrow> rx" where
  "rx_pow r 0 = REps"
| "rx_pow r (Suc n) = RSeq r (rx_pow r n)"

primrec rx_upto :: "rx \<Rightarrow> nat \<Rightarrow> rx" where
  "rx_upto r 0 = REps"
| "rx_upto r (Suc n) = RAlt REps (RSeq r (rx_upto r n))"

text \<open>The counted repetition \<open>r{m,n}\<close>.\<close>

definition RRep :: "rx \<Rightarrow> nat \<Rightarrow> nat \<Rightarrow> rx" where
  "RRep r m n = RSeq (rx_pow r m) (rx_upto r (n - m))"

lemma in_ROpt [simp]: "in_rx (ROpt r) s \<longleftrightarrow> s = [] \<or> in_rx r s"
  by (simp add: ROpt_def)

lemma in_RChr [simp]: "in_rx (RChr c) s \<longleftrightarrow> s = [c]"
  by (auto simp: RChr_def)

lemma in_cls_seq [simp]: "in_rx (RSeq (RCls P) b) s \<longleftrightarrow> (\<exists>c t. s = c # t \<and> P c \<and> in_rx b t)"
  using in_seq [OF in_cls [of P], of _ b] by (auto simp: in_rx_seq)

lemma in_star_cls [simp]: "in_rx (RStar (RCls P)) s \<longleftrightarrow> list_all P s"
proof
  assume "in_rx (RStar (RCls P)) s"
  then show "list_all P s"
    by (induction "RStar (RCls P)" s rule: in_rx.induct) auto
next
  assume "list_all P s"
  then show "in_rx (RStar (RCls P)) s"
  proof (induction s)
    case (Cons c s)
    then show ?case using in_starS [of "RCls P" "[c]" s] by (simp add: in_cls)
  qed (simp add: in_starN)
qed

lemma in_rx_pow: "in_rx (rx_pow r n) s \<longleftrightarrow>
    (\<exists>ws. length ws = n \<and> s = concat ws \<and> list_all (in_rx r) ws)"
proof (induction n arbitrary: s)
  case (Suc n)
  show ?case
  proof
    assume "in_rx (rx_pow r (Suc n)) s"
    then obtain w ws where "s = w @ concat ws" "in_rx r w" "length ws = n" "list_all (in_rx r) ws"
      by (auto simp: in_rx_seq Suc.IH)
    then have "length (w # ws) = Suc n \<and> s = concat (w # ws) \<and> list_all (in_rx r) (w # ws)" by simp
    then show "\<exists>ws. length ws = Suc n \<and> s = concat ws \<and> list_all (in_rx r) ws" by blast
  next
    assume "\<exists>ws. length ws = Suc n \<and> s = concat ws \<and> list_all (in_rx r) ws"
    then obtain w ws where "s = w @ concat ws" "in_rx r w" "length ws = n" "list_all (in_rx r) ws"
      by (auto simp: length_Suc_conv)
    then show "in_rx (rx_pow r (Suc n)) s"
      using in_seq [of r w "rx_pow r n" "concat ws"] Suc.IH by auto
  qed
qed auto

lemma in_rx_upto: "in_rx (rx_upto r n) s \<longleftrightarrow>
    (\<exists>ws. length ws \<le> n \<and> s = concat ws \<and> list_all (in_rx r) ws)"
proof (induction n arbitrary: s)
  case (Suc n)
  show ?case
  proof
    assume "in_rx (rx_upto r (Suc n)) s"
    then consider "s = []" | w ws where "s = w @ concat ws" "in_rx r w" "length ws \<le> n"
        "list_all (in_rx r) ws"
      by (auto simp: in_rx_seq Suc.IH)
    then show "\<exists>ws. length ws \<le> Suc n \<and> s = concat ws \<and> list_all (in_rx r) ws"
    proof cases
      case 1
      then show ?thesis by (intro exI [of _ "[]"]) simp
    next
      case 2
      then show ?thesis by (intro exI [of _ "w # ws"]) simp
    qed
  next
    assume "\<exists>ws. length ws \<le> Suc n \<and> s = concat ws \<and> list_all (in_rx r) ws"
    then obtain ws where "length ws \<le> Suc n" "s = concat ws" "list_all (in_rx r) ws" by blast
    then show "in_rx (rx_upto r (Suc n)) s"
    proof (cases ws)
      case (Cons w vs)
      with \<open>length ws \<le> Suc n\<close> \<open>list_all (in_rx r) ws\<close> have "in_rx (rx_upto r n) (concat vs)"
        using Suc.IH by auto
      with Cons \<open>s = concat ws\<close> \<open>list_all (in_rx r) ws\<close>
        in_seq [of r w "rx_upto r n" "concat vs"] show ?thesis by simp
    qed simp
  qed
qed auto

lemma in_RRep:
  assumes "m \<le> n"
  shows "in_rx (RRep r m n) s \<longleftrightarrow>
    (\<exists>ws. m \<le> length ws \<and> length ws \<le> n \<and> s = concat ws \<and> list_all (in_rx r) ws)"
proof
  assume "in_rx (RRep r m n) s"
  then obtain us vs where uv: "s = concat us @ concat vs" "length us = m" "length vs \<le> n - m"
      "list_all (in_rx r) us" "list_all (in_rx r) vs"
    by (auto simp: RRep_def in_rx_seq in_rx_pow in_rx_upto)
  with assms show "\<exists>ws. m \<le> length ws \<and> length ws \<le> n \<and> s = concat ws \<and> list_all (in_rx r) ws"
    by (intro exI [of _ "us @ vs"]) simp
next
  assume "\<exists>ws. m \<le> length ws \<and> length ws \<le> n \<and> s = concat ws \<and> list_all (in_rx r) ws"
  then obtain ws where ws: "m \<le> length ws" "length ws \<le> n" "s = concat ws"
      "list_all (in_rx r) ws"
    by blast
  from ws(3) have "s = concat (take m ws) @ concat (drop m ws)"
    by (metis append_take_drop_id concat_append)
  moreover from ws have "list_all (in_rx r) (take m ws)" "list_all (in_rx r) (drop m ws)"
    by (auto simp: list_all_iff dest: in_set_takeD in_set_dropD)
  ultimately show "in_rx (RRep r m n) s"
    using ws(1,2) by (auto simp: RRep_def in_rx_seq in_rx_pow in_rx_upto intro!: exI)
qed

lemma in_RRep_cls: "in_rx (RRep (RCls P) n n) s \<longleftrightarrow> length s = n \<and> list_all P s"
proof
  assume "in_rx (RRep (RCls P) n n) s"
  then obtain ws where "length ws = n" "s = concat ws" "list_all (in_rx (RCls P)) ws"
    by (auto simp: in_RRep)
  then show "length s = n \<and> list_all P s"
    by (induction ws arbitrary: n s) auto
next
  assume *: "length s = n \<and> list_all P s"
  then have "s = concat (map (\<lambda>c. [c]) s)" by simp
  moreover from * have "list_all (in_rx (RCls P)) (map (\<lambda>c. [c]) s)" by (simp add: list_all_iff)
  ultimately show "in_rx (RRep (RCls P) n n) s"
    using * by (auto simp: in_RRep intro!: exI [of _ "map (\<lambda>c. [c]) s"])
qed

section \<open>Identifiers with single internal hyphens\<close>

text \<open>
  The shape \<open>^X(-?X){m,n}$\<close> of the username, slug and repository owner expressions: what it
  says of the matched string.
\<close>

definition hyphen_rx :: "(char \<Rightarrow> bool) \<Rightarrow> nat \<Rightarrow> nat \<Rightarrow> rx" where
  "hyphen_rx P m n = RSeq (RCls P) (RRep (RSeq (ROpt (RChr (CHR ''-''))) (RCls P)) m n)"

lemma in_hyphen_item:
  "in_rx (RSeq (ROpt (RChr (CHR ''-''))) (RCls P)) w \<longleftrightarrow>
     (\<exists>c. P c \<and> (w = [c] \<or> w = [CHR ''-'', c]))"
  by (auto simp: in_rx_seq) (metis append_Cons append_Nil)

lemma hyphen_items_concat:
  assumes "list_all (in_rx (RSeq (ROpt (RChr (CHR ''-''))) (RCls P))) ws"
  shows "set (concat ws) \<subseteq> {c. P c} \<union> {CHR ''-''}"
    and "length ws \<le> length (concat ws)"
    and "length (concat ws) \<le> 2 * length ws"
    and "ws \<noteq> [] \<Longrightarrow> P (last (concat ws))"
proof -
  show "set (concat ws) \<subseteq> {c. P c} \<union> {CHR ''-''}" "length ws \<le> length (concat ws)"
    "length (concat ws) \<le> 2 * length ws"
    using assms by (induction ws) (auto simp: in_hyphen_item)
  assume "ws \<noteq> []"
  then obtain us w where "ws = us @ [w]" by (metis append_butlast_last_id)
  with assms show "P (last (concat ws))" by (auto simp: in_hyphen_item)
qed

lemma in_hyphen_rx_imp:
  assumes "in_rx (hyphen_rx P m n) s" "m \<le> n"
  shows "P (hd s)" "P (last s)" "set s \<subseteq> {c. P c} \<union> {CHR ''-''}" "s \<noteq> []"
    "Suc m \<le> length s" "length s \<le> Suc (2 * n)"
proof -
  from assms obtain c ws where c: "s = c # concat ws" "P c" and len: "m \<le> length ws" "length ws \<le> n"
    and ws: "list_all (in_rx (RSeq (ROpt (RChr (CHR ''-''))) (RCls P))) ws"
    by (auto simp: hyphen_rx_def in_RRep)
  from c show "P (hd s)" "s \<noteq> []" by simp_all
  from c hyphen_items_concat(1) [OF ws] show "set s \<subseteq> {c. P c} \<union> {CHR ''-''}" by auto
  from c len hyphen_items_concat(2,3) [OF ws] show "Suc m \<le> length s" "length s \<le> Suc (2 * n)"
    by auto
  show "P (last s)"
  proof (cases "concat ws = []")
    case False
    then have "ws \<noteq> []" by auto
    with hyphen_items_concat(4) [OF ws] c False show ?thesis by simp
  qed (use c in simp)
qed

lemma in_hyphen_rx_plain:
  assumes "s = c # cs" "P c" "list_all P cs" "m \<le> length cs" "length cs \<le> n"
  shows "in_rx (hyphen_rx P m n) s"
proof -
  have "list_all (in_rx (RSeq (ROpt (RChr (CHR ''-''))) (RCls P))) (map (\<lambda>x. [x]) cs)"
    using assms(3) by (auto simp: list_all_iff in_hyphen_item)
  moreover have "cs = concat (map (\<lambda>x. [x]) cs)" by simp
  ultimately show ?thesis
    using assms by (auto simp: hyphen_rx_def in_RRep intro!: exI [of _ "map (\<lambda>x. [x]) cs"])
qed

lemma in_hyphen_rx_hyphens:
  assumes "s = c # concat (map (\<lambda>x. [CHR ''-'', x]) cs)" "P c" "list_all P cs"
    "m \<le> length cs" "length cs \<le> n"
  shows "in_rx (hyphen_rx P m n) s"
proof -
  have "list_all (in_rx (RSeq (ROpt (RChr (CHR ''-''))) (RCls P))) (map (\<lambda>x. [CHR ''-'', x]) cs)"
    using assms(3) by (auto simp: list_all_iff in_hyphen_item)
  then show ?thesis
    using assms by (auto simp: hyphen_rx_def in_RRep intro!: exI [of _ "map (\<lambda>x. [CHR ''-'', x]) cs"])
qed

end
