(* ===== verification/GoNet.thy ===== *)
theory GoNet
  imports GoText
begin

text \<open>
  Host and path arithmetic of the standard library: \<open>net.SplitHostPort\<close>,
  \<open>net.JoinHostPort\<close> and \<open>path.Clean\<close> (with \<open>path.IsAbs\<close>).
\<close>

section \<open>Host and port\<close>

definition last_cut :: "string \<Rightarrow> char \<Rightarrow> (string \<times> string) option" where
  "last_cut s c = map_option (\<lambda>(a, b). (rev b, rev a)) (cut (rev s) c)"

text \<open>Every error of \<open>SplitHostPort\<close> is the value None: the callers test for an error only.\<close>

definition split_host_port :: "string \<Rightarrow> (string \<times> string) option" where
  "split_host_port s =
     (case last_cut s (CHR '':'') of
        None \<Rightarrow> None
      | Some (pre, port) \<Rightarrow>
          if hd s = CHR ''['' then
            (case cut s (CHR '']'') of
               None \<Rightarrow> None
             | Some (a, b) \<Rightarrow>
                 if pre \<noteq> a @ '']'' then None
                 else if CHR ''['' \<in> set (tl s) \<or> CHR '']'' \<in> set b then None
                 else Some (tl a, port))
          else if CHR '':'' \<in> set pre then None
          else if CHR ''['' \<in> set s \<or> CHR '']'' \<in> set s then None
          else Some (pre, port))"

definition join_host_port :: "string \<Rightarrow> string \<Rightarrow> string" where
  "join_host_port host port =
     (if CHR '':'' \<in> set host then ''['' @ host @ '']:'' @ port else host @ '':'' @ port)"

lemma last_cut_Some: "last_cut s c = Some (a, b) \<longleftrightarrow> s = a @ c # b \<and> c \<notin> set b"
proof -
  have "last_cut s c = Some (a, b) \<longleftrightarrow> cut (rev s) c = Some (rev b, rev a)"
    by (auto simp: last_cut_def)
  also have "\<dots> \<longleftrightarrow> rev s = rev b @ c # rev a \<and> c \<notin> set b" by (simp add: cut_Some)
  also have "rev s = rev b @ c # rev a \<longleftrightarrow> s = a @ c # b"
    by (metis append.assoc append_Cons append_Nil rev.simps(2) rev_append rev_rev_ident)
  finally show ?thesis .
qed

lemma last_cut_None: "last_cut s c = None \<longleftrightarrow> c \<notin> set s"
  by (auto simp: last_cut_def cut_None)

text \<open>A host without colons and brackets and a port without them are read back as they are.\<close>

definition plain_host :: "string \<Rightarrow> bool" where
  "plain_host h \<longleftrightarrow> set h \<inter> {CHR '':'', CHR ''['', CHR '']''} = {}"

lemma split_host_port_plain:
  assumes "plain_host h" "plain_host p"
  shows "split_host_port (h @ CHR '':'' # p) = Some (h, p)"
proof -
  have *: "last_cut (h @ CHR '':'' # p) (CHR '':'') = Some (h, p)"
    using assms by (auto simp: last_cut_Some plain_host_def)
  have "hd (h @ CHR '':'' # p) \<noteq> CHR ''[''"
    using assms by (cases h) (auto simp: plain_host_def)
  then show ?thesis
    using assms * by (auto simp: split_host_port_def plain_host_def)
qed

lemma join_host_port_plain: "plain_host h \<Longrightarrow> join_host_port h p = h @ CHR '':'' # p"
  by (auto simp: join_host_port_def plain_host_def)

lemma split_host_port_noport: "CHR '':'' \<notin> set s \<Longrightarrow> split_host_port s = None"
  by (simp add: split_host_port_def last_cut_None [THEN iffD2])

section \<open>Paths\<close>

definition is_abs :: "string \<Rightarrow> bool" where
  "is_abs p \<longleftrightarrow> has_prefix p ''/''"

text \<open>
  One path element of \<open>path.Clean\<close>, on the stack of kept elements (innermost first): empty
  elements and \<open>.\<close> vanish, \<open>..\<close> removes the element before it, at the root of a rooted path it
  vanishes, and at the start of a relative one it stays.
\<close>

definition clean_step :: "bool \<Rightarrow> string list \<Rightarrow> string \<Rightarrow> string list" where
  "clean_step rooted stack e =
     (if e = '''' \<or> e = ''.'' then stack
      else if e = ''..'' then
        (case stack of
           [] \<Rightarrow> if rooted then [] else [''..'']
         | x # rest \<Rightarrow> if x = ''..'' then ''..'' # stack else rest)
      else e # stack)"

definition clean_elems :: "bool \<Rightarrow> string list \<Rightarrow> string list" where
  "clean_elems rooted es = rev (foldl (clean_step rooted) [] es)"

definition path_clean :: "string \<Rightarrow> string" where
  "path_clean p =
     (if p = '''' then ''.''
      else
        let rooted = is_abs p; out = join (clean_elems rooted (split p (CHR ''/''))) ''/''
        in if rooted then ''/'' @ out else if out = '''' then ''.'' else out)"

text \<open>\<open>filepath.Join\<close> of two elements.\<close>

definition path_join :: "string \<Rightarrow> string \<Rightarrow> string" where
  "path_join a b =
     (if a = '''' \<and> b = '''' then '''' else if a = '''' then path_clean b else if b = '''' then path_clean a
      else path_clean (a @ ''/'' @ b))"

text \<open>
  What a relative path means: the depth it reaches below the directory it starts in, and the
  lowest depth on the way.
\<close>

fun walk_depth :: "int \<Rightarrow> string list \<Rightarrow> int" where
  "walk_depth d [] = d"
| "walk_depth d (e # es) =
     walk_depth (if e = '''' \<or> e = ''.'' then d else if e = ''..'' then d - 1 else d + 1) es"

definition stays_inside :: "string list \<Rightarrow> bool" where
  "stays_inside es \<longleftrightarrow> (\<forall>n. 0 \<le> walk_depth 0 (take n es))"

text \<open>The same, element by element.\<close>

fun stays_from :: "int \<Rightarrow> string list \<Rightarrow> bool" where
  "stays_from d [] \<longleftrightarrow> 0 \<le> d"
| "stays_from d (e # es) \<longleftrightarrow> 0 \<le> d \<and>
     stays_from (if e = [] \<or> e = ''.'' then d else if e = ''..'' then d - 1 else d + 1) es"

lemma stays_from_iff: "stays_from d es \<longleftrightarrow> (\<forall>n. 0 \<le> walk_depth d (take n es))"
proof (induction d es rule: stays_from.induct)
  case (2 d e es)
  let ?d = "if e = [] \<or> e = ''.'' then d else if e = ''..'' then d - 1 else d + 1"
  have "(\<forall>n. 0 \<le> walk_depth d (take n (e # es))) \<longleftrightarrow>
      0 \<le> walk_depth d (take 0 (e # es)) \<and> (\<forall>n. 0 \<le> walk_depth d (take (Suc n) (e # es)))"
    by (metis not0_implies_Suc)
  also have "\<dots> \<longleftrightarrow> 0 \<le> d \<and> (\<forall>n. 0 \<le> walk_depth ?d (take n es))" by simp
  also have "\<dots> \<longleftrightarrow> stays_from d (e # es)" by (simp only: "2.IH" stays_from.simps)
  finally show ?case by (rule sym)
qed simp

lemma stays_inside_code [code]: "stays_inside es \<longleftrightarrow> stays_from 0 es"
  by (simp add: stays_inside_def stays_from_iff)

lemma walk_depth_append: "walk_depth d (xs @ ys) = walk_depth (walk_depth d xs) ys"
  by (induction xs arbitrary: d) auto

lemma walk_depth_shift: "walk_depth (d + k) es = walk_depth d es + k"
proof (induction es arbitrary: d)
  case (Cons e es)
  have "walk_depth (d + k - 1) es = walk_depth (d - 1) es + k"
    "walk_depth (d + k + 1) es = walk_depth (d + 1) es + k"
    using Cons.IH [of "d - 1"] Cons.IH [of "d + 1"] by (simp_all add: algebra_simps)
  with Cons.IH [of d] show ?case by simp
qed simp

lemma stays_inside_snoc:
  "stays_inside (es @ [e]) \<longleftrightarrow> stays_inside es \<and> 0 \<le> walk_depth 0 (es @ [e])"
proof -
  have "walk_depth 0 (take n (es @ [e])) =
      (if n \<le> length es then walk_depth 0 (take n es) else walk_depth 0 (es @ [e]))" for n
    by auto
  moreover have "walk_depth 0 (take n es) = walk_depth 0 (take (length es) es)" if "length es < n" for n
    using that by simp
  ultimately show ?thesis
    unfolding stays_inside_def by (smt (verit) linorder_not_le lessI order_refl nle_le)
qed

text \<open>
  The stack records the walk: the number of \<open>..\<close> at its bottom is how far the walk went below
  its start, the names above them are how far it is above that lowest point.
\<close>

lemma clean_walk:
  "\<exists>ns k. foldl (clean_step False) [] es = ns @ replicate k ''..''
      \<and> list_all (\<lambda>e. e \<notin> {'''', ''.'', ''..''}) ns
      \<and> walk_depth 0 es = int (length ns) - int k
      \<and> (k = 0 \<longleftrightarrow> stays_inside es)"
proof (induction es rule: rev_induct)
  case Nil
  show ?case by (intro exI [of _ "[]"] exI [of _ 0]) (simp add: stays_inside_def)
next
  case (snoc e es)
  then obtain ns k where st: "foldl (clean_step False) [] es = ns @ replicate k ''..''"
    and ns: "list_all (\<lambda>e. e \<notin> {'''', ''.'', ''..''}) ns"
    and d: "walk_depth 0 es = int (length ns) - int k" and k: "k = 0 \<longleftrightarrow> stays_inside es"
    by blast
  note all = stays_inside_snoc [of es e]
  consider "e = '''' \<or> e = ''.''" | "e = ''..''" | "e \<notin> {'''', ''.'', ''..''}" by blast
  then show ?case
  proof cases
    case 1
    then have "foldl (clean_step False) [] (es @ [e]) = ns @ replicate k ''..''"
      by (simp only: foldl_append st foldl.simps) (simp add: clean_step_def)
    moreover from 1 have w: "walk_depth 0 (es @ [e]) = walk_depth 0 es"
      by (auto simp: walk_depth_append)
    moreover have "stays_inside es \<Longrightarrow> 0 \<le> walk_depth 0 es"
      unfolding stays_inside_def by (drule spec [of _ "length es"]) simp
    ultimately show ?thesis
      using ns d k all by (intro exI [of _ ns] exI [of _ k]) auto
  next
    case 2
    show ?thesis
    proof (cases ns)
      case Nil
      have "foldl (clean_step False) [] (es @ [e]) = [] @ replicate (Suc k) ''..''"
        using 2 st Nil by (cases k) (simp_all add: clean_step_def)
      moreover have "walk_depth 0 (es @ [e]) = - int (Suc k)"
        using 2 d Nil by (simp add: walk_depth_append)
      ultimately show ?thesis
        using all by (intro exI [of _ "[]"] exI [of _ "Suc k"]) simp
    next
      case (Cons n ns')
      with ns have "n \<noteq> ''..''" by simp
      then have "foldl (clean_step False) [] (es @ [e]) = ns' @ replicate k ''..''"
        using 2 st Cons by (simp add: clean_step_def)
      moreover have "walk_depth 0 (es @ [e]) = int (length ns') - int k"
        using 2 d Cons by (simp add: walk_depth_append)
      ultimately show ?thesis
        using all k ns Cons by (intro exI [of _ ns'] exI [of _ k]) auto
    qed
  next
    case 3
    then have "foldl (clean_step False) [] (es @ [e]) = (e # ns) @ replicate k ''..''"
      using st by (simp add: clean_step_def)
    moreover have "walk_depth 0 (es @ [e]) = int (length (e # ns)) - int k"
      using 3 d by (simp add: walk_depth_append)
    ultimately show ?thesis
      using all k ns 3 d by (intro exI [of _ "e # ns"] exI [of _ k]) auto
  qed
qed

text \<open>The elements \<open>Clean\<close> keeps are elements of the path or \<open>..\<close>.\<close>

lemma clean_step_set:
  "set (foldl (clean_step False) st es) \<subseteq> set st \<union> set es \<union> {''..''}"
proof (induction es arbitrary: st)
  case (Cons e es)
  have "set (clean_step False st e) \<subseteq> set st \<union> {e, ''..''}"
    by (cases st) (auto simp: clean_step_def)
  with Cons.IH [of "clean_step False st e"] show ?case by fastforce
qed auto

text \<open>What a path joined from non-empty elements says of its elements.\<close>

lemma join_words:
  assumes "\<forall>w \<in> set ws. CHR ''/'' \<notin> set w" "\<forall>w \<in> set ws. w \<noteq> ''''"
  shows "join ws ''/'' = '''' \<longleftrightarrow> ws = []"
    and "has_prefix (join ws ''/'') ''../'' \<or> join ws ''/'' = ''..'' \<longleftrightarrow> ws \<noteq> [] \<and> hd ws = ''..''"
    and "join ws ''/'' = ''.'' \<longleftrightarrow> ws = [''.'']"
proof -
  have split_out: "split (join ws ''/'') (CHR ''/'') = ws" if "ws \<noteq> []"
    using split_join [OF that assms(1)] by simp
  show empty: "join ws ''/'' = '''' \<longleftrightarrow> ws = []"
    using split_out assms(2) by (cases "ws = []") fastforce+
  show "has_prefix (join ws ''/'') ''../'' \<or> join ws ''/'' = ''..'' \<longleftrightarrow> ws \<noteq> [] \<and> hd ws = ''..''"
  proof
    assume *: "has_prefix (join ws ''/'') ''../'' \<or> join ws ''/'' = ''..''"
    then have "ws \<noteq> []" using empty by (auto simp: has_prefix_def)
    moreover from * split_out [OF this] have "hd ws = ''..''"
      using split_append_sep [of "CHR ''/''" "''..''"] split_word [of "CHR ''/''" "''..''"]
      by (fastforce simp: has_prefix_iff)
    ultimately show "ws \<noteq> [] \<and> hd ws = ''..''" ..
  next
    assume "ws \<noteq> [] \<and> hd ws = ''..''"
    then obtain ws' where "ws = ''..'' # ws'" by (metis list.exhaust_sel)
    then show "has_prefix (join ws ''/'') ''../'' \<or> join ws ''/'' = ''..''"
      by (cases ws') (auto simp: has_prefix_def)
  qed
  show "join ws ''/'' = ''.'' \<longleftrightarrow> ws = [''.'']"
  proof
    assume *: "join ws ''/'' = ''.''"
    then have "ws \<noteq> []" using empty by auto
    from split_out [OF this] * show "ws = [''.'']" by simp
  qed simp
qed

text \<open>
  What the cleaned form of a relative path says of the walk: it escapes exactly when it is
  \<open>..\<close> or begins with \<open>../\<close>, and it is \<open>.\<close> exactly when the walk ends where it began without
  having left.
\<close>

lemma path_clean_walk:
  assumes "p \<noteq> ''''" "\<not> is_abs p"
  defines "es \<equiv> split p (CHR ''/'')"
  shows "path_clean p = ''..'' \<or> has_prefix (path_clean p) ''../'' \<longleftrightarrow> \<not> stays_inside es"
    and "path_clean p = ''.'' \<longleftrightarrow> stays_inside es \<and> walk_depth 0 es = 0"
proof -
  obtain ns k where st: "foldl (clean_step False) [] es = ns @ replicate k ''..''"
    and ns: "list_all (\<lambda>e. e \<notin> {'''', ''.'', ''..''}) ns"
    and d: "walk_depth 0 es = int (length ns) - int k" and k: "k = 0 \<longleftrightarrow> stays_inside es"
    using clean_walk by blast
  define ws where "ws = replicate k ''..'' @ rev ns"
  define out where "out = join ws ''/''"
  have clean: "path_clean p = (if out = '''' then ''.'' else out)"
    using assms(1,2) st by (simp add: path_clean_def Let_def clean_elems_def es_def out_def ws_def)
  have nosep: "\<forall>w \<in> set ws. CHR ''/'' \<notin> set w"
    using clean_step_set [of "[]" es] set_split [of "CHR ''/''" p] st
    by (auto simp: ws_def es_def)
  have "\<forall>w \<in> set ws. w \<noteq> ''''"
  proof
    fix w assume "w \<in> set ws"
    then have "w = ''..'' \<or> w \<in> set ns" unfolding ws_def set_append set_rev by (metis Un_iff in_set_replicate)
    moreover from ns have "w \<in> set ns \<Longrightarrow> w \<noteq> ''''" unfolding list_all_iff by blast
    ultimately show "w \<noteq> ''''" by (metis list.distinct(1))
  qed
  note words = join_words [OF nosep this, folded out_def]
  have dots: "ws \<noteq> [] \<Longrightarrow> hd ws = ''..'' \<longleftrightarrow> 0 < k"
    using ns by (cases k; cases "rev ns") (auto simp: ws_def list_all_iff rev_eq_Cons_iff)
  show "path_clean p = ''..'' \<or> has_prefix (path_clean p) ''../'' \<longleftrightarrow> \<not> stays_inside es"
  proof (cases "ws = []")
    case True
    with words(1) clean have "path_clean p = ''.''" by simp
    moreover from True k have "stays_inside es" by (simp add: ws_def)
    ultimately show ?thesis by (simp add: has_prefix_def)
  next
    case False
    with words(1) clean have "path_clean p = out" by simp
    with words(2) dots [OF False] False k show ?thesis by auto
  qed
  have not_dot: "ws \<noteq> [''.'']"
  proof
    assume "ws = [''.'']"
    with ns show False by (cases k) (auto simp: ws_def list_all_iff)
  qed
  with words(3) have dotless: "out \<noteq> ''.''" by simp
  show "path_clean p = ''.'' \<longleftrightarrow> stays_inside es \<and> walk_depth 0 es = 0"
    using clean words(1) dotless d k by (auto simp: ws_def)
qed

section \<open>The address an HTTP transport dials\<close>

text \<open>
  \<open>url.URL.Hostname\<close> and \<open>Port\<close> of a URL's host part, and the address \<open>http.Transport\<close>
  dials for it: the port of the URL, or the scheme's (ASCII hosts, which need no IDNA mapping).
  None stands for a scheme the transport refuses.
\<close>

definition url_split :: "string \<Rightarrow> string \<times> string" where
  "url_split hp =
     (let (host, port) =
        (case last_cut hp (CHR '':'') of
           Some (a, b) \<Rightarrow> if list_all is_digit b then (a, b) else (hp, '''')
         | None \<Rightarrow> (hp, ''''))
      in (if has_prefix host ''['' \<and> has_suffix host '']'' then butlast (tl host) else host, port))"

definition scheme_port :: "string \<Rightarrow> string option" where
  "scheme_port s = (if s = ''http'' then Some ''80'' else if s = ''https'' then Some ''443'' else None)"

definition canonical_addr :: "string \<Rightarrow> string \<Rightarrow> string option" where
  "canonical_addr scheme hp =
     (case scheme_port scheme of
        None \<Rightarrow> None
      | Some d \<Rightarrow> (case url_split hp of (h, p) \<Rightarrow> Some (join_host_port h (if p = '''' then d else p))))"

lemma plain_no_bracket: "plain_host h \<Longrightarrow> \<not> has_prefix h ''[''"
  by (cases h) (auto simp: plain_host_def has_prefix_def)

lemma canonical_addr_port:
  assumes "plain_host h" "list_all is_digit p" "p \<noteq> ''''" "scheme_port s = Some d"
  shows "canonical_addr s (h @ CHR '':'' # p) = Some (h @ CHR '':'' # p)"
proof -
  have "CHR '':'' \<notin> set p" using assms(2) by (auto simp: list_all_iff char_class_defs)
  then have "last_cut (h @ CHR '':'' # p) (CHR '':'') = Some (h, p)" by (simp add: last_cut_Some)
  with assms plain_no_bracket show ?thesis
    by (simp add: canonical_addr_def url_split_def join_host_port_plain)
qed

lemma canonical_addr_noport:
  assumes "plain_host h" "scheme_port s = Some d"
  shows "canonical_addr s h = Some (h @ CHR '':'' # d)"
proof -
  have "last_cut h (CHR '':'') = None" using assms(1) by (auto simp: last_cut_None plain_host_def)
  with assms plain_no_bracket show ?thesis
    by (simp add: canonical_addr_def url_split_def join_host_port_plain)
qed

end
