(* ===== verification/Manifest.thy ===== *)
theory Manifest
  imports GoRegex GoNet
begin

text \<open>
  The run contract (\<open>internal/runcontract/manifest.go\<close>): what an Owner declares about a Project,
  and \<open>Validate\<close>, which reports every problem at once. An error is a value carrying the arguments
  of the message the code formats; no error is the empty list.
\<close>

section \<open>The declared data\<close>

definition role_ui :: string where
  "role_ui = ''ui''"

definition role_api :: string where
  "role_api = ''api''"

definition env_platform :: string where
  "env_platform = ''platform''"

definition env_static :: string where
  "env_static = ''static''"

definition env_owner :: string where
  "env_owner = ''owner''"

lemmas role_defs = role_ui_def role_api_def
lemmas env_source_defs = env_platform_def env_static_def env_owner_def

record egress_rule =
  eg_host :: string
  eg_port :: int

record service =
  svc_name :: string
  svc_repo :: string
  svc_dockerfile :: string
  svc_port :: int
  svc_role :: string
  svc_prefix :: string
  svc_healthcheck :: "string list"

record db_decl =
  db_engine :: string
  db_version :: string

record env_var =
  ev_name :: string
  ev_source :: string
  ev_value :: string
  ev_secret :: bool

record seed =
  seed_service :: string
  seed_command :: "string list"

record manifest =
  m_services :: "service list"
  m_db :: "db_decl option"
  m_env :: "env_var list"
  m_seed :: "seed option"
  m_egress :: "egress_rule list"

section \<open>Names, hosts and paths the contract admits\<close>

definition lower_alnum :: "char \<Rightarrow> bool" where
  "lower_alnum c \<longleftrightarrow> is_lower c \<or> is_digit c"

definition alnum :: "char \<Rightarrow> bool" where
  "alnum c \<longleftrightarrow> is_lower c \<or> is_upper c \<or> is_digit c"

text \<open>\<open>^[a-z0-9][a-z0-9-]*$\<close>, the expression of \<open>serviceNameRE\<close> and of \<open>safeNameRE\<close>.\<close>

definition service_name_re :: rx where
  "service_name_re = RSeq (RCls lower_alnum) (RStar (RCls (\<lambda>c. lower_alnum c \<or> c = CHR ''-'')))"

text \<open>\<open>^[a-zA-Z0-9]([a-zA-Z0-9.-]*[a-zA-Z0-9])?$\<close>.\<close>

definition egress_host_re :: rx where
  "egress_host_re =
     RSeq (RCls alnum)
       (ROpt (RSeq (RStar (RCls (\<lambda>c. alnum c \<or> c = CHR ''.'' \<or> c = CHR ''-''))) (RCls alnum)))"

definition db_service_name :: string where
  "db_service_name = ''db''"

definition seed_service_name :: string where
  "seed_service_name = ''seed''"

definition egress_service_name :: string where
  "egress_service_name = ''egress''"

lemmas platform_name_defs = db_service_name_def seed_service_name_def egress_service_name_def

definition reserved_service_names :: "string set" where
  "reserved_service_names = {db_service_name, seed_service_name, egress_service_name}"

definition reserved_env_names :: "string set" where
  "reserved_env_names = {''http_proxy'', ''https_proxy'', ''no_proxy''}"

definition supported_db_engines :: "string set" where
  "supported_db_engines = {''postgres''}"

definition safe_context_path :: "string \<Rightarrow> bool" where
  "safe_context_path p =
     (if p = '''' \<or> CHR 0x5C \<in> set p \<or> is_abs p then False
      else
        let c = path_clean p
        in if c = ''.'' \<or> c = ''..'' then False
           else if has_prefix c ''../'' then False
           else True)"

section \<open>Validation\<close>

text \<open>How a message names the offending entry: \<open>service[i]\<close>, or \<open>service "name"\<close> when it has
  a name (and the same for env and egress entries).\<close>

datatype loc = LIdx nat | LName string

definition loc_of :: "nat \<Rightarrow> string \<Rightarrow> loc" where
  "loc_of i name = (if name \<noteq> '''' then LName name else LIdx i)"

datatype verr =
    NameRequired loc | DuplicateName loc | ReservedName loc | BadName loc
  | RepoRequired loc
  | DockerfileRequired loc | DockerfileUnsafe loc string
  | ServicePortRange loc int
  | PrefixRequired loc | PrefixNoSlash loc string | PrefixCollides loc string string
  | BadRole loc string
  | HealthcheckEmpty loc nat
  | NoServices | UICount nat
  | DBEngineRequired | DBEngineUnsupported string | DBVersionRequired
  | EnvNameRequired loc | EnvNameReserved loc | EnvSourceBad loc string
  | EgressHostRequired loc | EgressHostBad loc | EgressPortRange loc int
  | SeedServiceRequired | SeedServiceUnknown string | SeedCommandRequired | SeedNeedsDB

record vstate =
  vs_errs :: "verr list"
  vs_ui :: nat
  vs_seen :: "string set"
  vs_prefixes :: "string \<rightharpoonup> string"

definition port_ok :: "int \<Rightarrow> bool" where
  "port_ok p \<longleftrightarrow> \<not> (p < 1 \<or> p > 65535)"

definition name_errs :: "loc \<Rightarrow> service \<Rightarrow> string set \<Rightarrow> verr list" where
  "name_errs w s seen =
     (if svc_name s = '''' then [NameRequired w]
      else if svc_name s \<in> seen then [DuplicateName w]
      else if svc_name s \<in> reserved_service_names then [ReservedName w]
      else if \<not> match_string service_name_re (svc_name s) then [BadName w]
      else [])"

definition source_errs :: "loc \<Rightarrow> service \<Rightarrow> verr list" where
  "source_errs w s =
     (if svc_repo s = '''' then [RepoRequired w] else []) @
     (if svc_dockerfile s = '''' then [DockerfileRequired w]
      else if \<not> safe_context_path (svc_dockerfile s) then [DockerfileUnsafe w (svc_dockerfile s)]
      else []) @
     (if \<not> port_ok (svc_port s) then [ServicePortRange w (svc_port s)] else [])"

text \<open>The role switch: it counts UI services and records API prefixes.\<close>

definition role_step :: "loc \<Rightarrow> service \<Rightarrow> vstate \<Rightarrow> vstate" where
  "role_step w s st =
     (if svc_role s = role_ui then st\<lparr>vs_ui := vs_ui st + 1\<rparr>
      else if svc_role s = role_api then
        (let prefix = svc_prefix s
         in if prefix = '''' then st\<lparr>vs_errs := vs_errs st @ [PrefixRequired w]\<rparr>
            else if \<not> has_prefix prefix ''/'' then
              st\<lparr>vs_errs := vs_errs st @ [PrefixNoSlash w prefix]\<rparr>
            else (case vs_prefixes st prefix of
                    Some other \<Rightarrow> st\<lparr>vs_errs := vs_errs st @ [PrefixCollides w prefix other]\<rparr>
                  | None \<Rightarrow> st\<lparr>vs_prefixes := (vs_prefixes st)(prefix \<mapsto> svc_name s)\<rparr>))
      else st\<lparr>vs_errs := vs_errs st @ [BadRole w (svc_role s)]\<rparr>)"

fun healthcheck_errs :: "loc \<Rightarrow> nat \<Rightarrow> string list \<Rightarrow> verr list" where
  "healthcheck_errs w j [] = []"
| "healthcheck_errs w j (arg # args) =
     (if arg = '''' then [HealthcheckEmpty w j] else []) @ healthcheck_errs w (Suc j) args"

definition validate_service :: "nat \<Rightarrow> service \<Rightarrow> vstate \<Rightarrow> vstate" where
  "validate_service i s st =
     (let w = loc_of i (svc_name s);
          st1 = st\<lparr>vs_errs := vs_errs st @ name_errs w s (vs_seen st),
                   vs_seen := insert (svc_name s) (vs_seen st)\<rparr>;
          st2 = st1\<lparr>vs_errs := vs_errs st1 @ source_errs w s\<rparr>;
          st3 = role_step w s st2
      in st3\<lparr>vs_errs := vs_errs st3 @ healthcheck_errs w 0 (svc_healthcheck s)\<rparr>)"

fun validate_services :: "nat \<Rightarrow> service list \<Rightarrow> vstate \<Rightarrow> vstate" where
  "validate_services i [] st = st"
| "validate_services i (s # ss) st = validate_services (Suc i) ss (validate_service i s st)"

definition db_errs :: "db_decl option \<Rightarrow> verr list" where
  "db_errs d =
     (case d of
        None \<Rightarrow> []
      | Some db \<Rightarrow>
          (if db_engine db = '''' then [DBEngineRequired]
           else if db_engine db \<notin> supported_db_engines then [DBEngineUnsupported (db_engine db)]
           else []) @
          (if db_version db = '''' then [DBVersionRequired] else []))"

fun env_errs :: "unicode \<Rightarrow> nat \<Rightarrow> env_var list \<Rightarrow> verr list" where
  "env_errs u i [] = []"
| "env_errs u i (e # es) =
     (let w = loc_of i (ev_name e)
      in (if ev_name e = '''' then [EnvNameRequired w]
          else if to_lower u (ev_name e) \<in> reserved_env_names then [EnvNameReserved w]
          else []) @
         (if ev_source e \<notin> {env_platform, env_static, env_owner} then [EnvSourceBad w (ev_source e)]
          else [])) @
     env_errs u (Suc i) es"

fun egress_errs :: "nat \<Rightarrow> egress_rule list \<Rightarrow> verr list" where
  "egress_errs i [] = []"
| "egress_errs i (r # rs) =
     (let w = loc_of i (eg_host r)
      in (if eg_host r = '''' then [EgressHostRequired w]
          else if \<not> match_string egress_host_re (eg_host r) then [EgressHostBad w]
          else []) @
         (if \<not> port_ok (eg_port r) then [EgressPortRange w (eg_port r)] else [])) @
     egress_errs (Suc i) rs"

definition seed_errs :: "seed option \<Rightarrow> string set \<Rightarrow> db_decl option \<Rightarrow> verr list" where
  "seed_errs sd seen db =
     (case sd of
        None \<Rightarrow> []
      | Some s \<Rightarrow>
          (if seed_service s = '''' then [SeedServiceRequired]
           else if seed_service s \<notin> seen then [SeedServiceUnknown (seed_service s)]
           else []) @
          (if seed_command s = [] then [SeedCommandRequired] else []) @
          (if db = None then [SeedNeedsDB] else []))"

definition validate :: "unicode \<Rightarrow> manifest \<Rightarrow> verr list" where
  "validate u m =
     (let st = validate_services 0 (m_services m)
                 \<lparr>vs_errs = [], vs_ui = 0, vs_seen = {}, vs_prefixes = Map.empty\<rparr>
      in vs_errs st @
         (if m_services m = [] then [NoServices]
          else if vs_ui st \<noteq> 1 then [UICount (vs_ui st)] else []) @
         db_errs (m_db m) @
         env_errs u 0 (m_env m) @
         egress_errs 0 (m_egress m) @
         seed_errs (m_seed m) (vs_seen st) (m_db m))"

section \<open>Correctness of the checks\<close>

text \<open>What the expressions admit.\<close>

definition service_name_ok :: "string \<Rightarrow> bool" where
  "service_name_ok s \<longleftrightarrow> s \<noteq> '''' \<and> lower_alnum (hd s) \<and> list_all (\<lambda>c. lower_alnum c \<or> c = CHR ''-'') s"

definition egress_host_ok :: "string \<Rightarrow> bool" where
  "egress_host_ok h \<longleftrightarrow>
     h \<noteq> '''' \<and> alnum (hd h) \<and> alnum (last h)
       \<and> list_all (\<lambda>c. alnum c \<or> c = CHR ''.'' \<or> c = CHR ''-'') h"

lemma service_name_re_iff [rx_simps]: "match_string service_name_re s \<longleftrightarrow> service_name_ok s"
  by (cases s) (auto simp: match_string_iff service_name_re_def service_name_ok_def)

lemma egress_host_re_iff [rx_simps]: "match_string egress_host_re h \<longleftrightarrow> egress_host_ok h"
proof (cases h)
  case (Cons c t)
  have "in_rx (RSeq (RStar (RCls (\<lambda>c. alnum c \<or> c = CHR ''.'' \<or> c = CHR ''-''))) (RCls alnum)) t \<longleftrightarrow>
      t \<noteq> [] \<and> alnum (last t) \<and> list_all (\<lambda>c. alnum c \<or> c = CHR ''.'' \<or> c = CHR ''-'') t"
    by (cases t rule: rev_cases) (auto simp: in_rx_seq)
  with Cons show ?thesis
    by (auto simp: match_string_iff egress_host_re_def egress_host_ok_def)
qed (simp add: match_string_iff egress_host_re_def egress_host_ok_def)

text \<open>
  A Dockerfile path is accepted exactly when it is relative, has no backslash, and the walk it
  describes neither leaves the directory it starts in nor ends at it.
\<close>

lemma safe_context_path_iff:
  "safe_context_path p \<longleftrightarrow>
     p \<noteq> '''' \<and> CHR 0x5C \<notin> set p \<and> \<not> is_abs p
       \<and> stays_inside (split p (CHR ''/'')) \<and> 0 < walk_depth 0 (split p (CHR ''/''))"
proof (cases "p = '''' \<or> CHR 0x5C \<in> set p \<or> is_abs p")
  case False
  let ?es = "split p (CHR ''/'')"
  have "stays_inside ?es \<Longrightarrow> 0 \<le> walk_depth 0 ?es"
    unfolding stays_inside_def by (drule spec [of _ "length ?es"]) simp
  moreover from False have "safe_context_path p \<longleftrightarrow>
      path_clean p \<noteq> ''.'' \<and> \<not> (path_clean p = ''..'' \<or> has_prefix (path_clean p) ''../'')"
    by (auto simp: safe_context_path_def Let_def)
  ultimately show ?thesis using False path_clean_walk [of p] by auto
qed (auto simp: safe_context_path_def)

text \<open>The contract, stated without the order in which \<open>Validate\<close> looks at it.\<close>

definition service_ok :: "service \<Rightarrow> bool" where
  "service_ok s \<longleftrightarrow>
     service_name_ok (svc_name s) \<and> svc_name s \<notin> reserved_service_names \<and>
     svc_repo s \<noteq> '''' \<and> safe_context_path (svc_dockerfile s) \<and>
     1 \<le> svc_port s \<and> svc_port s \<le> 65535 \<and>
     (svc_role s = role_ui \<or> svc_role s = role_api \<and> has_prefix (svc_prefix s) ''/'') \<and>
     '''' \<notin> set (svc_healthcheck s)"

definition api_prefixes :: "service list \<Rightarrow> string list" where
  "api_prefixes ss = map svc_prefix (filter (\<lambda>s. svc_role s = role_api) ss)"

definition db_ok :: "db_decl option \<Rightarrow> bool" where
  "db_ok d \<longleftrightarrow> (case d of None \<Rightarrow> True | Some db \<Rightarrow> db_engine db = ''postgres'' \<and> db_version db \<noteq> '''')"

definition env_var_ok :: "unicode \<Rightarrow> env_var \<Rightarrow> bool" where
  "env_var_ok u e \<longleftrightarrow>
     ev_name e \<noteq> '''' \<and> to_lower u (ev_name e) \<notin> reserved_env_names \<and>
     ev_source e \<in> {env_platform, env_static, env_owner}"

definition egress_rule_ok :: "egress_rule \<Rightarrow> bool" where
  "egress_rule_ok r \<longleftrightarrow> egress_host_ok (eg_host r) \<and> 1 \<le> eg_port r \<and> eg_port r \<le> 65535"

definition seed_ok :: "manifest \<Rightarrow> bool" where
  "seed_ok m \<longleftrightarrow>
     (case m_seed m of None \<Rightarrow> True
      | Some s \<Rightarrow> seed_service s \<in> svc_name ` set (m_services m) \<and> seed_command s \<noteq> [] \<and> m_db m \<noteq> None)"

definition valid_manifest :: "unicode \<Rightarrow> manifest \<Rightarrow> bool" where
  "valid_manifest u m \<longleftrightarrow>
     m_services m \<noteq> [] \<and> list_all service_ok (m_services m) \<and>
     distinct (map svc_name (m_services m)) \<and>
     length (filter (\<lambda>s. svc_role s = role_ui) (m_services m)) = 1 \<and>
     distinct (api_prefixes (m_services m)) \<and>
     db_ok (m_db m) \<and> list_all (env_var_ok u) (m_env m) \<and>
     list_all egress_rule_ok (m_egress m) \<and> seed_ok m"

lemma healthcheck_errs_iff: "healthcheck_errs w j args = [] \<longleftrightarrow> '''' \<notin> set args"
  by (induction w j args rule: healthcheck_errs.induct) auto

lemma source_errs_iff:
  "source_errs w s = [] \<longleftrightarrow>
     svc_repo s \<noteq> '''' \<and> safe_context_path (svc_dockerfile s) \<and> 1 \<le> svc_port s \<and> svc_port s \<le> 65535"
  by (auto simp: source_errs_def port_ok_def safe_context_path_iff)

lemma name_errs_iff:
  "name_errs w s seen = [] \<longleftrightarrow>
     svc_name s \<notin> seen \<and> svc_name s \<notin> reserved_service_names \<and> service_name_ok (svc_name s)"
  by (auto simp: name_errs_def rx_simps service_name_ok_def)

lemma role_neq [simp]: "role_ui \<noteq> role_api" "role_api \<noteq> role_ui"
  by (simp_all add: role_defs)

text \<open>One service, and the run over all of them, on an arbitrary accumulator.\<close>

definition prefix_free :: "service \<Rightarrow> (string \<rightharpoonup> string) \<Rightarrow> bool" where
  "prefix_free s ps \<longleftrightarrow> (svc_role s = role_api \<longrightarrow> svc_prefix s \<notin> dom ps)"

lemma validate_service_fields:
  "vs_ui (validate_service i s st) = vs_ui st + (if svc_role s = role_ui then 1 else 0)"
  "vs_seen (validate_service i s st) = insert (svc_name s) (vs_seen st)"
  by (auto simp: validate_service_def role_step_def Let_def split: option.splits)

lemma validate_service_errs:
  "vs_errs (validate_service i s st) = [] \<longleftrightarrow>
     vs_errs st = [] \<and> service_ok s \<and> svc_name s \<notin> vs_seen st \<and> prefix_free s (vs_prefixes st)"
  (is "?l \<longleftrightarrow> ?r")
proof -
  let ?w = "loc_of i (svc_name s)"
  have "?l \<longleftrightarrow> vs_errs st = [] \<and> name_errs ?w s (vs_seen st) = [] \<and> source_errs ?w s = []
      \<and> healthcheck_errs ?w 0 (svc_healthcheck s) = []
      \<and> (svc_role s = role_ui \<or> svc_role s = role_api \<and> has_prefix (svc_prefix s) ''/'')
      \<and> prefix_free s (vs_prefixes st)"
    by (auto simp: validate_service_def role_step_def Let_def prefix_free_def has_prefix_def
        split: option.splits)
  also have "\<dots> \<longleftrightarrow> ?r"
    by (auto simp: name_errs_iff source_errs_iff healthcheck_errs_iff service_ok_def)
  finally show ?thesis .
qed

lemma validate_service_prefixes:
  assumes "vs_errs (validate_service i s st) = []"
  shows "dom (vs_prefixes (validate_service i s st)) =
    dom (vs_prefixes st) \<union> (if svc_role s = role_api then {svc_prefix s} else {})"
  using assms
  by (auto simp: validate_service_def role_step_def Let_def split: option.splits if_splits)

lemma validate_services_fields:
  "vs_ui (validate_services i ss st) = vs_ui st + length (filter (\<lambda>s. svc_role s = role_ui) ss)"
  "vs_seen (validate_services i ss st) = vs_seen st \<union> svc_name ` set ss"
  by (induction i ss st rule: validate_services.induct) (auto simp: validate_service_fields)

lemma validate_services_errs_mono:
  "vs_errs (validate_services i ss st) = [] \<Longrightarrow> vs_errs st = []"
  by (induction i ss st rule: validate_services.induct) (auto simp: validate_service_errs)

lemma validate_services_errs:
  "vs_errs (validate_services i ss st) = [] \<longleftrightarrow>
     vs_errs st = [] \<and> list_all service_ok ss \<and>
     distinct (map svc_name ss) \<and> svc_name ` set ss \<inter> vs_seen st = {} \<and>
     distinct (api_prefixes ss) \<and> set (api_prefixes ss) \<inter> dom (vs_prefixes st) = {}"
proof (induction i ss st rule: validate_services.induct)
  case (2 i s ss st)
  show ?case
  proof (cases "vs_errs (validate_service i s st) = []")
    case True
    from validate_service_prefixes [OF True] True show ?thesis
      unfolding validate_services.simps "2.IH"
      by (auto simp: validate_service_errs validate_service_fields api_prefixes_def prefix_free_def)
  next
    case False
    then show ?thesis
      using validate_services_errs_mono [of "Suc i" ss "validate_service i s st"]
      by (auto simp: validate_service_errs api_prefixes_def prefix_free_def)
  qed
qed (simp add: api_prefixes_def)

lemma db_errs_iff: "db_errs d = [] \<longleftrightarrow> db_ok d"
  by (auto simp: db_errs_def db_ok_def supported_db_engines_def split: option.splits)

lemma env_errs_iff: "env_errs u i es = [] \<longleftrightarrow> list_all (env_var_ok u) es"
  by (induction u i es rule: env_errs.induct) (auto simp: env_var_ok_def Let_def)

lemma egress_errs_iff: "egress_errs i rs = [] \<longleftrightarrow> list_all egress_rule_ok rs"
  by (induction i rs rule: egress_errs.induct)
    (auto simp: egress_rule_ok_def port_ok_def Let_def rx_simps egress_host_ok_def)

lemma seed_errs_iff:
  assumes "'''' \<notin> svc_name ` set (m_services m)"
  shows "seed_errs (m_seed m) (svc_name ` set (m_services m)) (m_db m) = [] \<longleftrightarrow> seed_ok m"
  using assms by (auto simp: seed_errs_def seed_ok_def split: option.splits)

lemma validate_nil_iff: "validate u m = [] \<longleftrightarrow> valid_manifest u m"
proof -
  let ?st = "validate_services 0 (m_services m)
     \<lparr>vs_errs = [], vs_ui = 0, vs_seen = {}, vs_prefixes = Map.empty\<rparr>"
  have noempty: "list_all service_ok (m_services m) \<Longrightarrow> '''' \<notin> svc_name ` set (m_services m)"
    by (auto simp: list_all_iff service_ok_def service_name_ok_def)
  have "validate u m = [] \<longleftrightarrow> vs_errs ?st = [] \<and> m_services m \<noteq> [] \<and> vs_ui ?st = 1 \<and>
      db_errs (m_db m) = [] \<and> env_errs u 0 (m_env m) = [] \<and> egress_errs 0 (m_egress m) = [] \<and>
      seed_errs (m_seed m) (vs_seen ?st) (m_db m) = []"
    by (auto simp: validate_def Let_def)
  also have "\<dots> \<longleftrightarrow> valid_manifest u m"
    using seed_errs_iff [of m] noempty
    by (auto simp: validate_services_errs validate_services_fields db_errs_iff env_errs_iff
        egress_errs_iff valid_manifest_def)
  finally show ?thesis .
qed

section \<open>The fixture's run contract\<close>

text \<open>\<open>internal/fixture\<close> declares one Project in the code: a UI, an API backed by a fresh
  database, and a seed. It satisfies the contract.\<close>

definition fixture_dockerfile :: string where
  "fixture_dockerfile = ''Dockerfile''"

definition fixture_manifest :: manifest where
  "fixture_manifest =
     \<lparr>m_services =
        [\<lparr>svc_name = ''web'', svc_repo = ''internal/fixture/web'', svc_dockerfile = fixture_dockerfile,
          svc_port = 8080, svc_role = role_ui, svc_prefix = '''',
          svc_healthcheck = [''wget'', ''-q'', ''-O'', ''/dev/null'', ''http://127.0.0.1:8080/'']\<rparr>,
         \<lparr>svc_name = ''api'', svc_repo = ''internal/fixture/api'', svc_dockerfile = fixture_dockerfile,
          svc_port = 8080, svc_role = role_api, svc_prefix = ''/api'',
          svc_healthcheck = [''/api'', ''-health'']\<rparr>],
      m_db = Some \<lparr>db_engine = ''postgres'', db_version = ''17''\<rparr>,
      m_env = [\<lparr>ev_name = ''DATABASE_URL'', ev_source = env_platform, ev_value = '''', ev_secret = False\<rparr>],
      m_seed = Some \<lparr>seed_service = ''api'', seed_command = [''-seed'']\<rparr>,
      m_egress = []\<rparr>"

lemma fixture_manifest_valid: "validate u fixture_manifest = []"
proof -
  have lower: "to_lower u ''DATABASE_URL'' = ''database_url''"
    by (subst to_lower_ascii)
      (simp_all add: lower_byte_def char_class_defs char_of_eq_iff)
  show ?thesis
    unfolding validate_nil_iff valid_manifest_def
    by (simp add: fixture_manifest_def fixture_dockerfile_def service_ok_def service_name_ok_def
        role_defs platform_name_defs reserved_service_names_def reserved_env_names_def
        api_prefixes_def has_prefix_def db_ok_def env_var_ok_def env_source_defs seed_ok_def lower
        safe_context_path_iff is_abs_def stays_inside_code lower_alnum_def char_class_defs)
qed

section \<open>Properties\<close>

lemma validate_services_append:
  "validate_services i (xs @ ys) st =
     validate_services (i + length xs) ys (validate_services i xs st)"
  by (induction xs arbitrary: i st) auto

lemma validate_service_reports:
  "set (vs_errs (validate_service i s st)) \<supseteq>
     set (vs_errs st) \<union> set (name_errs (loc_of i (svc_name s)) s (vs_seen st))
       \<union> set (source_errs (loc_of i (svc_name s)) s)
       \<union> set (healthcheck_errs (loc_of i (svc_name s)) 0 (svc_healthcheck s))"
  by (auto simp: validate_service_def role_step_def Let_def split: option.splits)

lemma validate_services_errs_grow:
  "set (vs_errs st) \<subseteq> set (vs_errs (validate_services i ss st))"
proof (induction i ss st rule: validate_services.induct)
  case (2 i s ss st)
  then show ?case using validate_service_reports [of st i s] by auto
qed simp

text \<open>C34: \<open>Validate\<close> accepts exactly the well-formed contracts: at least one service, every
  service well-formed, names distinct, exactly one UI service, API mount points distinct, a
  supported database, no environment name the platform owns, egress destinations that are bare
  hosts with a port, and a seed only with a database and a declared service.\<close>

theorem validate_accepts_iff: "validate u m = [] \<longleftrightarrow> valid_manifest u m"
  by (rule validate_nil_iff)

text \<open>\<open>Validate\<close> never stops at the first problem: whatever is wrong with the i-th service
  on its own, and its name clashing with an earlier one, is in the report, whatever else is wrong.\<close>

theorem validate_reports_each_service:
  assumes "i < length (m_services m)"
  shows "let s = m_services m ! i; w = loc_of i (svc_name s)
         in set (name_errs w s (svc_name ` set (take i (m_services m)))) \<union> set (source_errs w s)
              \<union> set (healthcheck_errs w 0 (svc_healthcheck s)) \<subseteq> set (validate u m)"
proof -
  let ?ss = "m_services m" and ?st = "\<lparr>vs_errs = [], vs_ui = 0, vs_seen = {}, vs_prefixes = Map.empty\<rparr>"
  let ?before = "validate_services 0 (take i ?ss) ?st"
  have "?ss = take i ?ss @ ?ss ! i # drop (Suc i) ?ss"
    using assms by (simp add: id_take_nth_drop)
  then have "validate_services 0 ?ss ?st =
      validate_services (Suc i) (drop (Suc i) ?ss) (validate_service i (?ss ! i) ?before)"
    using assms validate_services_append [of 0 "take i ?ss" "?ss ! i # drop (Suc i) ?ss" ?st] by simp
  then have "set (vs_errs (validate_service i (?ss ! i) ?before)) \<subseteq> set (validate u m)"
    using validate_services_errs_grow by (fastforce simp: validate_def Let_def)
  from order_trans [OF validate_service_reports this] show ?thesis
    by (simp only: Let_def validate_services_fields) simp
qed

theorem validate_reports_each_service_witness:
  "let m = fixture_manifest\<lparr>m_services := map (\<lambda>s. s\<lparr>svc_port := 0\<rparr>) (m_services fixture_manifest)\<rparr>
   in ServicePortRange (LName ''api'') 0 \<in> set (validate sample_unicode m)"
  using validate_reports_each_service
    [of 1 "fixture_manifest\<lparr>m_services := map (\<lambda>s. s\<lparr>svc_port := 0\<rparr>) (m_services fixture_manifest)\<rparr>"
      sample_unicode]
  by (simp add: fixture_manifest_def source_errs_def loc_of_def port_ok_def Let_def)

text \<open>The Dockerfile guard accepts exactly the paths that name something strictly inside the
  directory they are relative to: no prefix of the walk leaves it, absolute paths and backslashes
  are refused.\<close>

theorem dockerfile_stays_inside:
  "safe_context_path p \<longleftrightarrow>
     p \<noteq> '''' \<and> CHR 0x5C \<notin> set p \<and> \<not> is_abs p
       \<and> stays_inside (split p (CHR ''/'')) \<and> 0 < walk_depth 0 (split p (CHR ''/''))"
  by (rule safe_context_path_iff)

end
