(* ===== verification/ExecutionPlan.thy ===== *)
theory ExecutionPlan
  imports Manifest
begin

text \<open>
  The locked-down Stack the Runner boots (\<open>internal/runcontract/plan.go\<close>) and its rendering as
  a Compose document (\<open>internal/runcontract/compose.go\<close>). The document is modelled up to the YAML
  encoder: \<open>to_compose\<close> yields the value handed to \<open>yaml.Marshal\<close>. A nil map or slice and an
  empty one are the same here: every consumer looks at the length only. Fields that the code only
  copies and compares with zero (the CPU share, a float64) are rationals.
\<close>

section \<open>The plan\<close>

record network_spec =
  net_name :: string
  net_internal :: bool

record volume_mount =
  vm_source :: string
  vm_target :: string

record resources =
  res_mem :: int
  res_cpus :: rat
  res_pids :: int

record healthcheck =
  hc_test :: "string list"
  hc_interval :: string
  hc_timeout :: string
  hc_retries :: int
  hc_start_period :: string

definition depend_healthy :: string where
  "depend_healthy = ''service_healthy''"

definition depend_completed :: string where
  "depend_completed = ''service_completed_successfully''"

lemmas depend_defs = depend_healthy_def depend_completed_def

record service_spec =
  ss_name :: string
  ss_image :: string
  ss_runtime :: string
  ss_resources :: resources
  ss_networks :: "string list"
  ss_env :: "string \<rightharpoonup> string"
  ss_user :: string
  ss_read_only :: bool
  ss_tmpfs :: "string list"
  ss_volumes :: "volume_mount list"
  ss_cap_drop :: "string list"
  ss_security_opt :: "string list"
  ss_restart :: string
  ss_healthcheck :: "healthcheck option"
  ss_command :: "string list"
  ss_depends :: "string \<rightharpoonup> string"

record plan =
  pl_project :: string
  pl_network :: network_spec
  pl_egress :: "network_spec option"
  pl_volumes :: "string list"
  pl_services :: "service_spec list"

text \<open>\<open>AppServices\<close>: what the platform builds from Owner repositories.\<close>

fun app_services_of :: "service_spec list \<Rightarrow> service_spec list" where
  "app_services_of [] = []"
| "app_services_of (s # ss) =
     (if ss_name s = db_service_name \<or> ss_name s = seed_service_name \<or> ss_name s = egress_service_name
      then app_services_of ss
      else s # app_services_of ss)"

definition app_services :: "plan \<Rightarrow> service_spec list" where
  "app_services p = app_services_of (pl_services p)"

lemma app_services_of_filter:
  "app_services_of ss = filter (\<lambda>s. ss_name s \<notin> reserved_service_names) ss"
  by (induction ss) (auto simp: reserved_service_names_def)

section \<open>The Compose document\<close>

record compose_mount =
  cm_type :: string
  cm_source :: string
  cm_target :: string

record compose_network =
  cn_name :: string
  cn_internal :: bool

record compose_service =
  cs_image :: string
  cs_runtime :: string
  cs_mem_limit :: int
  cs_cpus :: rat
  cs_pids_limit :: int
  cs_read_only :: bool
  cs_tmpfs :: "string list"
  cs_user :: string
  cs_cap_drop :: "string list"
  cs_security_opt :: "string list"
  cs_restart :: string
  cs_environment :: "string \<rightharpoonup> string"
  cs_volumes :: "compose_mount list"
  cs_networks :: "string list"
  cs_depends :: "string \<rightharpoonup> string"
  cs_healthcheck :: "healthcheck option"
  cs_command :: "string list"

record compose_file =
  cf_name :: string
  cf_services :: "string \<rightharpoonup> compose_service"
  cf_networks :: "string \<rightharpoonup> compose_network"
  cf_volumes :: "string \<rightharpoonup> unit"

definition render_mount :: "volume_mount \<Rightarrow> compose_mount" where
  "render_mount v = \<lparr>cm_type = ''volume'', cm_source = vm_source v, cm_target = vm_target v\<rparr>"

definition render_service :: "service_spec \<Rightarrow> compose_service" where
  "render_service s =
     \<lparr>cs_image = ss_image s, cs_runtime = ss_runtime s,
      cs_mem_limit = res_mem (ss_resources s), cs_cpus = res_cpus (ss_resources s),
      cs_pids_limit = res_pids (ss_resources s), cs_read_only = ss_read_only s,
      cs_tmpfs = ss_tmpfs s, cs_user = ss_user s, cs_cap_drop = ss_cap_drop s,
      cs_security_opt = ss_security_opt s, cs_restart = ss_restart s,
      cs_environment = ss_env s, cs_volumes = map render_mount (ss_volumes s),
      cs_networks = ss_networks s, cs_depends = ss_depends s,
      cs_healthcheck = ss_healthcheck s, cs_command = ss_command s\<rparr>"

definition render_network :: "network_spec \<Rightarrow> compose_network" where
  "render_network n = \<lparr>cn_name = net_name n, cn_internal = net_internal n\<rparr>"

text \<open>The loops of \<open>ToCompose\<close> write into Go maps keyed by name: a later entry of the same name
  replaces an earlier one.\<close>

definition to_compose :: "plan \<Rightarrow> compose_file" where
  "to_compose p =
     \<lparr>cf_name = pl_project p,
      cf_services = foldl (\<lambda>f s. f(ss_name s \<mapsto> render_service s)) Map.empty (pl_services p),
      cf_networks =
        (let nets = [net_name (pl_network p) \<mapsto> render_network (pl_network p)]
         in case pl_egress p of None \<Rightarrow> nets
            | Some e \<Rightarrow> nets(net_name e \<mapsto> render_network e)),
      cf_volumes = foldl (\<lambda>f v. f(v \<mapsto> ())) Map.empty (pl_volumes p)\<rparr>"

lemma foldl_upd_other:
  "k \<notin> set (map key xs) \<Longrightarrow> foldl (\<lambda>f x. f(key x \<mapsto> val x)) f0 xs k = f0 k"
  by (induction xs arbitrary: f0) auto

lemma foldl_upd_dom: "dom (foldl (\<lambda>f x. f(key x \<mapsto> val x)) f0 xs) = dom f0 \<union> key ` set xs"
  by (induction xs arbitrary: f0) auto

lemma foldl_upd_distinct:
  assumes "distinct (map key xs)" "x \<in> set xs"
  shows "foldl (\<lambda>f x. f(key x \<mapsto> val x)) f0 xs (key x) = Some (val x)"
  using assms
proof (induction xs arbitrary: f0)
  case (Cons y ys)
  show ?case
  proof (cases "x = y")
    case True
    with Cons.prems foldl_upd_other [of "key y" key ys val "f0(key y \<mapsto> val y)"]
    show ?thesis by (simp del: fun_upd_apply) simp
  next
    case False
    with Cons show ?thesis by simp
  qed
qed simp

lemma to_compose_services:
  "distinct (map ss_name (pl_services p)) \<Longrightarrow> s \<in> set (pl_services p) \<Longrightarrow>
     cf_services (to_compose p) (ss_name s) = Some (render_service s)"
  by (simp add: to_compose_def foldl_upd_distinct)

lemma to_compose_services_dom: "dom (cf_services (to_compose p)) = ss_name ` set (pl_services p)"
  by (simp add: to_compose_def foldl_upd_dom)

lemma to_compose_volumes_dom: "dom (cf_volumes (to_compose p)) = set (pl_volumes p)"
  using foldl_upd_dom [of "\<lambda>v. v" "\<lambda>v. ()" Map.empty "pl_volumes p"]
  by (simp add: to_compose_def)

end
