(* ===== verification/Compile.thy ===== *)
theory Compile
  imports ExecutionPlan
begin

text \<open>
  The run-contract compiler (\<open>internal/runcontract/compile.go\<close>): from a contract and the
  per-Session options to a locked-down plan, or the first error the code returns. The theorems
  state the platform's invariants of every plan it can yield.
\<close>

section \<open>Options and defaults\<close>

definition default_runtime :: string where
  "default_runtime = ''runsc''"

definition default_app_user :: string where
  "default_app_user = ''1000:1000''"

definition egress_proxy_port :: int where
  "egress_proxy_port = 8888"

definition safe_name_re :: rx where
  "safe_name_re = RSeq (RCls lower_alnum) (RStar (RCls (\<lambda>c. lower_alnum c \<or> c = CHR ''-'')))"

definition default_app_resources :: resources where
  "default_app_resources = \<lparr>res_mem = 512 * 2 ^ 20, res_cpus = 1, res_pids = 256\<rparr>"

definition default_db_resources :: resources where
  "default_db_resources = \<lparr>res_mem = 256 * 2 ^ 20, res_cpus = 1, res_pids = 256\<rparr>"

definition default_egress_resources :: resources where
  "default_egress_resources = \<lparr>res_mem = 64 * 2 ^ 20, res_cpus = 1 / 2, res_pids = 64\<rparr>"

record db_creds =
  dc_user :: string
  dc_password :: string
  dc_database :: string

record options =
  op_project :: string
  op_network_name :: string
  op_runtime :: string
  op_app_user :: string
  op_resources :: resources
  op_db_resources :: resources
  op_images :: "string \<rightharpoonup> string"
  op_db_creds :: db_creds
  op_platform_env :: "string \<rightharpoonup> string"
  op_egress_image :: string
  op_egress_network_name :: string
  op_egress_resources :: resources

definition or_default :: "string \<Rightarrow> string \<Rightarrow> string" where
  "or_default v d = (if v = '''' then d else v)"

definition res_or_default :: "resources \<Rightarrow> resources \<Rightarrow> resources" where
  "res_or_default r d =
     (let r1 = (if res_mem r = 0 then r\<lparr>res_mem := res_mem d\<rparr> else r);
          r2 = (if res_cpus r1 = 0 then r1\<lparr>res_cpus := res_cpus d\<rparr> else r1)
      in if res_pids r2 = 0 then r2\<lparr>res_pids := res_pids d\<rparr> else r2)"

section \<open>The services the compiler generates\<close>

datatype compile_err =
    InvalidManifest "verr list"
  | ProjectRequired | ProjectBad string | NetworkNameBad string | EgressNetworkNameBad string
  | NoPlatformValue string | EgressImageRequired | DBCredsIncomplete
  | NoSeedImage string | NoImage string

definition app_healthcheck :: "string list \<Rightarrow> healthcheck option" where
  "app_healthcheck argv =
     (if argv = [] then None
      else Some \<lparr>hc_test = ''CMD'' # argv, hc_interval = ''2s'', hc_timeout = ''3s'', hc_retries = 15,
                 hc_start_period = ''10s''\<rparr>)"

definition db_service :: "db_decl \<Rightarrow> db_creds \<Rightarrow> string \<Rightarrow> resources \<Rightarrow> string \<Rightarrow> string \<Rightarrow> service_spec" where
  "db_service db creds rt res net volume =
     \<lparr>ss_name = db_service_name, ss_image = db_engine db @ '':'' @ db_version db, ss_runtime = rt,
      ss_resources = res, ss_networks = [net],
      ss_env = [''POSTGRES_USER'' \<mapsto> dc_user creds, ''POSTGRES_PASSWORD'' \<mapsto> dc_password creds,
                ''POSTGRES_DB'' \<mapsto> dc_database creds],
      ss_user = '''', ss_read_only = False, ss_tmpfs = [],
      ss_volumes = [\<lparr>vm_source = volume, vm_target = ''/var/lib/postgresql/data''\<rparr>],
      ss_cap_drop = [], ss_security_opt = [''no-new-privileges:true''], ss_restart = ''on-failure'',
      ss_healthcheck = Some \<lparr>hc_test = [''CMD-SHELL'', ''pg_isready -U '' @ dc_user creds],
        hc_interval = ''5s'', hc_timeout = ''5s'', hc_retries = 5, hc_start_period = ''''\<rparr>,
      ss_command = [], ss_depends = Map.empty\<rparr>"

definition egress_no_proxy :: "service list \<Rightarrow> string" where
  "egress_no_proxy ss = join ([''localhost'', ''127.0.0.1'', db_service_name] @ map svc_name ss) '',''"

definition proxy_env_names :: "string list" where
  "proxy_env_names = [''HTTP_PROXY'', ''HTTPS_PROXY'', ''http_proxy'', ''https_proxy'', ''NO_PROXY'', ''no_proxy'']"

definition inject_proxy_env :: "(string \<rightharpoonup> string) \<Rightarrow> service list \<Rightarrow> (string \<rightharpoonup> string)" where
  "inject_proxy_env env ss =
     (let url = ''http://'' @ egress_service_name @ '':'' @ itoa egress_proxy_port;
          no = egress_no_proxy ss
      in env(''HTTP_PROXY'' \<mapsto> url, ''HTTPS_PROXY'' \<mapsto> url, ''http_proxy'' \<mapsto> url,
             ''https_proxy'' \<mapsto> url, ''NO_PROXY'' \<mapsto> no, ''no_proxy'' \<mapsto> no))"

definition render_allowlist :: "egress_rule list \<Rightarrow> string" where
  "render_allowlist rules = join (map (\<lambda>r. eg_host r @ '':'' @ itoa (eg_port r)) rules) '',''"

definition egress_proxy_service ::
    "string \<Rightarrow> string \<Rightarrow> resources \<Rightarrow> string \<Rightarrow> string \<Rightarrow> egress_rule list \<Rightarrow> service_spec" where
  "egress_proxy_service img rt res internal_net egress_net rules =
     \<lparr>ss_name = egress_service_name, ss_image = img, ss_runtime = rt, ss_resources = res,
      ss_networks = [internal_net, egress_net],
      ss_env = [''EGRESS_ALLOWLIST'' \<mapsto> render_allowlist rules],
      ss_user = default_app_user, ss_read_only = True, ss_tmpfs = [], ss_volumes = [],
      ss_cap_drop = [''ALL''], ss_security_opt = [''no-new-privileges:true''],
      ss_restart = ''on-failure'',
      ss_healthcheck = Some \<lparr>hc_test = [''CMD'', ''/egress-proxy'', ''-healthcheck''],
        hc_interval = ''5s'', hc_timeout = ''3s'', hc_retries = 5, hc_start_period = ''3s''\<rparr>,
      ss_command = [], ss_depends = Map.empty\<rparr>"

text \<open>The loop over the declared variables: static and platform values are set in order, owner
  values are skipped, a missing platform value ends the loop.\<close>

fun resolve_env_loop ::
    "env_var list \<Rightarrow> (string \<rightharpoonup> string) \<Rightarrow> (string \<rightharpoonup> string) \<Rightarrow> (compile_err, string \<rightharpoonup> string) result" where
  "resolve_env_loop [] platform out = Ok out"
| "resolve_env_loop (e # es) platform out =
     (if ev_source e = env_static then resolve_env_loop es platform (out(ev_name e \<mapsto> ev_value e))
      else if ev_source e = env_platform then
        (case platform (ev_name e) of
           None \<Rightarrow> Err (NoPlatformValue (ev_name e))
         | Some v \<Rightarrow> resolve_env_loop es platform (out(ev_name e \<mapsto> v)))
      else resolve_env_loop es platform out)"

definition resolve_app_env ::
    "env_var list \<Rightarrow> (string \<rightharpoonup> string) \<Rightarrow> (compile_err, string \<rightharpoonup> string) result" where
  "resolve_app_env vars platform = resolve_env_loop vars platform Map.empty"

definition require_db_creds :: "db_creds \<Rightarrow> (compile_err, unit) result" where
  "require_db_creds c =
     (if dc_user c = '''' \<or> dc_password c = '''' \<or> dc_database c = '''' then Err DBCredsIncomplete
      else Ok ())"

definition app_service ::
    "options \<Rightarrow> string \<Rightarrow> resources \<Rightarrow> string \<Rightarrow> string \<Rightarrow> (string \<rightharpoonup> string) \<Rightarrow> (string \<rightharpoonup> string)
       \<Rightarrow> service \<Rightarrow> (compile_err, service_spec) result" where
  "app_service opts rt res app_user net env deps s =
     (case op_images opts (svc_name s) of
        None \<Rightarrow> Err (NoImage (svc_name s))
      | Some img \<Rightarrow> Ok
          \<lparr>ss_name = svc_name s, ss_image = img, ss_runtime = rt, ss_resources = res,
           ss_networks = [net], ss_env = env, ss_user = app_user, ss_read_only = True,
           ss_tmpfs = [''/tmp''], ss_volumes = [], ss_cap_drop = [''ALL''],
           ss_security_opt = [''no-new-privileges:true''], ss_restart = ''on-failure'',
           ss_healthcheck = app_healthcheck (svc_healthcheck s), ss_command = [],
           ss_depends = deps\<rparr>)"

definition seed_service_spec ::
    "string \<Rightarrow> string \<Rightarrow> resources \<Rightarrow> string \<Rightarrow> string \<Rightarrow> (string \<rightharpoonup> string) \<Rightarrow> seed \<Rightarrow> service_spec" where
  "seed_service_spec img rt res app_user net env sd =
     \<lparr>ss_name = seed_service_name, ss_image = img, ss_runtime = rt, ss_resources = res,
      ss_networks = [net], ss_env = env, ss_user = app_user, ss_read_only = True,
      ss_tmpfs = [''/tmp''], ss_volumes = [], ss_cap_drop = [''ALL''],
      ss_security_opt = [''no-new-privileges:true''], ss_restart = ''no'', ss_healthcheck = None,
      ss_command = seed_command sd, ss_depends = [db_service_name \<mapsto> depend_healthy]\<rparr>"

section \<open>The compiler\<close>

definition check_options :: "options \<Rightarrow> (compile_err, unit) result" where
  "check_options opts =
     (if op_project opts = '''' then Err ProjectRequired
      else if \<not> match_string safe_name_re (op_project opts) then Err (ProjectBad (op_project opts))
      else if op_network_name opts \<noteq> '''' \<and> \<not> match_string safe_name_re (op_network_name opts)
      then Err (NetworkNameBad (op_network_name opts))
      else if op_egress_network_name opts \<noteq> '''' \<and> \<not> match_string safe_name_re (op_egress_network_name opts)
      then Err (EgressNetworkNameBad (op_egress_network_name opts))
      else Ok ())"

definition net_of :: "options \<Rightarrow> string" where
  "net_of opts = or_default (op_network_name opts) (op_project opts @ ''-net'')"

definition egress_net_of :: "options \<Rightarrow> string" where
  "egress_net_of opts = or_default (op_egress_network_name opts) (op_project opts @ ''-egress-net'')"

definition runtime_of :: "options \<Rightarrow> string" where
  "runtime_of opts = or_default (op_runtime opts) default_runtime"

definition app_user_of :: "options \<Rightarrow> string" where
  "app_user_of opts = or_default (op_app_user opts) default_app_user"

text \<open>The blocks of \<open>Compile\<close> in their order: egress, dependencies, database, seed, apps. Each
  appends to the services of the plan.\<close>

definition egress_block ::
    "manifest \<Rightarrow> options \<Rightarrow> plan \<times> (string \<rightharpoonup> string) \<Rightarrow> (compile_err, plan \<times> (string \<rightharpoonup> string)) result" where
  "egress_block m opts pe =
     (case pe of (p, env) \<Rightarrow>
        if m_egress m = [] then Ok (p, env)
        else if op_egress_image opts = '''' then Err EgressImageRequired
        else Ok (p\<lparr>pl_egress := Some \<lparr>net_name = egress_net_of opts, net_internal = False\<rparr>,
                   pl_services := pl_services p @
                     [egress_proxy_service (op_egress_image opts) (runtime_of opts)
                        (res_or_default (op_egress_resources opts) default_egress_resources)
                        (net_of opts) (egress_net_of opts) (m_egress m)]\<rparr>,
                 inject_proxy_env env (m_services m)))"

definition app_deps_of :: "manifest \<Rightarrow> (string \<rightharpoonup> string)" where
  "app_deps_of m =
     (if m_seed m \<noteq> None then [seed_service_name \<mapsto> depend_completed]
      else if m_db m \<noteq> None then [db_service_name \<mapsto> depend_healthy]
      else Map.empty)"

definition db_block :: "manifest \<Rightarrow> options \<Rightarrow> plan \<Rightarrow> (compile_err, plan) result" where
  "db_block m opts p =
     (case m_db m of
        None \<Rightarrow> Ok p
      | Some db \<Rightarrow>
          bind_res (require_db_creds (op_db_creds opts)) (\<lambda>_.
            let vol = op_project opts @ ''-pgdata''
            in Ok (p\<lparr>pl_volumes := pl_volumes p @ [vol],
                     pl_services := pl_services p @
                       [db_service db (op_db_creds opts) (runtime_of opts)
                          (res_or_default (op_db_resources opts) default_db_resources)
                          (net_of opts) vol]\<rparr>)))"

definition seed_block ::
    "manifest \<Rightarrow> options \<Rightarrow> (string \<rightharpoonup> string) \<Rightarrow> plan \<Rightarrow> (compile_err, plan) result" where
  "seed_block m opts env p =
     (case m_seed m of
        None \<Rightarrow> Ok p
      | Some sd \<Rightarrow>
          (case op_images opts (seed_service sd) of
             None \<Rightarrow> Err (NoSeedImage (seed_service sd))
           | Some img \<Rightarrow> Ok (p\<lparr>pl_services := pl_services p @
               [seed_service_spec img (runtime_of opts)
                  (res_or_default (op_resources opts) default_app_resources)
                  (app_user_of opts) (net_of opts) env sd]\<rparr>)))"

definition apps_block ::
    "manifest \<Rightarrow> options \<Rightarrow> (string \<rightharpoonup> string) \<Rightarrow> plan \<Rightarrow> (compile_err, plan) result" where
  "apps_block m opts env p =
     bind_res
       (traverse (app_service opts (runtime_of opts)
                    (res_or_default (op_resources opts) default_app_resources)
                    (app_user_of opts) (net_of opts) env (app_deps_of m)) (m_services m))
       (\<lambda>ss. Ok (p\<lparr>pl_services := pl_services p @ ss\<rparr>))"

definition compile :: "unicode \<Rightarrow> manifest \<Rightarrow> options \<Rightarrow> (compile_err, plan) result" where
  "compile u m opts =
     (if validate u m \<noteq> [] then Err (InvalidManifest (validate u m))
      else
        bind_res (check_options opts) (\<lambda>_.
        bind_res (resolve_app_env (m_env m) (op_platform_env opts)) (\<lambda>env0.
        bind_res (egress_block m opts
          (\<lparr>pl_project = op_project opts,
            pl_network = \<lparr>net_name = net_of opts, net_internal = True\<rparr>,
            pl_egress = None, pl_volumes = [], pl_services = []\<rparr>, env0)) (\<lambda>(p1, env).
        bind_res (db_block m opts p1) (\<lambda>p2.
        bind_res (seed_block m opts env p2) (\<lambda>p3.
        apps_block m opts env p3))))))"

section \<open>The shape of every plan\<close>

definition egress_part :: "manifest \<Rightarrow> options \<Rightarrow> service_spec list" where
  "egress_part m opts =
     (if m_egress m = [] then []
      else [egress_proxy_service (op_egress_image opts) (runtime_of opts)
              (res_or_default (op_egress_resources opts) default_egress_resources)
              (net_of opts) (egress_net_of opts) (m_egress m)])"

definition db_part :: "manifest \<Rightarrow> options \<Rightarrow> service_spec list" where
  "db_part m opts =
     (case m_db m of None \<Rightarrow> []
      | Some db \<Rightarrow> [db_service db (op_db_creds opts) (runtime_of opts)
                     (res_or_default (op_db_resources opts) default_db_resources)
                     (net_of opts) (op_project opts @ ''-pgdata'')])"

definition seed_part :: "manifest \<Rightarrow> options \<Rightarrow> (string \<rightharpoonup> string) \<Rightarrow> service_spec list" where
  "seed_part m opts env =
     (case m_seed m of None \<Rightarrow> []
      | Some sd \<Rightarrow> [seed_service_spec (the (op_images opts (seed_service sd))) (runtime_of opts)
                     (res_or_default (op_resources opts) default_app_resources)
                     (app_user_of opts) (net_of opts) env sd])"

definition plan_of :: "manifest \<Rightarrow> options \<Rightarrow> (string \<rightharpoonup> string) \<Rightarrow> service_spec list \<Rightarrow> plan" where
  "plan_of m opts env apps =
     \<lparr>pl_project = op_project opts,
      pl_network = \<lparr>net_name = net_of opts, net_internal = True\<rparr>,
      pl_egress = (if m_egress m = [] then None
                   else Some \<lparr>net_name = egress_net_of opts, net_internal = False\<rparr>),
      pl_volumes = (if m_db m = None then [] else [op_project opts @ ''-pgdata'']),
      pl_services = egress_part m opts @ db_part m opts @ seed_part m opts env @ apps\<rparr>"

definition session_env :: "manifest \<Rightarrow> (string \<rightharpoonup> string) \<Rightarrow> (string \<rightharpoonup> string)" where
  "session_env m env0 = (if m_egress m = [] then env0 else inject_proxy_env env0 (m_services m))"

definition creds_complete :: "db_creds \<Rightarrow> bool" where
  "creds_complete c \<longleftrightarrow> dc_user c \<noteq> '''' \<and> dc_password c \<noteq> '''' \<and> dc_database c \<noteq> ''''"

lemma require_db_creds_Ok [simp]: "require_db_creds c = Ok x \<longleftrightarrow> creds_complete c"
  by (auto simp: require_db_creds_def creds_complete_def)

abbreviation compile_apps :: "manifest \<Rightarrow> options \<Rightarrow> (string \<rightharpoonup> string) \<Rightarrow> (compile_err, service_spec list) result" where
  "compile_apps m opts env \<equiv>
     traverse (app_service opts (runtime_of opts)
                (res_or_default (op_resources opts) default_app_resources)
                (app_user_of opts) (net_of opts) env (app_deps_of m)) (m_services m)"

lemma compile_Ok_iff:
  "compile u m opts = Ok p \<longleftrightarrow>
     valid_manifest u m \<and> check_options opts = Ok () \<and>
     (\<exists>env0 apps. resolve_app_env (m_env m) (op_platform_env opts) = Ok env0 \<and>
        (m_egress m \<noteq> [] \<longrightarrow> op_egress_image opts \<noteq> '''') \<and>
        (m_db m \<noteq> None \<longrightarrow> creds_complete (op_db_creds opts)) \<and>
        (\<forall>sd. m_seed m = Some sd \<longrightarrow> op_images opts (seed_service sd) \<noteq> None) \<and>
        compile_apps m opts (session_env m env0) = Ok apps \<and>
        p = plan_of m opts (session_env m env0) apps)"
  unfolding compile_def validate_nil_iff [symmetric]
  by (cases "m_db m"; cases "m_seed m"; cases "m_egress m = []")
    (auto simp: bind_res_Ok_iff egress_block_def db_block_def seed_block_def apps_block_def
      plan_of_def egress_part_def db_part_def seed_part_def session_env_def Let_def
      split: option.splits)

lemma app_service_Ok:
  assumes "app_service opts rt res usr net env deps s = Ok a"
  shows "ss_name a = svc_name s" "op_images opts (svc_name s) = Some (ss_image a)"
    "ss_runtime a = rt" "ss_resources a = res" "ss_networks a = [net]" "ss_env a = env"
    "ss_user a = usr" "ss_read_only a" "ss_volumes a = []" "ss_cap_drop a = [''ALL'']"
    "ss_security_opt a = [''no-new-privileges:true'']" "ss_depends a = deps"
    "ss_healthcheck a = app_healthcheck (svc_healthcheck s)" "ss_command a = []"
    "ss_restart a = ''on-failure''"
  using assms by (auto simp: app_service_def split: option.splits)

lemma compile_apps_Ok:
  assumes "compile_apps m opts env = Ok apps"
  shows "map ss_name apps = map svc_name (m_services m)"
    and "a \<in> set apps \<Longrightarrow> \<exists>s \<in> set (m_services m).
      app_service opts (runtime_of opts) (res_or_default (op_resources opts) default_app_resources)
        (app_user_of opts) (net_of opts) env (app_deps_of m) s = Ok a"
proof -
  have l2: "list_all2 (\<lambda>s a. app_service opts (runtime_of opts)
      (res_or_default (op_resources opts) default_app_resources)
      (app_user_of opts) (net_of opts) env (app_deps_of m) s = Ok a) (m_services m) apps"
    using assms by (simp add: traverse_Ok_iff)
  then have "list_all2 (\<lambda>s a. svc_name s = ss_name a) (m_services m) apps"
    by (rule list_all2_mono) (simp add: app_service_Ok)
  then show "map ss_name apps = map svc_name (m_services m)"
    by (induction rule: list_all2_induct) auto
  show "a \<in> set apps \<Longrightarrow> \<exists>s \<in> set (m_services m).
      app_service opts (runtime_of opts) (res_or_default (op_resources opts) default_app_resources)
        (app_user_of opts) (net_of opts) env (app_deps_of m) s = Ok a"
    using list_all2_in_set2 [OF l2] by blast
qed

lemma app_names_not_reserved:
  assumes "valid_manifest u m" "s \<in> set (m_services m)"
  shows "svc_name s \<notin> reserved_service_names"
  using assms by (auto simp: valid_manifest_def list_all_iff service_ok_def)

lemmas part_defs = egress_part_def db_part_def seed_part_def egress_proxy_service_def
  db_service_def seed_service_spec_def

lemma plan_names:
  assumes "compile u m opts = Ok p"
  shows "map ss_name (pl_services p) =
    (if m_egress m = [] then [] else [egress_service_name]) @
    (if m_db m = None then [] else [db_service_name]) @
    (if m_seed m = None then [] else [seed_service_name]) @ map svc_name (m_services m)"
proof -
  from assms obtain env apps where apps: "compile_apps m opts env = Ok apps"
    and p: "p = plan_of m opts env apps"
    by (auto simp: compile_Ok_iff)
  from p compile_apps_Ok(1) [OF apps] show ?thesis
    by (auto simp: plan_of_def part_defs split: option.splits)
qed

lemma plan_names_distinct:
  assumes "compile u m opts = Ok p"
  shows "distinct (map ss_name (pl_services p))"
proof -
  from assms have v: "valid_manifest u m" by (simp add: compile_Ok_iff)
  then have "set (map svc_name (m_services m)) \<inter> reserved_service_names = {}"
    using app_names_not_reserved by auto
  moreover from v have "distinct (map svc_name (m_services m))" by (simp add: valid_manifest_def)
  ultimately show ?thesis
    unfolding plan_names [OF assms] by (auto simp: reserved_service_names_def platform_name_defs)
qed

section \<open>Lemmas for the properties\<close>

lemma safe_name_re_iff [rx_simps]: "match_string safe_name_re s \<longleftrightarrow> service_name_ok s"
  using service_name_re_iff by (simp add: safe_name_re_def service_name_re_def)

lemma check_options_Ok:
  "check_options opts = Ok x \<longleftrightarrow>
     service_name_ok (op_project opts) \<and>
     (op_network_name opts = '''' \<or> service_name_ok (op_network_name opts)) \<and>
     (op_egress_network_name opts = '''' \<or> service_name_ok (op_egress_network_name opts))"
  by (auto simp: check_options_def rx_simps service_name_ok_def)

lemma service_name_ok_chars:
  "service_name_ok s \<Longrightarrow> c \<in> set s \<Longrightarrow> lower_alnum c \<or> c = CHR ''-''"
  by (auto simp: service_name_ok_def list_all_iff)

lemma service_name_ok_no_slash: "service_name_ok s \<Longrightarrow> CHR ''/'' \<notin> set s"
  using service_name_ok_chars [of s "CHR ''/''"] by (auto simp: lower_alnum_def char_class_defs)

lemma res_or_default_nonzero:
  assumes "res_mem d \<noteq> 0" "res_cpus d \<noteq> 0" "res_pids d \<noteq> 0"
  shows "res_mem (res_or_default r d) \<noteq> 0" "res_cpus (res_or_default r d) \<noteq> 0"
    "res_pids (res_or_default r d) \<noteq> 0"
  using assms by (auto simp: res_or_default_def Let_def)

lemmas default_resources_defs =
  default_app_resources_def default_db_resources_def default_egress_resources_def

lemma resolve_env_loop_Ok:
  "(\<exists>env. resolve_env_loop es platform out = Ok env) \<longleftrightarrow>
     (\<forall>e \<in> set es. ev_source e = env_platform \<longrightarrow> platform (ev_name e) \<noteq> None)"
proof (induction es platform out rule: resolve_env_loop.induct)
  case (2 e es platform out)
  then show ?case by (auto simp del: fun_upd_apply simp: env_source_defs split: option.splits)
qed simp

definition env_value :: "(string \<rightharpoonup> string) \<Rightarrow> env_var \<Rightarrow> string option" where
  "env_value platform e =
     (if ev_source e = env_static then Some (ev_value e)
      else if ev_source e = env_platform then platform (ev_name e) else None)"

lemma resolve_env_loop_origin:
  assumes "resolve_env_loop es platform out = Ok env" "env k = Some v"
  shows "out k = Some v \<or> (\<exists>e \<in> set es. ev_name e = k \<and> env_value platform e = Some v)"
  using assms
proof (induction es platform out rule: resolve_env_loop.induct)
  case (2 e es platform out)
  then show ?case
    by (auto simp del: fun_upd_apply simp: env_value_def env_source_defs split: if_splits option.splits)
      (auto simp: fun_upd_apply split: if_splits)
qed simp

lemma resolve_env_loop_other:
  assumes "resolve_env_loop es platform out = Ok env" "k \<notin> ev_name ` set es"
  shows "env k = out k"
  using assms
proof (induction es platform out rule: resolve_env_loop.induct)
  case (2 e es platform out)
  then show ?case
    by (auto simp del: fun_upd_apply simp: fun_upd_other split: if_splits option.splits)
qed simp

lemma resolve_env_loop_value:
  assumes "resolve_env_loop es platform out = Ok env" "distinct (map ev_name es)" "e \<in> set es"
    "env_value platform e \<noteq> None"
  shows "env (ev_name e) = env_value platform e"
  using assms
proof (induction es platform out rule: resolve_env_loop.induct)
  case (2 e' es platform out)
  show ?case
  proof (cases "e = e'")
    case True
    with 2 show ?thesis
      using resolve_env_loop_other [of es platform _ env "ev_name e'"]
      by (auto simp: env_value_def env_source_defs simp del: fun_upd_apply simp: fun_upd_same split: if_splits option.splits)
  next
    case False
    with 2 show ?thesis
      by (auto simp del: fun_upd_apply simp: env_source_defs split: if_splits option.splits)
  qed
qed simp

lemma proxy_env_name_lower:
  assumes "k \<in> set proxy_env_names"
  shows "to_lower u k \<in> reserved_env_names"
proof -
  have "list_all is_ascii k" "map lower_byte k \<in> reserved_env_names"
    using assms
    by (auto simp: proxy_env_names_def reserved_env_names_def lower_byte_def char_class_defs
        char_of_eq_iff)
  then show ?thesis by (simp add: to_lower_ascii)
qed

lemma inject_proxy_env_other: "k \<notin> set proxy_env_names \<Longrightarrow> inject_proxy_env env ss k = env k"
  by (auto simp: inject_proxy_env_def proxy_env_names_def Let_def)

lemma declared_env_not_proxy:
  assumes "valid_manifest u m" "e \<in> set (m_env m)"
  shows "ev_name e \<notin> set proxy_env_names"
  using assms proxy_env_name_lower by (auto simp: valid_manifest_def list_all_iff env_var_ok_def)

lemma plan_service_cases:
  assumes "compile u m opts = Ok p" "s \<in> set (pl_services p)"
  obtains
    (egress) "m_egress m \<noteq> []" "s \<in> set (egress_part m opts)"
  | (db) "m_db m \<noteq> None" "s \<in> set (db_part m opts)"
  | (seed) env where "m_seed m \<noteq> None" "s \<in> set (seed_part m opts env)"
  | (app) env svc where "svc \<in> set (m_services m)"
      "app_service opts (runtime_of opts) (res_or_default (op_resources opts) default_app_resources)
        (app_user_of opts) (net_of opts) env (app_deps_of m) svc = Ok s"
proof -
  from assms(1) obtain env apps where apps: "compile_apps m opts env = Ok apps"
    and p: "p = plan_of m opts env apps"
    by (auto simp: compile_Ok_iff)
  from assms(2) p consider "s \<in> set (egress_part m opts)" | "s \<in> set (db_part m opts)"
    | "s \<in> set (seed_part m opts env)" | "s \<in> set apps"
    by (auto simp: plan_of_def)
  then show ?thesis
  proof cases
    case 1 then show ?thesis using egress by (auto simp: egress_part_def split: if_splits)
  next
    case 2 then show ?thesis using db by (cases "m_db m") (simp_all add: db_part_def)
  next
    case 3 then show ?thesis using seed by (cases "m_seed m") (simp_all add: seed_part_def)
  next
    case 4 then show ?thesis using compile_apps_Ok(2) [OF apps] app by blast
  qed
qed

section \<open>Properties\<close>

text \<open>The inputs the properties are applied to: the fixture, with one allowed destination.\<close>

definition demo_manifest :: manifest where
  "demo_manifest = fixture_manifest\<lparr>m_egress := [\<lparr>eg_host = ''api.x'', eg_port = 443\<rparr>]\<rparr>"

definition no_resources :: resources where
  "no_resources = \<lparr>res_mem = 0, res_cpus = 0, res_pids = 0\<rparr>"

definition demo_options :: options where
  "demo_options =
     \<lparr>op_project = ''s-1'', op_network_name = '''', op_runtime = '''', op_app_user = '''',
      op_resources = no_resources, op_db_resources = no_resources,
      op_images = [''web'' \<mapsto> ''img/web'', ''api'' \<mapsto> ''img/api''],
      op_db_creds = \<lparr>dc_user = ''demo'', dc_password = ''pw'', dc_database = ''demo''\<rparr>,
      op_platform_env = [''DATABASE_URL'' \<mapsto> ''postgres://''],
      op_egress_image = ''egress:1'', op_egress_network_name = '''',
      op_egress_resources = no_resources\<rparr>"

lemma demo_manifest_valid: "valid_manifest u demo_manifest"
proof -
  have "valid_manifest u fixture_manifest"
    using fixture_manifest_valid by (simp only: validate_nil_iff)
  then show ?thesis
    by (simp add: demo_manifest_def valid_manifest_def seed_ok_def egress_rule_ok_def
        egress_host_ok_def alnum_def char_class_defs split: option.splits)
qed

lemma compile_succeeds_iff:
  "(\<exists>p. compile u m opts = Ok p) \<longleftrightarrow>
     valid_manifest u m \<and>
     service_name_ok (op_project opts) \<and>
     (op_network_name opts = '''' \<or> service_name_ok (op_network_name opts)) \<and>
     (op_egress_network_name opts = '''' \<or> service_name_ok (op_egress_network_name opts)) \<and>
     (\<forall>e \<in> set (m_env m). ev_source e = env_platform \<longrightarrow> op_platform_env opts (ev_name e) \<noteq> None) \<and>
     (m_egress m \<noteq> [] \<longrightarrow> op_egress_image opts \<noteq> '''') \<and>
     (m_db m \<noteq> None \<longrightarrow> creds_complete (op_db_creds opts)) \<and>
     (\<forall>s \<in> set (m_services m). op_images opts (svc_name s) \<noteq> None)"
  (is "?l \<longleftrightarrow> ?r")
proof -
  have images: "(\<exists>apps. compile_apps m opts env = Ok apps) \<longleftrightarrow>
      (\<forall>s \<in> set (m_services m). op_images opts (svc_name s) \<noteq> None)" for env
  proof -
    have "(\<exists>apps. traverse (app_service opts rt res usr net env deps) ss = Ok apps) \<longleftrightarrow>
        (\<forall>s \<in> set ss. op_images opts (svc_name s) \<noteq> None)" for rt res usr net deps ss
      by (induction ss) (auto simp: bind_res_Ok_iff app_service_def split: option.splits)
    then show ?thesis by blast
  qed
  have seed: "valid_manifest u m \<Longrightarrow> m_seed m = Some sd \<Longrightarrow>
      \<forall>s \<in> set (m_services m). op_images opts (svc_name s) \<noteq> None \<Longrightarrow>
      op_images opts (seed_service sd) \<noteq> None" for sd
    by (auto simp: valid_manifest_def seed_ok_def)
  have "?l \<longleftrightarrow> valid_manifest u m \<and> check_options opts = Ok () \<and>
      (\<exists>env0. resolve_app_env (m_env m) (op_platform_env opts) = Ok env0 \<and>
         (\<exists>apps. compile_apps m opts (session_env m env0) = Ok apps)) \<and>
      (m_egress m \<noteq> [] \<longrightarrow> op_egress_image opts \<noteq> '''') \<and>
      (m_db m \<noteq> None \<longrightarrow> creds_complete (op_db_creds opts)) \<and>
      (\<forall>sd. m_seed m = Some sd \<longrightarrow> op_images opts (seed_service sd) \<noteq> None)"
    unfolding compile_Ok_iff by blast
  also have "\<dots> \<longleftrightarrow> valid_manifest u m \<and> check_options opts = Ok () \<and>
      (\<exists>env0. resolve_app_env (m_env m) (op_platform_env opts) = Ok env0) \<and>
      (m_egress m \<noteq> [] \<longrightarrow> op_egress_image opts \<noteq> '''') \<and>
      (m_db m \<noteq> None \<longrightarrow> creds_complete (op_db_creds opts)) \<and>
      (\<forall>sd. m_seed m = Some sd \<longrightarrow> op_images opts (seed_service sd) \<noteq> None) \<and>
      (\<forall>s \<in> set (m_services m). op_images opts (svc_name s) \<noteq> None)"
    unfolding images by blast
  also have "\<dots> \<longleftrightarrow> ?r"
    unfolding resolve_app_env_def resolve_env_loop_Ok check_options_Ok using seed by blast
  finally show ?thesis .
qed

lemma demo_compiles: "\<exists>p. compile u demo_manifest demo_options = Ok p"
  unfolding compile_succeeds_iff using demo_manifest_valid [of u]
  by (simp add: demo_manifest_def fixture_manifest_def demo_options_def creds_complete_def
      service_name_ok_def lower_alnum_def char_class_defs)

text \<open>The compiler succeeds exactly when the contract is well-formed and the options supply
  what it needs: safe names, a value for every platform variable, the proxy image when there is an
  allow-list, complete credentials when there is a database, an image for every service. In every
  other case it returns an error.\<close>

theorem compile_total:
  "(\<exists>p. compile u m opts = Ok p) \<longleftrightarrow>
     valid_manifest u m \<and>
     service_name_ok (op_project opts) \<and>
     (op_network_name opts = '''' \<or> service_name_ok (op_network_name opts)) \<and>
     (op_egress_network_name opts = '''' \<or> service_name_ok (op_egress_network_name opts)) \<and>
     (\<forall>e \<in> set (m_env m). ev_source e = env_platform \<longrightarrow> op_platform_env opts (ev_name e) \<noteq> None) \<and>
     (m_egress m \<noteq> [] \<longrightarrow> op_egress_image opts \<noteq> '''') \<and>
     (m_db m \<noteq> None \<longrightarrow> creds_complete (op_db_creds opts)) \<and>
     (\<forall>s \<in> set (m_services m). op_images opts (svc_name s) \<noteq> None)"
  by (rule compile_succeeds_iff)

theorem compile_total_witness:
  "\<exists>p. compile sample_unicode demo_manifest demo_options = Ok p"
  unfolding compile_total using demo_manifest_valid [of sample_unicode]
  by (simp add: demo_manifest_def fixture_manifest_def demo_options_def creds_complete_def
      service_name_ok_def lower_alnum_def char_class_defs)

text \<open>Every service of every plan is confined: the runtime the platform chose, nonzero memory,
  CPU and process caps, no new privileges, and named volumes only (declared ones, whose name has no
  slash, so never a host path). All but the platform's own database run read-only, without
  capabilities, volumes or the image's own user.\<close>

theorem compile_confines:
  assumes "compile u m opts = Ok p" "s \<in> set (pl_services p)"
  shows "ss_runtime s = runtime_of opts \<and> ss_runtime s \<noteq> '''' \<and>
    res_mem (ss_resources s) \<noteq> 0 \<and> res_cpus (ss_resources s) \<noteq> 0 \<and> res_pids (ss_resources s) \<noteq> 0 \<and>
    ''no-new-privileges:true'' \<in> set (ss_security_opt s) \<and>
    (\<forall>v \<in> set (ss_volumes s). vm_source v \<in> set (pl_volumes p) \<and> CHR ''/'' \<notin> set (vm_source v)) \<and>
    (ss_name s \<noteq> db_service_name \<longrightarrow>
       ss_read_only s \<and> ss_cap_drop s = [''ALL''] \<and> ss_volumes s = [] \<and> ss_user s \<noteq> '''')"
proof -
  note res = res_or_default_nonzero default_resources_defs
  have rt: "runtime_of opts \<noteq> ''''" "app_user_of opts \<noteq> ''''" "default_app_user \<noteq> ''''"
    by (simp_all add: runtime_of_def app_user_of_def or_default_def default_runtime_def
        default_app_user_def)
  have vol: "m_db m \<noteq> None \<Longrightarrow> pl_volumes p = [op_project opts @ ''-pgdata'']"
    "CHR ''/'' \<notin> set (op_project opts)"
    using assms(1) service_name_ok_no_slash
    by (auto simp: compile_Ok_iff check_options_Ok plan_of_def)
  from assms show ?thesis
  proof (cases rule: plan_service_cases)
    case egress
    then show ?thesis using rt by (simp add: egress_part_def egress_proxy_service_def res)
  next
    case db
    then show ?thesis
      using rt vol by (auto simp: db_part_def db_service_def res)
  next
    case (seed env)
    then show ?thesis using rt by (auto simp: seed_part_def seed_service_spec_def res)
  next
    case (app env svc)
    from app_service_Ok [OF app(2)] show ?thesis using rt by (simp add: res)
  qed
qed

theorem compile_confines_witness:
  "\<exists>p s. compile sample_unicode demo_manifest demo_options = Ok p \<and> s \<in> set (pl_services p)
     \<and> ss_name s = ''api'' \<and> ss_runtime s = ''runsc'' \<and> ss_read_only s \<and> ss_cap_drop s = [''ALL'']"
proof -
  obtain p where p: "compile sample_unicode demo_manifest demo_options = Ok p"
    using demo_compiles by blast
  have "''api'' \<in> set (map ss_name (pl_services p))"
    using plan_names [OF p] by (simp add: demo_manifest_def fixture_manifest_def)
  then obtain s where s: "s \<in> set (pl_services p)" "ss_name s = ''api''" by auto
  from compile_confines [OF p s(1)] s p show ?thesis
    by (auto simp: platform_name_defs runtime_of_def or_default_def demo_options_def
        default_runtime_def)
qed

lemma plan_networks:
  assumes "compile u m opts = Ok p"
  shows "net_internal (pl_network p) \<and> (pl_egress p = None \<longleftrightarrow> m_egress m = []) \<and>
    (\<forall>s \<in> set (pl_services p).
       if ss_name s = egress_service_name
       then (\<exists>e. pl_egress p = Some e \<and> ss_networks s = [net_name (pl_network p), net_name e]
              \<and> ss_env s = [''EGRESS_ALLOWLIST'' \<mapsto> render_allowlist (m_egress m)])
       else ss_networks s = [net_name (pl_network p)])"
proof -
  have v: "valid_manifest u m" and net: "net_name (pl_network p) = net_of opts"
    "net_internal (pl_network p)"
    and eg: "pl_egress p = (if m_egress m = [] then None
                   else Some \<lparr>net_name = egress_net_of opts, net_internal = False\<rparr>)"
    using assms by (auto simp: compile_Ok_iff plan_of_def)
  have "if ss_name s = egress_service_name
       then (\<exists>e. pl_egress p = Some e \<and> ss_networks s = [net_name (pl_network p), net_name e]
              \<and> ss_env s = [''EGRESS_ALLOWLIST'' \<mapsto> render_allowlist (m_egress m)])
       else ss_networks s = [net_name (pl_network p)]"
    if "s \<in> set (pl_services p)" for s
    using assms that
  proof (cases rule: plan_service_cases)
    case egress
    then show ?thesis by (simp add: egress_part_def egress_proxy_service_def net eg)
  next
    case db
    then show ?thesis by (auto simp: db_part_def db_service_def net platform_name_defs)
  next
    case (seed env)
    then show ?thesis by (auto simp: seed_part_def seed_service_spec_def net platform_name_defs)
  next
    case (app env svc)
    from app_service_Ok [OF app(2)] app_names_not_reserved [OF v app(1)] show ?thesis
      by (simp add: net reserved_service_names_def)
  qed
  moreover have "pl_egress p = None \<longleftrightarrow> m_egress m = []" using eg by simp
  ultimately show ?thesis using net(2) by blast
qed



text \<open>
  Starting in order, as a property of a list of services that is stable under appending: whatever a
  service waits for is among those seen before it, and is what its condition needs.
\<close>

definition awaited :: "string \<Rightarrow> string \<Rightarrow> service_spec \<Rightarrow> bool" where
  "awaited d cond s \<longleftrightarrow> ss_name s = d \<and>
     (if cond = depend_healthy then ss_healthcheck s \<noteq> None
      else cond = depend_completed \<and> ss_restart s = ''no'' \<and> ss_command s \<noteq> [])"

definition waits_for :: "service_spec list \<Rightarrow> service_spec \<Rightarrow> bool" where
  "waits_for seen s \<longleftrightarrow> (\<forall>d cond. ss_depends s d = Some cond \<longrightarrow> (\<exists>t \<in> set seen. awaited d cond t))"

primrec in_order :: "service_spec list \<Rightarrow> service_spec list \<Rightarrow> bool" where
  "in_order seen [] = True"
| "in_order seen (s # ss) = (waits_for seen s \<and> in_order (seen @ [s]) ss)"

lemma in_order_append: "in_order seen (xs @ ys) = (in_order seen xs \<and> in_order (seen @ xs) ys)"
  by (induction xs arbitrary: seen) simp_all

lemma waits_for_more: "waits_for seen s \<Longrightarrow> waits_for (seen @ later) s"
  by (fastforce simp: waits_for_def)

lemma in_order_all: "\<forall>s \<in> set xs. waits_for seen s \<Longrightarrow> in_order seen xs"
  by (induction xs arbitrary: seen) (auto intro: waits_for_more)

lemma in_order_nth: "in_order seen xs \<Longrightarrow> i < length xs \<Longrightarrow> waits_for (seen @ take i xs) (xs ! i)"
proof (induction xs arbitrary: seen i)
  case (Cons x xs)
  then show ?case by (cases i) fastforce+
qed simp

lemma db_awaited:
  "m_db m \<noteq> None \<Longrightarrow> \<exists>s \<in> set (db_part m opts). awaited db_service_name depend_healthy s"
  by (auto simp: db_part_def db_service_def awaited_def)

lemma seed_awaited:
  "valid_manifest u m \<Longrightarrow> m_seed m \<noteq> None
   \<Longrightarrow> \<exists>s \<in> set (seed_part m opts env). awaited seed_service_name depend_completed s"
  by (auto simp: valid_manifest_def seed_ok_def seed_part_def seed_service_spec_def awaited_def depend_defs)

lemma seed_has_db: "valid_manifest u m \<Longrightarrow> m_seed m \<noteq> None \<Longrightarrow> m_db m \<noteq> None"
  by (auto simp: valid_manifest_def seed_ok_def split: option.splits)

lemma plan_in_order:
  assumes "compile u m opts = Ok p"
  shows "in_order [] (pl_services p)"
proof -
  obtain env apps where v: "valid_manifest u m" and apps: "compile_apps m opts env = Ok apps"
    and p: "p = plan_of m opts env apps"
    using assms by (auto simp: compile_Ok_iff)
  have "in_order [] (egress_part m opts @ db_part m opts)"
    by (rule in_order_all)
      (auto simp: waits_for_def egress_part_def egress_proxy_service_def db_part_def db_service_def
        split: if_splits option.splits)
  moreover have "in_order (egress_part m opts @ db_part m opts) (seed_part m opts env)"
  proof (cases "m_seed m = None")
    case False
    from db_awaited [OF seed_has_db [OF v False]]
    have "\<exists>t \<in> set (egress_part m opts @ db_part m opts). awaited db_service_name depend_healthy t"
      by fastforce
    then show ?thesis
      by (intro in_order_all)
        (auto simp: waits_for_def seed_part_def seed_service_spec_def split: option.splits if_splits)
  qed (simp add: seed_part_def)
  moreover have "in_order (egress_part m opts @ db_part m opts @ seed_part m opts env) apps"
  proof (rule in_order_all, rule ballI)
    fix a assume "a \<in> set apps"
    then have "ss_depends a = app_deps_of m"
      using compile_apps_Ok(2) [OF apps] app_service_Ok(12) by fastforce
    then show "waits_for (egress_part m opts @ db_part m opts @ seed_part m opts env) a"
      using db_awaited [of m opts] seed_awaited [OF v, of opts env]
      by (cases "m_seed m = None") (auto simp: waits_for_def app_deps_of_def split: if_splits)
  qed
  ultimately show ?thesis by (simp add: p plan_of_def in_order_append)
qed



lemma session_env_origin:
  assumes "resolve_env_loop (m_env m) plat Map.empty = Ok env0" "session_env m env0 k = Some w"
  shows "(m_egress m \<noteq> [] \<and> k \<in> set proxy_env_names) \<or>
      (\<exists>e \<in> set (m_env m). ev_name e = k \<and> env_value plat e = Some w)"
  using assms(2) resolve_env_loop_origin [OF assms(1), of k w] inject_proxy_env_other [of k env0 "m_services m"]
  by (cases "k \<in> set proxy_env_names") (auto simp: session_env_def split: if_splits)

lemma session_env_kept:
  assumes v: "valid_manifest u m" and env0: "resolve_env_loop (m_env m) plat Map.empty = Ok env0"
    and e: "distinct (map ev_name (m_env m))" "e \<in> set (m_env m)" "ev_source e \<noteq> env_owner"
  shows "session_env m env0 (ev_name e) = env_value plat e"
proof -
  from v e(2) have "ev_source e \<in> {env_platform, env_static, env_owner}"
    by (auto simp: valid_manifest_def list_all_iff env_var_ok_def)
  moreover have "\<forall>e \<in> set (m_env m). ev_source e = env_platform \<longrightarrow> plat (ev_name e) \<noteq> None"
    using env0 resolve_env_loop_Ok by blast
  ultimately have "env_value plat e \<noteq> None" using e(2,3) by (auto simp: env_value_def)
  with resolve_env_loop_value [OF env0 e(1,2)] have "env0 (ev_name e) = env_value plat e" .
  then show ?thesis
    using declared_env_not_proxy [OF v e(2)] by (simp add: session_env_def inject_proxy_env_other)
qed

lemma plan_app_services:
  assumes v: "valid_manifest u m" and apps: "compile_apps m opts env = Ok apps"
  shows "app_services (plan_of m opts env apps) = apps"
proof -
  have "ss_name a \<notin> reserved_service_names" if "a \<in> set apps" for a
  proof -
    from that have "ss_name a \<in> set (map ss_name apps)" by simp
    with compile_apps_Ok(1) [OF apps] have "ss_name a \<in> svc_name ` set (m_services m)" by simp
    then show ?thesis using app_names_not_reserved [OF v] by auto
  qed
  then have "filter (\<lambda>s. ss_name s \<notin> reserved_service_names) apps = apps" by simp
  moreover have "filter (\<lambda>s. ss_name s \<notin> reserved_service_names)
      (egress_part m opts @ db_part m opts @ seed_part m opts env) = []"
    by (auto simp: part_defs reserved_service_names_def split: option.splits)
  ultimately show ?thesis by (simp add: app_services_def app_services_of_filter plan_of_def)
qed

lemma compile_apps_parts:
  assumes "compile u m opts = Ok p"
  shows "map ss_name (app_services p) = map svc_name (m_services m)"
    and "\<forall>a \<in> set (app_services p). op_images opts (ss_name a) = Some (ss_image a) \<and>
      (\<forall>k v. ss_env a k = Some v \<longrightarrow>
         (m_egress m \<noteq> [] \<and> k \<in> set proxy_env_names) \<or>
         (\<exists>e \<in> set (m_env m). ev_name e = k \<and> env_value (op_platform_env opts) e = Some v)) \<and>
      (distinct (map ev_name (m_env m)) \<longrightarrow>
         (\<forall>e \<in> set (m_env m). ev_source e \<noteq> env_owner \<longrightarrow>
            ss_env a (ev_name e) = env_value (op_platform_env opts) e))"
proof -
  obtain env0 apps where v: "valid_manifest u m"
    and env0: "resolve_env_loop (m_env m) (op_platform_env opts) Map.empty = Ok env0"
    and apps: "compile_apps m opts (session_env m env0) = Ok apps"
    and p: "p = plan_of m opts (session_env m env0) apps"
    using assms by (auto simp: compile_Ok_iff resolve_app_env_def)
  have is_apps: "app_services p = apps" unfolding p by (rule plan_app_services [OF v apps])
  with compile_apps_Ok(1) [OF apps]
  show "map ss_name (app_services p) = map svc_name (m_services m)" by simp
  note origin = session_env_origin [OF env0] and kept = session_env_kept [OF v env0]
  show "\<forall>a \<in> set (app_services p). op_images opts (ss_name a) = Some (ss_image a) \<and>
      (\<forall>k v. ss_env a k = Some v \<longrightarrow>
         (m_egress m \<noteq> [] \<and> k \<in> set proxy_env_names) \<or>
         (\<exists>e \<in> set (m_env m). ev_name e = k \<and> env_value (op_platform_env opts) e = Some v)) \<and>
      (distinct (map ev_name (m_env m)) \<longrightarrow>
         (\<forall>e \<in> set (m_env m). ev_source e \<noteq> env_owner \<longrightarrow>
            ss_env a (ev_name e) = env_value (op_platform_env opts) e))"
    unfolding is_apps
  proof
    fix a assume "a \<in> set apps"
    then obtain svc where "op_images opts (ss_name a) = Some (ss_image a)"
      "ss_env a = session_env m env0"
      using compile_apps_Ok(2) [OF apps] app_service_Ok(1,2,6) by metis
    with origin kept show "op_images opts (ss_name a) = Some (ss_image a) \<and>
      (\<forall>k v. ss_env a k = Some v \<longrightarrow>
         (m_egress m \<noteq> [] \<and> k \<in> set proxy_env_names) \<or>
         (\<exists>e \<in> set (m_env m). ev_name e = k \<and> env_value (op_platform_env opts) e = Some v)) \<and>
      (distinct (map ev_name (m_env m)) \<longrightarrow>
         (\<forall>e \<in> set (m_env m). ev_source e \<noteq> env_owner \<longrightarrow>
            ss_env a (ev_name e) = env_value (op_platform_env opts) e))"
      by simp
  qed
qed

text \<open>The Owner's services run with the images the platform built for them, one service each in
  the declared order. Their environment is what the contract declares: a value comes from a static
  entry or from the platform's value for a platform entry, never from an owner-sourced one, and the
  only additions are the proxy variables of a Stack with an allow-list, which replace no declared
  entry.\<close>

theorem compile_apps_faithful:
  assumes "compile u m opts = Ok p"
  shows "map ss_name (app_services p) = map svc_name (m_services m) \<and>
    (\<forall>a \<in> set (app_services p). op_images opts (ss_name a) = Some (ss_image a) \<and>
      (\<forall>k v. ss_env a k = Some v \<longrightarrow>
         (m_egress m \<noteq> [] \<and> k \<in> set proxy_env_names) \<or>
         (\<exists>e \<in> set (m_env m). ev_name e = k \<and> env_value (op_platform_env opts) e = Some v)) \<and>
      (distinct (map ev_name (m_env m)) \<longrightarrow>
         (\<forall>e \<in> set (m_env m). ev_source e \<noteq> env_owner \<longrightarrow>
            ss_env a (ev_name e) = env_value (op_platform_env opts) e)))"
  using compile_apps_parts [OF assms] by (rule conjI)

theorem compile_apps_faithful_witness:
  "\<exists>p. compile sample_unicode demo_manifest demo_options = Ok p \<and>
     map ss_name (app_services p) = [''web'', ''api''] \<and>
     (\<forall>a \<in> set (app_services p). ss_env a ''DATABASE_URL'' = Some ''postgres://'')"
proof -
  obtain p where p: "compile sample_unicode demo_manifest demo_options = Ok p"
    using demo_compiles by blast
  have env: "m_env demo_manifest =
      [\<lparr>ev_name = ''DATABASE_URL'', ev_source = env_platform, ev_value = '''', ev_secret = False\<rparr>]"
    by (simp add: demo_manifest_def fixture_manifest_def)
  from compile_apps_faithful [OF p]
  have "\<forall>a \<in> set (app_services p). ss_env a ''DATABASE_URL'' = Some ''postgres://''"
    by (auto simp: env env_value_def env_source_defs demo_options_def)
  with compile_apps_faithful [OF p] p show ?thesis
    by (auto simp: demo_manifest_def fixture_manifest_def)
qed

text \<open>The Compose document of a compiled plan says what the plan says: one entry per service,
  rendered field by field, no service overwritten by another; every network a service joins and every
  volume it mounts is declared, every mount is a named volume. Unless the two networks are given the same name, the Session network
  is declared internal and is not overwritten by the egress network.\<close>

theorem compose_renders_plan:
  assumes "compile u m opts = Ok p"
  shows "dom (cf_services (to_compose p)) = ss_name ` set (pl_services p) \<and>
    (\<forall>s \<in> set (pl_services p).
       cf_services (to_compose p) (ss_name s) = Some (render_service s) \<and>
       set (cs_networks (render_service s)) \<subseteq> dom (cf_networks (to_compose p)) \<and>
       (\<forall>v \<in> set (cs_volumes (render_service s)).
          cm_type v = ''volume'' \<and> cm_source v \<in> dom (cf_volumes (to_compose p)))) \<and>
    (net_of opts \<noteq> egress_net_of opts \<longrightarrow>
       cf_networks (to_compose p) (net_of opts) = Some \<lparr>cn_name = net_of opts, cn_internal = True\<rparr>)"
proof -
  from assms obtain env apps where p: "p = plan_of m opts env apps" by (auto simp: compile_Ok_iff)
  have nets: "dom (cf_networks (to_compose p)) =
      insert (net_of opts) (if m_egress m = [] then {} else {egress_net_of opts})"
    by (auto simp: p to_compose_def plan_of_def)
  have vols: "m_db m \<noteq> None \<Longrightarrow> pl_volumes p = [op_project opts @ ''-pgdata'']"
    by (simp add: p plan_of_def)
  have each: "set (ss_networks s) \<subseteq> dom (cf_networks (to_compose p)) \<and>
      vm_source ` set (ss_volumes s) \<subseteq> set (pl_volumes p)" if "s \<in> set (pl_services p)" for s
    using assms that
  proof (cases rule: plan_service_cases)
    case egress
    then show ?thesis by (auto simp: nets egress_part_def egress_proxy_service_def)
  next
    case db
    then show ?thesis by (auto simp: nets vols db_part_def db_service_def)
  next
    case (seed env)
    then show ?thesis by (auto simp: nets seed_part_def seed_service_spec_def)
  next
    case (app env svc)
    from app_service_Ok [OF app(2)] show ?thesis by (simp add: nets)
  qed
  have "net_of opts \<noteq> egress_net_of opts \<longrightarrow>
       cf_networks (to_compose p) (net_of opts) = Some \<lparr>cn_name = net_of opts, cn_internal = True\<rparr>"
    by (auto simp: p to_compose_def plan_of_def render_network_def)
  with each to_compose_services [OF plan_names_distinct [OF assms]] show ?thesis
    unfolding to_compose_services_dom to_compose_volumes_dom
    by (auto simp: render_service_def render_mount_def)
qed

theorem compose_renders_plan_witness:
  "\<exists>p. compile sample_unicode demo_manifest demo_options = Ok p \<and>
     cf_networks (to_compose p) ''s-1-net'' = Some \<lparr>cn_name = ''s-1-net'', cn_internal = True\<rparr>"
proof -
  obtain p where p: "compile sample_unicode demo_manifest demo_options = Ok p"
    using demo_compiles by blast
  with compose_renders_plan [OF p] show ?thesis by (auto simp: demo_options_def net_of_def egress_net_of_def or_default_def)
qed

end
