(* ===== verification/EgressProxy.thy ===== *)
theory EgressProxy
  imports Compile
begin

text \<open>
  The egress proxy (\<open>cmd/egress-proxy\<close>): the parse of \<open>EGRESS_ALLOWLIST\<close>, the two request
  handlers and the copying of headers. The network is a parameter, the record \<open>upstream\<close>: what
  dialling an address, taking over the client connection and a round trip yield. What a handler does
  is the value it ends with: an HTTP error, a denial, a tunnel or a forwarded exchange.
\<close>

section \<open>The allow-list\<close>

definition listen_addr :: string where
  "listen_addr = '':8888''"

definition normalize_host_port :: "string \<Rightarrow> string \<Rightarrow> string option" where
  "normalize_host_port s0 default_port =
     (let s = trim_space s0
      in if s = '''' then None
         else
           (case (case split_host_port s of
                    Some hp \<Rightarrow> Some hp
                  | None \<Rightarrow> if default_port = '''' then None else Some (s, default_port)) of
              None \<Rightarrow> None
            | Some (host, port) \<Rightarrow>
                if host = '''' \<or> contains_any host [CHR ''/'', CHR 0x5C, CHR '' ''] then None
                else (case atoi port of
                        None \<Rightarrow> None
                      | Some n \<Rightarrow> if n < 1 \<or> n > 65535 then None
                                  else Some (join_host_port host port))))"

fun parse_entries :: "string list \<Rightarrow> string set \<Rightarrow> string set" where
  "parse_entries [] allow = allow"
| "parse_entries (e # es) allow =
     (let entry = trim_space e
      in if entry = '''' then parse_entries es allow
         else (case normalize_host_port entry '''' of
                 None \<Rightarrow> parse_entries es allow
               | Some dest \<Rightarrow> parse_entries es (insert dest allow)))"

definition parse_allowlist :: "string \<Rightarrow> string set" where
  "parse_allowlist raw = parse_entries (split raw (CHR '','')) {}"

definition allowed :: "string set \<Rightarrow> string \<Rightarrow> bool" where
  "allowed allow hp \<longleftrightarrow> hp \<in> allow"

section \<open>Headers\<close>

text \<open>A header maps a canonical name to its values; the server and the transport canonicalise the
  names they parse, so \<open>Add\<close> under a copied name appends to that name.\<close>

type_synonym header = "string \<rightharpoonup> string list"

definition hop_by_hop :: "string set" where
  "hop_by_hop = {''connection'', ''proxy-connection'', ''keep-alive'', ''proxy-authenticate'',
     ''proxy-authorization'', ''te'', ''trailer'', ''transfer-encoding'', ''upgrade''}"

definition copy_header :: "unicode \<Rightarrow> header \<Rightarrow> header \<Rightarrow> header" where
  "copy_header u dst src =
     (\<lambda>k. if to_lower u k \<in> hop_by_hop then dst k
          else (case src k of
                  None \<Rightarrow> dst k
                | Some vs \<Rightarrow>
                    if vs = [] then dst k
                    else Some ((case dst k of None \<Rightarrow> [] | Some ds \<Rightarrow> ds) @ vs)))"

section \<open>The handlers\<close>

record request =
  rq_method :: string
  rq_host :: string
  rq_url_abs :: bool
  rq_url_scheme :: string
  rq_url_host :: string
  rq_header :: header

record upstream =
  up_dial :: "string \<Rightarrow> bool"
  up_hijackable :: bool
  up_hijack_ok :: bool
  up_greet_ok :: bool
  up_new_request_ok :: bool
  up_round_trip :: "string \<Rightarrow> header \<Rightarrow> (nat \<times> header) option"

datatype reply =
    HttpError nat
  | Denied string
  | Dropped string
  | Tunnelled string
  | Forwarded string header nat header

definition deny :: "string \<Rightarrow> reply" where
  "deny dest = Denied dest"

definition handle_connect :: "upstream \<Rightarrow> string set \<Rightarrow> request \<Rightarrow> reply" where
  "handle_connect up allow r =
     (case normalize_host_port (rq_host r) '''' of
        None \<Rightarrow> deny ''''
      | Some dest \<Rightarrow>
          if \<not> allowed allow dest then deny dest
          else if \<not> up_dial up dest then HttpError 502
          else if \<not> up_hijackable up then HttpError 500
          else if \<not> up_hijack_ok up then HttpError 500
          else if \<not> up_greet_ok up then Dropped dest
          else Tunnelled dest)"

definition handle_http :: "unicode \<Rightarrow> upstream \<Rightarrow> string set \<Rightarrow> request \<Rightarrow> reply" where
  "handle_http u up allow r =
     (if \<not> rq_url_abs r then HttpError 400
      else
        (case normalize_host_port (rq_url_host r) ''80'' of
           None \<Rightarrow> deny ''''
         | Some dest \<Rightarrow>
             if \<not> allowed allow dest then deny dest
             else if \<not> up_new_request_ok up then HttpError 400
             else
               let out = copy_header u Map.empty (rq_header r)
               in (case canonical_addr (rq_url_scheme r) (rq_url_host r) of
                     None \<Rightarrow> HttpError 502
                   | Some addr \<Rightarrow>
                       (case up_round_trip up addr out of
                          None \<Rightarrow> HttpError 502
                        | Some (status, hs) \<Rightarrow>
                            Forwarded addr out status (copy_header u Map.empty hs)))))"

definition serve_http :: "unicode \<Rightarrow> upstream \<Rightarrow> string set \<Rightarrow> request \<Rightarrow> reply" where
  "serve_http u up allow r =
     (if rq_method r = ''CONNECT'' then handle_connect up allow r else handle_http u up allow r)"

definition run_healthcheck :: "upstream \<Rightarrow> nat" where
  "run_healthcheck up = (if \<not> up_dial up (''127.0.0.1'' @ listen_addr) then 1 else 0)"

text \<open>\<open>main\<close>: the process either answers its healthcheck by its exit code or serves the allow-list of its environment,
  where an unset variable reads as empty. \<open>env\<close> is \<open>os.Getenv\<close>.\<close>

datatype proxy_process = Exits nat | Listens string "string set"

definition proxy_main :: "upstream \<Rightarrow> bool \<Rightarrow> (string \<Rightarrow> string) \<Rightarrow> proxy_process" where
  "proxy_main up healthcheck env =
     (if healthcheck then Exits (run_healthcheck up)
      else Listens listen_addr (parse_allowlist (env ''EGRESS_ALLOWLIST'')))"

section \<open>Lemmas\<close>

definition rule_key :: "egress_rule \<Rightarrow> string" where
  "rule_key r = eg_host r @ '':'' @ itoa (eg_port r)"

lemma alnum_solid: "alnum c \<Longrightarrow> solid c"
  by (auto simp: alnum_def solid_def char_class_defs)

lemma digit_solid: "is_digit c \<Longrightarrow> solid c"
  by (auto simp: solid_def char_class_defs)

lemma egress_host_ok_chars:
  assumes "egress_host_ok h"
  shows "plain_host h" "CHR '','' \<notin> set h" "\<not> contains_any h [CHR ''/'', CHR 0x5C, CHR '' '']"
    "h \<noteq> ''''" "solid (hd h)"
  using assms
  by (auto simp: egress_host_ok_def plain_host_def contains_any_def list_all_iff list_ex_iff alnum_def
      char_class_defs solid_def)

lemma dec_plain: "plain_host (dec n)" "CHR '','' \<notin> set (dec n)" "solid (last (dec n))"
proof -
  have d: "\<forall>c \<in> set (dec n). is_digit c" using dec_digits by (simp add: list_all_iff)
  then show "plain_host (dec n)" "CHR '','' \<notin> set (dec n)"
    by (auto simp: plain_host_def char_class_defs)
  from d show "solid (last (dec n))" using digit_solid by simp
qed

lemma rule_key_normal:
  assumes "egress_rule_ok r"
  shows "normalize_host_port (rule_key r) '''' = Some (rule_key r)"
    "trim_space (rule_key r) = rule_key r" "CHR '','' \<notin> set (rule_key r)"
proof -
  let ?n = "nat (eg_port r)"
  from assms have h: "egress_host_ok (eg_host r)" and p: "1 \<le> eg_port r" "eg_port r \<le> 65535"
    by (auto simp: egress_rule_ok_def)
  note hc = egress_host_ok_chars [OF h]
  have key: "rule_key r = eg_host r @ CHR '':'' # dec ?n"
    using p by (simp add: rule_key_def itoa_nonneg)
  show trim: "trim_space (rule_key r) = rule_key r"
    using hc dec_plain(3) by (intro trim_space_id) (simp add: key)
  show "CHR '','' \<notin> set (rule_key r)" using hc dec_plain(2) by (simp add: key)
  have "atoi (dec ?n) = Some (eg_port r)"
    using atoi_itoa [of "eg_port r"] p by (simp add: itoa_nonneg max_int64_def)
  then show "normalize_host_port (rule_key r) '''' = Some (rule_key r)"
    using hc dec_plain(1) p trim
    by (simp add: normalize_host_port_def Let_def key split_host_port_plain join_host_port_plain)
qed

lemma parse_entries_iff:
  "d \<in> parse_entries es allow \<longleftrightarrow>
     d \<in> allow \<or> (\<exists>e \<in> set es. trim_space e \<noteq> '''' \<and> normalize_host_port (trim_space e) '''' = Some d)"
  by (induction es allow rule: parse_entries.induct) (auto simp: Let_def split: option.splits)

lemma parse_allowlist_render:
  assumes "list_all egress_rule_ok rules"
  shows "parse_allowlist (render_allowlist rules) = rule_key ` set rules"
proof (cases "rules = []")
  case True
  have "trim_space '''' = ''''" by (rule trim_space_id) simp
  with True show ?thesis by (simp add: parse_allowlist_def render_allowlist_def)
next
  case False
  have ok: "egress_rule_ok r" if "r \<in> set rules" for r using assms that by (simp add: list_all_iff)
  have "split (render_allowlist rules) (CHR '','') = map rule_key rules"
    unfolding render_allowlist_def rule_key_def [symmetric]
    using False ok rule_key_normal(3) by (intro split_join) auto
  then have "d \<in> parse_allowlist (render_allowlist rules) \<longleftrightarrow> (\<exists>r \<in> set rules. d = rule_key r)" for d
    using ok rule_key_normal(1,2) by (fastforce simp: parse_allowlist_def parse_entries_iff rule_key_def)
  then show ?thesis by blast
qed

text \<open>Where a request got to, if anywhere.\<close>

fun reached :: "reply \<Rightarrow> string option" where
  "reached (Dropped d) = Some d"
| "reached (Tunnelled d) = Some d"
| "reached (Forwarded a h s hs) = Some a"
| "reached (HttpError n) = None"
| "reached (Denied d) = None"

lemma connect_reached:
  "reached (handle_connect up allow r) = Some d \<longleftrightarrow>
     normalize_host_port (rq_host r) '''' = Some d \<and> d \<in> allow
       \<and> up_dial up d \<and> up_hijackable up \<and> up_hijack_ok up"
  by (auto simp: handle_connect_def deny_def allowed_def split: option.splits if_splits)

text \<open>The host part of a URL: a host without brackets and an optional port of digits.\<close>

definition url_host_plain :: "string \<Rightarrow> bool" where
  "url_host_plain hp \<longleftrightarrow>
     trim_space hp = hp \<and>
     (plain_host hp \<or> (\<exists>h p. hp = h @ CHR '':'' # p \<and> plain_host h \<and> list_all is_digit p))"

lemma http_key_is_addr:
  assumes "url_host_plain hp" "normalize_host_port hp ''80'' = Some d"
  shows "canonical_addr ''http'' hp = Some d"
proof -
  have sp: "scheme_port ''http'' = Some ''80''" by (simp add: scheme_port_def)
  from assms(1) consider "plain_host hp"
    | h p where "hp = h @ CHR '':'' # p" "plain_host h" "list_all is_digit p"
    by (auto simp: url_host_plain_def)
  then show ?thesis
  proof cases
    case 1
    then have "split_host_port hp = None"
      by (auto simp: plain_host_def intro: split_host_port_noport)
    with assms 1 have "d = hp @ CHR '':'' # ''80''"
      by (auto simp: normalize_host_port_def url_host_plain_def Let_def join_host_port_plain
          split: option.splits if_splits)
    with canonical_addr_noport [OF 1 sp] show ?thesis by simp
  next
    case 2
    from 2(3) have "plain_host p" by (auto simp: plain_host_def list_all_iff char_class_defs)
    with 2 have "split_host_port hp = Some (h, p)" by (simp add: split_host_port_plain)
    with assms have "d = join_host_port h p" "p \<noteq> ''''"
      by (auto simp: normalize_host_port_def url_host_plain_def Let_def atoi_def
          split: option.splits if_splits)
    with canonical_addr_port [OF 2(2,3) _ sp] 2 show ?thesis by (simp add: join_host_port_plain)
  qed
qed

lemma http_reached:
  assumes "reached (handle_http u up allow r) = Some a" "rq_url_scheme r = ''http''"
    "url_host_plain (rq_url_host r)"
  shows "a \<in> allow"
proof -
  from assms(1) obtain d where d: "normalize_host_port (rq_url_host r) ''80'' = Some d" "d \<in> allow"
    and a: "canonical_addr (rq_url_scheme r) (rq_url_host r) = Some a"
    by (auto simp: handle_http_def deny_def allowed_def Let_def split: option.splits if_splits)
  from http_key_is_addr [OF assms(3) d(1)] a d(2) assms(2) show ?thesis by simp
qed

lemma compiled_allowlist:
  assumes "compile u m opts = Ok p" "s \<in> set (pl_services p)" "ss_name s = egress_service_name"
    "ss_env s ''EGRESS_ALLOWLIST'' = Some raw"
  shows "raw = render_allowlist (m_egress m)"
  using assms(1,2)
proof (cases rule: plan_service_cases)
  case egress
  with assms(4) show ?thesis
    by (simp add: egress_part_def egress_proxy_service_def split: if_splits)
next
  case db
  with assms(3) show ?thesis
    by (auto simp: db_part_def db_service_def platform_name_defs)
next
  case (seed env)
  with assms(3) show ?thesis by (auto simp: seed_part_def seed_service_spec_def platform_name_defs)
next
  case (app env svc)
  from assms(1) have "valid_manifest u m" by (simp add: compile_Ok_iff)
  from app_names_not_reserved [OF this app(1)] app_service_Ok(1) [OF app(2)] assms(3)
  show ?thesis by (simp add: reserved_service_names_def)
qed

lemma egress_service_in_plan:
  assumes "compile u m opts = Ok p" "m_egress m \<noteq> []"
  obtains s where "s \<in> set (pl_services p)" "ss_name s = egress_service_name"
    "ss_env s ''EGRESS_ALLOWLIST'' = Some (render_allowlist (m_egress m))"
proof -
  from assms obtain env apps where "p = plan_of m opts env apps" by (auto simp: compile_Ok_iff)
  with assms(2) have "set (egress_part m opts) \<subseteq> set (pl_services p)" by (simp add: plan_of_def)
  with assms(2) that show ?thesis by (simp add: egress_part_def egress_proxy_service_def)
qed

text \<open>The process a Stack starts as its egress service serves exactly the declared destinations; one that is
  started without them serves none.\<close>

lemma sidecar_listens:
  assumes "compile u m opts = Ok p" "s \<in> set (pl_services p)" "ss_name s = egress_service_name"
    "ss_env s ''EGRESS_ALLOWLIST'' = Some (env ''EGRESS_ALLOWLIST'')"
  shows "proxy_main up False env = Listens listen_addr (rule_key ` set (m_egress m))"
  using compiled_allowlist [OF assms] parse_allowlist_render [of "m_egress m"] assms(1)
  by (simp add: proxy_main_def compile_Ok_iff valid_manifest_def)

lemma unset_listens: "env ''EGRESS_ALLOWLIST'' = '''' \<Longrightarrow> proxy_main up False env = Listens listen_addr {}"
  using parse_allowlist_render [of "[]"] by (simp add: proxy_main_def render_allowlist_def)

section \<open>Properties\<close>

text \<open>C40: the compiler and the proxy agree on the wire form: for a well-formed contract the proxy
  reads back from \<open>EGRESS_ALLOWLIST\<close> exactly the declared destinations, no more and no fewer.\<close>

theorem allowlist_roundtrip:
  assumes "valid_manifest u m"
  shows "parse_allowlist (render_allowlist (m_egress m)) = rule_key ` set (m_egress m)"
  using assms by (intro parse_allowlist_render) (simp add: valid_manifest_def)

theorem allowlist_roundtrip_witness:
  "parse_allowlist (render_allowlist (m_egress demo_manifest)) = {''api.x:443''}"
  using allowlist_roundtrip [OF demo_manifest_valid [of sample_unicode]]
  by (simp add: demo_manifest_def rule_key_def itoa_nonneg dec.simps digit_char_def char_of_eq_iff)

text \<open>What a Session can reach from outside its network. In the Stack of any contract, the
  proxy running with its compiled environment tunnels a \<open>CONNECT\<close> only to a declared destination,
  and forwards a plain \<open>http\<close> request only to one; a declared destination that can be dialled is
  reached.\<close>

theorem egress_only_declared:
  assumes "compile u m opts = Ok p" "s \<in> set (pl_services p)" "ss_name s = egress_service_name"
    "ss_env s ''EGRESS_ALLOWLIST'' = Some raw"
  shows "(rq_method r = ''CONNECT'' \<or> rq_url_scheme r = ''http'' \<and> url_host_plain (rq_url_host r) \<longrightarrow>
            reached (serve_http u up (parse_allowlist raw) r) = Some d \<longrightarrow>
            (\<exists>e \<in> set (m_egress m). d = rule_key e)) \<and>
         (e \<in> set (m_egress m) \<and> rq_method r = ''CONNECT'' \<and> rq_host r = rule_key e \<and>
            up_dial up (rule_key e) \<and> up_hijackable up \<and> up_hijack_ok up \<longrightarrow>
            reached (serve_http u up (parse_allowlist raw) r) = Some (rule_key e))"
proof -
  have v: "list_all egress_rule_ok (m_egress m)"
    using assms(1) by (simp add: compile_Ok_iff valid_manifest_def)
  have "raw = render_allowlist (m_egress m)" by (rule compiled_allowlist [OF assms])
  with parse_allowlist_render [OF v] have allow: "parse_allowlist raw = rule_key ` set (m_egress m)"
    by simp
  have norm: "normalize_host_port (rule_key e) '''' = Some (rule_key e)" if "e \<in> set (m_egress m)" for e
    using v that rule_key_normal(1) by (simp add: list_all_iff)
  have connect: "reached (handle_connect up (parse_allowlist raw) r) = Some d \<Longrightarrow>
      \<exists>e \<in> set (m_egress m). d = rule_key e"
    by (auto simp: connect_reached allow)
  have http: "rq_url_scheme r = ''http'' \<Longrightarrow> url_host_plain (rq_url_host r) \<Longrightarrow>
      reached (handle_http u up (parse_allowlist raw) r) = Some d \<Longrightarrow>
      \<exists>e \<in> set (m_egress m). d = rule_key e"
    using http_reached [of u up "parse_allowlist raw" r d] by (auto simp: allow)
  have conv: "e \<in> set (m_egress m) \<Longrightarrow> rq_host r = rule_key e \<Longrightarrow> up_dial up (rule_key e) \<Longrightarrow>
      up_hijackable up \<Longrightarrow> up_hijack_ok up \<Longrightarrow>
      reached (handle_connect up (parse_allowlist raw) r) = Some (rule_key e)"
    using norm by (simp add: connect_reached allow)
  from connect http conv show ?thesis by (simp add: serve_http_def)
qed

definition open_upstream :: upstream where
  "open_upstream = \<lparr>up_dial = (\<lambda>_. True), up_hijackable = True, up_hijack_ok = True, up_greet_ok = True,
     up_new_request_ok = True, up_round_trip = (\<lambda>_ _. Some (200, Map.empty))\<rparr>"

definition connect_request :: "string \<Rightarrow> request" where
  "connect_request host = \<lparr>rq_method = ''CONNECT'', rq_host = host, rq_url_abs = False,
     rq_url_scheme = '''', rq_url_host = host, rq_header = Map.empty\<rparr>"

theorem egress_only_declared_witness:
  "\<exists>p s raw. compile sample_unicode demo_manifest demo_options = Ok p \<and> s \<in> set (pl_services p) \<and>
     ss_env s ''EGRESS_ALLOWLIST'' = Some raw \<and>
     reached (serve_http sample_unicode open_upstream (parse_allowlist raw)
       (connect_request ''api.x:443'')) = Some ''api.x:443''"
proof -
  obtain p where p: "compile sample_unicode demo_manifest demo_options = Ok p"
    using demo_compiles by blast
  obtain s where s: "s \<in> set (pl_services p)" "ss_name s = egress_service_name"
    "ss_env s ''EGRESS_ALLOWLIST'' = Some (render_allowlist (m_egress demo_manifest))"
    using egress_service_in_plan [OF p] by (auto simp: demo_manifest_def)
  have key: "rule_key \<lparr>eg_host = ''api.x'', eg_port = 443\<rparr> = ''api.x:443''"
    by (simp add: rule_key_def itoa_nonneg dec.simps digit_char_def char_of_eq_iff)
  have e: "\<lparr>eg_host = ''api.x'', eg_port = 443\<rparr> \<in> set (m_egress demo_manifest)"
    by (simp add: demo_manifest_def)
  from egress_only_declared [OF p s, of "connect_request ''api.x:443''" open_upstream _
      "\<lparr>eg_host = ''api.x'', eg_port = 443\<rparr>"] e
  have "reached (serve_http sample_unicode open_upstream
      (parse_allowlist (render_allowlist (m_egress demo_manifest)))
      (connect_request ''api.x:443'')) = Some ''api.x:443''"
    by (simp add: key connect_request_def open_upstream_def)
  with p s show ?thesis by blast
qed

text \<open>The port an absolute-URL request is checked for is always 80 when the URL names none, but
  the transport dials the scheme's port. With only \<open>h:80\<close> on the list, a request for
  \<open>https://h/\<close> passes the check and is forwarded to \<open>h:443\<close>, which is not on the list.\<close>

theorem https_request_escapes_allowlist:
  assumes "egress_host_ok h" "rq_url_abs r" "rq_method r \<noteq> ''CONNECT''"
    "rq_url_scheme r = ''https''" "rq_url_host r = h" "up_new_request_ok up"
    "up_round_trip up (h @ '':443'') (copy_header u Map.empty (rq_header r)) = Some (st, hs)"
  shows "reached (serve_http u up {h @ '':80''} r) = Some (h @ '':443'') \<and> h @ '':443'' \<notin> {h @ '':80''}"
proof -
  note hc = egress_host_ok_chars [OF assms(1)]
  have "alnum (last h)" using assms(1) by (simp add: egress_host_ok_def)
  then have "trim_space h = h" using hc alnum_solid by (intro trim_space_id) simp
  moreover have "split_host_port h = None"
    using hc by (auto simp: plain_host_def intro: split_host_port_noport)
  moreover have "atoi ''80'' = Some 80"
    by (simp add: atoi_def is_digit_def byte_def max_int64_def)
  ultimately have "normalize_host_port h ''80'' = Some (h @ '':80'')"
    using hc by (simp add: normalize_host_port_def Let_def join_host_port_plain)
  moreover have "canonical_addr ''https'' h = Some (h @ '':443'')"
    using canonical_addr_noport [OF hc(1)] by (simp add: scheme_port_def)
  ultimately show ?thesis
    using assms by (simp add: serve_http_def handle_http_def allowed_def Let_def)
qed

definition https_request :: "string \<Rightarrow> request" where
  "https_request host = \<lparr>rq_method = ''GET'', rq_host = host, rq_url_abs = True,
     rq_url_scheme = ''https'', rq_url_host = host, rq_header = Map.empty\<rparr>"

theorem https_request_escapes_allowlist_witness:
  "reached (serve_http sample_unicode open_upstream {''api.x:80''} (https_request ''api.x'')) =
     Some ''api.x:443''"
proof -
  have "egress_host_ok ''api.x''" by (simp add: egress_host_ok_def alnum_def char_class_defs)
  from https_request_escapes_allowlist [OF this, of "https_request ''api.x''" open_upstream sample_unicode]
  show ?thesis by (simp add: https_request_def open_upstream_def)
qed

text \<open>A denied destination gets no connection: whatever reaches the network was on the list
  under its normalised name, a proxy with an unreadable or empty list reaches nothing, and hop-by-hop
  headers never cross it while every other header crosses unchanged.\<close>

theorem deny_by_default:
  "reached (serve_http u up {} r) = None \<and>
   (reached (handle_connect up allow r) = Some d \<longrightarrow>
      d \<in> allow \<and> normalize_host_port (rq_host r) '''' = Some d) \<and>
   (case handle_http u up allow r of
      Forwarded addr sent status back_header \<Rightarrow>
        (\<forall>k. if to_lower u k \<in> hop_by_hop then sent k = None \<and> back_header k = None
             else sent k = (case rq_header r k of Some [] \<Rightarrow> None | vs \<Rightarrow> vs))
    | _ \<Rightarrow> True)"
proof (intro conjI)
  show "reached (serve_http u up {} r) = None"
    by (auto simp: serve_http_def handle_connect_def handle_http_def deny_def allowed_def
        split: option.splits)
  show "reached (handle_connect up allow r) = Some d \<longrightarrow>
      d \<in> allow \<and> normalize_host_port (rq_host r) '''' = Some d"
    by (simp add: connect_reached)
  show "case handle_http u up allow r of
      Forwarded addr sent status back_header \<Rightarrow>
        (\<forall>k. if to_lower u k \<in> hop_by_hop then sent k = None \<and> back_header k = None
             else sent k = (case rq_header r k of Some [] \<Rightarrow> None | vs \<Rightarrow> vs))
    | _ \<Rightarrow> True"
    by (auto simp: handle_http_def deny_def Let_def copy_header_def
        split: option.splits list.splits if_splits)
qed

theorem deny_by_default_witness:
  "reached (handle_connect open_upstream {''api.x:443''} (connect_request ''api.x:443'')) = Some ''api.x:443''
     \<and> ''api.x:443'' \<in> {''api.x:443''}"
proof -
  have key: "rule_key \<lparr>eg_host = ''api.x'', eg_port = 443\<rparr> = ''api.x:443''"
    by (simp add: rule_key_def itoa_nonneg dec.simps digit_char_def char_of_eq_iff)
  have n: "normalize_host_port ''api.x:443'' '''' = Some ''api.x:443''"
    using rule_key_normal(1) [of "\<lparr>eg_host = ''api.x'', eg_port = 443\<rparr>"] unfolding key
    by (simp add: egress_rule_ok_def egress_host_ok_def alnum_def char_class_defs)
  have "reached (handle_connect open_upstream {''api.x:443''} (connect_request ''api.x:443'')) = Some ''api.x:443''"
    unfolding connect_reached using n by (simp add: connect_request_def open_upstream_def)
  with deny_by_default [of sample_unicode open_upstream "connect_request ''api.x:443''" "{''api.x:443''}" "''api.x:443''"]
  show ?thesis by blast
qed

end
