(* ===== verification/Registry.thy ===== *)
theory Registry
  imports EgressProxy "HOL-Library.AList" "HOL-Library.Multiset"
begin

text \<open>
  The registry of Session routes (\<open>internal/proxy/proxy.go\<close>). The Go map is an association list
  with distinct keys; its order stands for the unspecified iteration order of the map, and the
  properties do not depend on it. The registry's mutex makes every operation one step.
\<close>

section \<open>A store with keys\<close>

text \<open>What the clients of a keyed store rely on: lookups after writes, and the list of its keys.\<close>

locale keyed_store =
  fixes inv :: "'s \<Rightarrow> bool"
    and lookup :: "'s \<Rightarrow> 'k \<Rightarrow> 'v option"
    and put :: "'k \<Rightarrow> 'v \<Rightarrow> 's \<Rightarrow> 's"
    and remove :: "'k \<Rightarrow> 's \<Rightarrow> 's"
    and keys :: "'s \<Rightarrow> 'k list"
  assumes inv_put: "inv s \<Longrightarrow> inv (put k v s)"
    and inv_remove: "inv s \<Longrightarrow> inv (remove k s)"
    and lookup_put: "inv s \<Longrightarrow> lookup (put k v s) k' = (if k' = k then Some v else lookup s k')"
    and lookup_remove: "inv s \<Longrightarrow> lookup (remove k s) k' = (if k' = k then None else lookup s k')"
    and keys_lookup: "inv s \<Longrightarrow> set (keys s) = {k. lookup s k \<noteq> None}"
    and keys_distinct: "inv s \<Longrightarrow> distinct (keys s)"
begin

lemma length_keys: "inv s \<Longrightarrow> length (keys s) = card {k. lookup s k \<noteq> None}"
  using keys_lookup keys_distinct distinct_card by metis

lemma finite_keys: "inv s \<Longrightarrow> finite {k. lookup s k \<noteq> None}"
  using keys_lookup [of s] by (metis List.finite_set)

lemma length_put:
  assumes "inv s"
  shows "length (keys (put k v s)) = length (keys s) + (if lookup s k = None then 1 else 0)"
proof -
  have "{k'. lookup (put k v s) k' \<noteq> None} = insert k {k. lookup s k \<noteq> None}"
    using assms by (auto simp: lookup_put)
  moreover have "lookup s k \<noteq> None \<Longrightarrow> insert k {k. lookup s k \<noteq> None} = {k. lookup s k \<noteq> None}"
    by (rule insert_absorb) simp
  ultimately show ?thesis
    using assms finite_keys [of s] by (auto simp: length_keys inv_put)
qed

lemma length_remove:
  assumes "inv s"
  shows "length (keys (remove k s)) = length (keys s) - (if lookup s k = None then 0 else 1)"
proof -
  have "{k'. lookup (remove k s) k' \<noteq> None} = {k. lookup s k \<noteq> None} - {k}"
    using assms by (auto simp: lookup_remove)
  then show ?thesis
    using assms finite_keys [of s] by (simp add: length_keys inv_remove card_Diff_singleton_if)
qed

lemma remove_put_same:
  "inv s \<Longrightarrow> lookup s k = None \<Longrightarrow> lookup (remove k (put k v s)) = lookup s"
  by (rule ext) (auto simp: lookup_put lookup_remove inv_put)

end

section \<open>Routes\<close>

datatype state = Booting | Live | Failed | Crashed

text \<open>The states are the integers of \<open>iota\<close>, in this order.\<close>

fun state_num :: "state \<Rightarrow> nat" where
  "state_num Booting = 0"
| "state_num Live = 1"
| "state_num Failed = 2"
| "state_num Crashed = 3"

lemma state_num_inject [simp]: "state_num a = state_num b \<longleftrightarrow> a = b"
  by (cases a; cases b) simp_all

instantiation state :: linorder
begin

definition less_eq_state :: "state \<Rightarrow> state \<Rightarrow> bool" where
  "less_eq_state a b \<longleftrightarrow> state_num a \<le> state_num b"

definition less_state :: "state \<Rightarrow> state \<Rightarrow> bool" where
  "less_state a b \<longleftrightarrow> state_num a < state_num b"

instance
  by standard (auto simp: less_eq_state_def less_state_def)

end

definition terminal :: "state \<Rightarrow> bool" where
  "terminal s \<longleftrightarrow> s = Failed \<or> s = Crashed"

lemma terminal_iff_ge: "terminal s \<longleftrightarrow> Failed \<le> s"
  by (cases s) (simp_all add: terminal_def less_eq_state_def)

record backend =
  be_prefix :: string
  be_url :: string

definition no_backend :: backend where
  "no_backend = \<lparr>be_prefix = '''', be_url = ''''\<rparr>"

record route =
  rt_session :: string
  rt_host :: string
  rt_state :: state
  rt_ui :: backend
  rt_apis :: "backend list"

record registry =
  rg_domain :: string
  rg_routes :: "(string \<times> route) list"

definition new_registry :: "string \<Rightarrow> registry" where
  "new_registry domain = \<lparr>rg_domain = domain, rg_routes = []\<rparr>"

definition reg_host :: "registry \<Rightarrow> string \<Rightarrow> string" where
  "reg_host r sid = ''s-'' @ sid @ ''.run.'' @ rg_domain r"

definition reg_put :: "string \<Rightarrow> route \<Rightarrow> registry \<Rightarrow> registry" where
  "reg_put sid rt r = r\<lparr>rg_routes := AList.update sid rt (rg_routes r)\<rparr>"

definition reg_get :: "registry \<Rightarrow> string \<Rightarrow> route option" where
  "reg_get r sid = map_of (rg_routes r) sid"

definition booting_route :: "registry \<Rightarrow> string \<Rightarrow> backend \<Rightarrow> backend list \<Rightarrow> route" where
  "booting_route r sid ui apis =
     \<lparr>rt_session = sid, rt_host = reg_host r sid, rt_state = Booting, rt_ui = ui, rt_apis = apis\<rparr>"

definition reg_add :: "string \<Rightarrow> backend \<Rightarrow> backend list \<Rightarrow> registry \<Rightarrow> registry \<times> route" where
  "reg_add sid ui apis r =
     (let route = booting_route r sid ui apis in (reg_put sid route r, route))"

definition reg_promote :: "string \<Rightarrow> registry \<Rightarrow> registry \<times> bool" where
  "reg_promote sid r =
     (case reg_get r sid of
        None \<Rightarrow> (r, False)
      | Some route \<Rightarrow> (reg_put sid (route\<lparr>rt_state := Live\<rparr>) r, True))"

definition reg_remove :: "string \<Rightarrow> registry \<Rightarrow> registry" where
  "reg_remove sid r = r\<lparr>rg_routes := AList.delete sid (rg_routes r)\<rparr>"

definition reg_fail :: "string \<Rightarrow> state \<Rightarrow> registry \<Rightarrow> registry" where
  "reg_fail sid st r =
     (let route = (case reg_get r sid of
                     Some rt \<Rightarrow> rt
                   | None \<Rightarrow> \<lparr>rt_session = sid, rt_host = reg_host r sid, rt_state = Booting,
                              rt_ui = no_backend, rt_apis = []\<rparr>)
      in reg_put sid (route\<lparr>rt_state := st, rt_ui := no_backend, rt_apis := []\<rparr>) r)"

definition reg_len :: "registry \<Rightarrow> nat" where
  "reg_len r = length (rg_routes r)"

definition session_id_from_host :: "unicode \<Rightarrow> registry \<Rightarrow> string \<Rightarrow> string" where
  "session_id_from_host u r host0 =
     (let host1 = (case split_host_port host0 of Some (h, p) \<Rightarrow> h | None \<Rightarrow> host0);
          host = to_lower u host1
      in case cut_suffix host (''.run.'' @ rg_domain r) of
           None \<Rightarrow> ''''
         | Some rest \<Rightarrow> (case cut_prefix rest ''s-'' of None \<Rightarrow> '''' | Some sid \<Rightarrow> sid))"

text \<open>\<open>None\<close> stands for the result \<open>(0, false)\<close>.\<close>

definition state_by_host :: "unicode \<Rightarrow> registry \<Rightarrow> string \<Rightarrow> state option" where
  "state_by_host u r host =
     (let sid = session_id_from_host u r host
      in if sid = '''' then None else map_option rt_state (reg_get r sid))"

section \<open>Ordered snapshots\<close>

text \<open>The inner loop moves the route at position \<open>j\<close> down past greater ones by swaps; the outer
  loop runs it for each position.\<close>

fun sift :: "nat \<Rightarrow> route list \<Rightarrow> route list" where
  "sift 0 rs = rs"
| "sift (Suc j) rs =
     (if rt_session (rs ! Suc j) < rt_session (rs ! j)
      then sift j (rs[j := rs ! Suc j, Suc j := rs ! j])
      else rs)"

definition sort_routes :: "route list \<Rightarrow> route list" where
  "sort_routes rs = foldl (\<lambda>xs i. sift i xs) rs [1..<length rs]"

definition snapshot :: "registry \<Rightarrow> route list" where
  "snapshot r = sort_routes (map snd (rg_routes r))"

definition reg_list :: "registry \<Rightarrow> route list" where
  "reg_list r = snapshot r"

section \<open>The registry is a keyed store\<close>

definition reg_distinct :: "registry \<Rightarrow> bool" where
  "reg_distinct r \<longleftrightarrow> distinct (map fst (rg_routes r))"

definition reg_ids :: "registry \<Rightarrow> string list" where
  "reg_ids r = map fst (rg_routes r)"

interpretation routes: keyed_store reg_distinct reg_get reg_put reg_remove reg_ids
  by unfold_locales
    (auto simp: reg_distinct_def reg_put_def reg_remove_def reg_get_def reg_ids_def distinct_update
      distinct_delete update_conv' delete_conv' dom_map_of_conv_image_fst map_of_eq_None_iff)

text \<open>A well-formed registry: distinct keys, every route under its own id and host, a route in a
  terminal state without backends.\<close>

definition route_ok :: "registry \<Rightarrow> string \<Rightarrow> route \<Rightarrow> bool" where
  "route_ok r sid rt \<longleftrightarrow>
     rt_session rt = sid \<and> rt_host rt = reg_host r sid \<and>
     (terminal (rt_state rt) \<longrightarrow> rt_ui rt = no_backend \<and> rt_apis rt = [])"

definition reg_ok :: "registry \<Rightarrow> bool" where
  "reg_ok r \<longleftrightarrow> reg_distinct r \<and> (\<forall>sid rt. reg_get r sid = Some rt \<longrightarrow> route_ok r sid rt)"

lemma reg_put_domain [simp]: "rg_domain (reg_put sid rt r) = rg_domain r"
  "reg_host (reg_put sid rt r) = reg_host r"
  by (simp_all add: reg_put_def reg_host_def fun_eq_iff)

lemma reg_remove_domain [simp]: "rg_domain (reg_remove sid r) = rg_domain r"
  "reg_host (reg_remove sid r) = reg_host r"
  by (simp_all add: reg_remove_def reg_host_def fun_eq_iff)

lemma route_ok_put [simp]: "route_ok (reg_put sid rt r) = route_ok r"
  by (simp add: route_ok_def fun_eq_iff)

lemma route_ok_remove [simp]: "route_ok (reg_remove sid r) = route_ok r"
  by (simp add: route_ok_def fun_eq_iff)

lemma reg_ok_put [wf_intros]: "reg_ok r \<Longrightarrow> route_ok r sid rt \<Longrightarrow> reg_ok (reg_put sid rt r)"
  by (auto simp: reg_ok_def routes.inv_put routes.lookup_put split: if_splits)

lemma reg_ok_remove [wf_intros]: "reg_ok r \<Longrightarrow> reg_ok (reg_remove sid r)"
  by (auto simp: reg_ok_def routes.inv_remove routes.lookup_remove split: if_splits)

lemma reg_ok_new [wf_intros]: "reg_ok (new_registry d)"
  by (simp add: reg_ok_def reg_distinct_def reg_get_def new_registry_def)

lemma reg_ok_add [wf_intros]: "reg_ok r \<Longrightarrow> reg_ok (fst (reg_add sid ui apis r))"
  by (simp add: reg_add_def Let_def booting_route_def route_ok_def terminal_def reg_ok_put)

lemma reg_ok_promote [wf_intros]: "reg_ok r \<Longrightarrow> reg_ok (fst (reg_promote sid r))"
  by (auto simp: reg_promote_def split: option.split intro!: reg_ok_put)
    (auto simp: reg_ok_def route_ok_def terminal_def)

lemma reg_ok_fail [wf_intros]:
  assumes "reg_ok r"
  shows "reg_ok (reg_fail sid st r)"
proof -
  let ?rt = "case reg_get r sid of Some rt \<Rightarrow> rt
     | None \<Rightarrow> \<lparr>rt_session = sid, rt_host = reg_host r sid, rt_state = Booting,
                rt_ui = no_backend, rt_apis = []\<rparr>"
  have "rt_session ?rt = sid" "rt_host ?rt = reg_host r sid"
    using assms by (auto simp: reg_ok_def route_ok_def split: option.split)
  then show ?thesis
    using assms unfolding reg_fail_def Let_def
    by (intro reg_ok_put) (simp_all add: route_ok_def)
qed

lemma reg_get_ops:
  assumes "reg_distinct r"
  shows "reg_get (fst (reg_add sid ui apis r)) k = (if k = sid then Some (booting_route r sid ui apis) else reg_get r k)"
    "reg_get (reg_remove sid r) k = (if k = sid then None else reg_get r k)"
    "reg_get (fst (reg_promote sid r)) k =
       (if k = sid then map_option (\<lambda>rt. rt\<lparr>rt_state := Live\<rparr>) (reg_get r sid) else reg_get r k)"
    "k \<noteq> sid \<Longrightarrow> reg_get (reg_fail sid st r) k = reg_get r k"
    "\<exists>rt. reg_get (reg_fail sid st r) sid = Some rt \<and> rt_state rt = st \<and> rt_ui rt = no_backend \<and> rt_apis rt = []"
  using assms
  by (auto simp: reg_add_def reg_promote_def reg_fail_def Let_def routes.lookup_put
      routes.lookup_remove split: option.split)

lemma reg_len_ids: "reg_len r = length (reg_ids r)"
  by (simp add: reg_len_def reg_ids_def)

lemma reg_len_ops:
  assumes "reg_distinct r"
  shows "reg_len (reg_put sid rt r) = reg_len r + (if reg_get r sid = None then 1 else 0)"
    "reg_len (reg_remove sid r) = reg_len r - (if reg_get r sid = None then 0 else 1)"
  using assms by (simp_all add: reg_len_ids routes.length_put routes.length_remove)

section \<open>The order of a snapshot\<close>

lemma length_sift [simp]: "length (sift j rs) = length rs"
  by (induction j rs rule: sift.induct) auto

lemma sift_insert:
  "\<exists>us vs. ys = us @ vs \<and> sift (length ys) (ys @ x # zs) = us @ x # vs @ zs \<and>
     (us = [] \<or> rt_session (last us) \<le> rt_session x) \<and> (\<forall>v \<in> set vs. rt_session x < rt_session v)"
proof (induction ys arbitrary: zs rule: rev_induct)
  case (snoc y ys)
  show ?case
  proof (cases "rt_session x < rt_session y")
    case True
    have "sift (length (ys @ [y])) ((ys @ [y]) @ x # zs) = sift (length ys) (ys @ x # y # zs)"
      using True by (simp add: nth_append list_update_append)
    moreover from snoc.IH [of "y # zs"] obtain us vs where
      "ys = us @ vs" "sift (length ys) (ys @ x # y # zs) = us @ x # vs @ y # zs"
      "us = [] \<or> rt_session (last us) \<le> rt_session x" "\<forall>v \<in> set vs. rt_session x < rt_session v"
      by blast
    ultimately show ?thesis using True by (intro exI [of _ us] exI [of _ "vs @ [y]"]) simp
  next
    case False
    then have "sift (length (ys @ [y])) ((ys @ [y]) @ x # zs) = (ys @ [y]) @ x # zs"
      by (simp add: nth_append)
    with False show ?thesis
      by (intro exI [of _ "ys @ [y]"] exI [of _ "[]"]) (simp add: not_less)
  qed
qed simp

lemma sift_sorted:
  assumes "sorted (map rt_session ys)"
  shows "\<exists>ws. sift (length ys) (ys @ x # zs) = ws @ zs \<and> sorted (map rt_session ws)
    \<and> mset ws = add_mset x (mset ys) \<and> length ws = Suc (length ys)"
proof -
  obtain us vs where uv: "ys = us @ vs" "sift (length ys) (ys @ x # zs) = us @ x # vs @ zs"
    "us = [] \<or> rt_session (last us) \<le> rt_session x" "\<forall>v \<in> set vs. rt_session x < rt_session v"
    using sift_insert by blast
  have "\<forall>u \<in> set us. rt_session u \<le> rt_session x"
  proof (cases us rule: rev_cases)
    case (snoc us' u)
    with assms uv(1) have "\<forall>w \<in> set us'. rt_session w \<le> rt_session u" by (simp add: sorted_append)
    with snoc uv(3) show ?thesis by auto
  qed simp
  with assms uv(1,4) have "sorted (map rt_session (us @ x # vs))"
    by (auto simp: sorted_append intro: less_imp_le order_trans)
  with uv(1,2) show ?thesis by (intro exI [of _ "us @ x # vs"]) simp
qed

lemma sort_routes_prefix:
  assumes "n \<le> length rs" "0 < n"
  shows "\<exists>ws. foldl (\<lambda>xs i. sift i xs) rs [1..<n] = ws @ drop n rs \<and> length ws = n
    \<and> sorted (map rt_session ws) \<and> mset ws = mset (take n rs)"
  using assms
proof (induction n)
  case (Suc n)
  show ?case
  proof (cases "n = 0")
    case True
    with Suc.prems show ?thesis by (intro exI [of _ "take 1 rs"]) (cases rs; simp)
  next
    case False
    with Suc obtain ws where ws: "foldl (\<lambda>xs i. sift i xs) rs [1..<n] = ws @ drop n rs" "length ws = n"
      "sorted (map rt_session ws)" "mset ws = mset (take n rs)"
      by auto
    from Suc.prems have d: "drop n rs = rs ! n # drop (Suc n) rs" by (simp add: Cons_nth_drop_Suc)
    from sift_sorted [OF ws(3), of "rs ! n" "drop (Suc n) rs"] ws(2) obtain vs where
      "sift n (ws @ rs ! n # drop (Suc n) rs) = vs @ drop (Suc n) rs" "sorted (map rt_session vs)"
      "mset vs = add_mset (rs ! n) (mset ws)" "length vs = Suc n"
      by auto
    with ws d False Suc.prems show ?thesis
      by (intro exI [of _ vs]) (simp add: take_Suc_conv_app_nth)
  qed
qed simp

lemma sort_routes_sorted: "sorted (map rt_session (sort_routes rs))"
  and sort_routes_mset: "mset (sort_routes rs) = mset rs"
proof -
  have "sorted (map rt_session (sort_routes rs)) \<and> mset (sort_routes rs) = mset rs"
  proof (cases "rs = []")
    case True
    then show ?thesis by (simp add: sort_routes_def)
  next
    case False
    with sort_routes_prefix [of "length rs" rs] show ?thesis by (auto simp: sort_routes_def)
  qed
  then show "sorted (map rt_session (sort_routes rs))" "mset (sort_routes rs) = mset rs" by simp_all
qed

lemma reg_ok_routes:
  assumes "reg_ok r"
  shows "distinct (map rt_session (map snd (rg_routes r)))"
    and "rt \<in> set (map snd (rg_routes r)) \<longleftrightarrow> reg_get r (rt_session rt) = Some rt"
proof -
  have d: "distinct (map fst (rg_routes r))" using assms by (simp add: reg_ok_def reg_distinct_def)
  have key: "rt_session v = k" if "(k, v) \<in> set (rg_routes r)" for k v
    using assms that d by (auto simp: reg_ok_def route_ok_def reg_get_def)
  have "map rt_session (map snd (rg_routes r)) = map fst (rg_routes r)"
    using key by (auto simp: map_eq_conv)
  with d show "distinct (map rt_session (map snd (rg_routes r)))" by (simp only:)
  show "rt \<in> set (map snd (rg_routes r)) \<longleftrightarrow> reg_get r (rt_session rt) = Some rt"
  proof
    assume "rt \<in> set (map snd (rg_routes r))"
    then obtain k where "(k, rt) \<in> set (rg_routes r)" by auto
    with key d show "reg_get r (rt_session rt) = Some rt" by (auto simp: reg_get_def)
  next
    assume "reg_get r (rt_session rt) = Some rt"
    then have "(rt_session rt, rt) \<in> set (rg_routes r)" unfolding reg_get_def by (rule map_of_SomeD)
    then show "rt \<in> set (map snd (rg_routes r))" by force
  qed
qed

lemma set_snapshot: "set (snapshot r) = set (map snd (rg_routes r))"
  using sort_routes_mset [of "map snd (rg_routes r)"] by (metis snapshot_def set_mset_mset)

lemma snapshot_mem: "reg_ok r \<Longrightarrow> rt \<in> set (snapshot r) \<longleftrightarrow> reg_get r (rt_session rt) = Some rt"
  using set_snapshot reg_ok_routes(2) by blast

lemma snapshot_sorted: "sorted (map rt_session (snapshot r))"
  by (simp add: snapshot_def sort_routes_sorted)

lemma snapshot_distinct:
  assumes "reg_ok r"
  shows "distinct (map rt_session (snapshot r))"
proof -
  have "mset (map rt_session (snapshot r)) = mset (map rt_session (map snd (rg_routes r)))"
    unfolding mset_map by (simp only: snapshot_def sort_routes_mset mset_map)
  with reg_ok_routes(1) [OF assms] show ?thesis using mset_eq_imp_distinct_iff by blast
qed

lemma snapshot_unique:
  assumes "reg_ok r" "reg_ok r'" "reg_get r = reg_get r'"
  shows "snapshot r = snapshot r'"
proof (rule map_sorted_distinct_set_unique)
  have "a = b" if "a \<in> set (snapshot r) \<union> set (snapshot r')"
    "b \<in> set (snapshot r) \<union> set (snapshot r')" "rt_session a = rt_session b" for a b
  proof -
    from that(1,2) have "reg_get r (rt_session a) = Some a" "reg_get r (rt_session b) = Some b"
      unfolding Un_iff snapshot_mem [OF assms(1)] snapshot_mem [OF assms(2)] assms(3) by blast+
    with that(3) show ?thesis by (metis option.inject)
  qed
  then show "inj_on rt_session (set (snapshot r) \<union> set (snapshot r'))" by (rule inj_onI)
  show "set (snapshot r) = set (snapshot r')"
  proof (rule set_eqI)
    fix rt show "rt \<in> set (snapshot r) \<longleftrightarrow> rt \<in> set (snapshot r')"
      unfolding snapshot_mem [OF assms(1)] snapshot_mem [OF assms(2)] assms(3) ..
  qed
qed (rule snapshot_sorted snapshot_distinct [OF assms(1)] snapshot_distinct [OF assms(2)])+

section \<open>Properties\<close>

text \<open>A sequence of calls of the registry's mutating methods, as concurrent callers serialise them.\<close>

datatype reg_op = OpAdd string backend "backend list" | OpPromote string | OpRemove string | OpFail string state

fun reg_apply :: "reg_op \<Rightarrow> registry \<Rightarrow> registry" where
  "reg_apply (OpAdd sid ui apis) r = fst (reg_add sid ui apis r)"
| "reg_apply (OpPromote sid) r = fst (reg_promote sid r)"
| "reg_apply (OpRemove sid) r = reg_remove sid r"
| "reg_apply (OpFail sid st) r = reg_fail sid st r"

definition reg_run :: "string \<Rightarrow> reg_op list \<Rightarrow> registry" where
  "reg_run d ops = foldl (\<lambda>r oper. reg_apply oper r) (new_registry d) ops"

lemma reg_run_ok: "reg_ok (reg_run d ops)"
proof (induction ops rule: rev_induct)
  case (snoc oper ops)
  then show ?case by (cases oper) (auto simp: reg_run_def intro: wf_intros)
qed (simp add: reg_run_def wf_intros)

lemma reg_run_domain: "rg_domain (reg_run d ops) = d"
proof (induction ops rule: rev_induct)
  case (snoc oper ops)
  then show ?case
    by (cases oper)
      (auto simp: reg_run_def reg_add_def reg_promote_def reg_fail_def Let_def split: option.split)
qed (simp add: reg_run_def new_registry_def)

text \<open>C36: after any sequence of calls, every route is held under its own id, at the host
  \<open>s-<id>.run.<domain>\<close>, and a Session that failed or crashed has no backend left; the snapshot
  lists each route once, in the order of the ids.\<close>

theorem registry_invariant:
  "let r = reg_run d ops in
     (\<forall>sid. case reg_get r sid of
        None \<Rightarrow> True
      | Some rt \<Rightarrow> rt_session rt = sid \<and> rt_host rt = ''s-'' @ sid @ ''.run.'' @ d \<and>
          (if rt_state rt \<ge> Failed then rt_ui rt = no_backend \<and> rt_apis rt = [] else True)) \<and>
     sorted (map rt_session (snapshot r)) \<and> distinct (map rt_session (snapshot r)) \<and>
     length (snapshot r) = reg_len r \<and>
     (\<forall>rt. (rt \<in> set (snapshot r)) = (reg_get r (rt_session rt) = Some rt))"
proof -
  let ?r = "reg_run d ops"
  have "length (snapshot ?r) = reg_len ?r"
    using sort_routes_mset [of "map snd (rg_routes ?r)"]
    by (metis length_map reg_len_def size_mset snapshot_def)
  with reg_run_ok [of d ops] show ?thesis
    using snapshot_sorted snapshot_distinct snapshot_mem
    by (auto simp: Let_def reg_ok_def route_ok_def reg_host_def reg_run_domain terminal_iff_ge
        split: option.split)
qed

text \<open>The configuration and the reaper see the same snapshot whatever order the runtime iterates
  the map in: two registries that answer every lookup alike have the same snapshot.\<close>

theorem snapshot_deterministic:
  assumes "reg_ok r" "reg_ok r'" "reg_get r = reg_get r'"
  shows "snapshot r = snapshot r'"
  using assms by (rule snapshot_unique)

theorem snapshot_deterministic_witness:
  "snapshot (reg_run ''d'' [OpAdd ''b'' no_backend [], OpAdd ''a'' no_backend []]) =
   snapshot (reg_run ''d'' [OpAdd ''a'' no_backend [], OpAdd ''b'' no_backend []])"
  by (rule snapshot_deterministic; (rule reg_run_ok)?)
    (auto simp: reg_run_def new_registry_def reg_add_def reg_put_def reg_get_def booting_route_def
      reg_host_def fun_eq_iff Let_def)

text \<open>Text a host may consist of: ASCII, no colon and no bracket.\<close>

definition host_text :: "string \<Rightarrow> bool" where
  "host_text s \<longleftrightarrow> list_all is_ascii s \<and> plain_host s"

definition lower_text :: "string \<Rightarrow> bool" where
  "lower_text s \<longleftrightarrow> list_all (\<lambda>c. \<not> is_upper c) s"

lemma lower_text_map: "lower_text s \<Longrightarrow> map lower_byte s = s"
  by (induction s) (auto simp: lower_text_def lower_byte_id)

lemma session_id_from_host_eq:
  assumes "host_text h" "host_text p" "hp = h \<or> hp = h @ CHR '':'' # p"
  shows "session_id_from_host u r hp =
    (case cut_suffix (map lower_byte h) (''.run.'' @ rg_domain r) of None \<Rightarrow> ''''
     | Some rest \<Rightarrow> (case cut_prefix rest ''s-'' of None \<Rightarrow> '''' | Some sid \<Rightarrow> sid))"
proof -
  have "CHR '':'' \<notin> set h" using assms(1) by (auto simp: host_text_def plain_host_def)
  then have "(case split_host_port hp of Some (a, b) \<Rightarrow> a | None \<Rightarrow> hp) = h"
    using assms split_host_port_plain [of h p] split_host_port_noport [of h]
    by (auto simp: host_text_def)
  then show ?thesis
    using assms(1) by (simp add: session_id_from_host_def Let_def to_lower_ascii host_text_def)
qed

text \<open>The status page finds a Session by the host a Guest's browser sends, whatever the case of
  its letters and with or without a port: for a host that spells \<open>s-<id>.run.<domain>\<close> it
  yields the state of that Session's route, and nothing when there is none.\<close>

theorem state_by_host_finds:
  assumes "host_text h" "host_text port" "sid \<noteq> ''''"
    "map lower_byte h = map lower_byte (reg_host r sid)" "lower_text sid" "lower_text (rg_domain r)"
    "hp = h \<or> hp = h @ CHR '':'' # port"
  shows "state_by_host u r hp = map_option rt_state (reg_get r sid)"
proof -
  have "lower_text (reg_host r sid)"
    using assms(5,6) by (simp add: reg_host_def lower_text_def char_class_defs)
  with assms(4) have low: "map lower_byte h = ''s-'' @ sid @ ''.run.'' @ rg_domain r"
    by (simp add: lower_text_map) (simp add: reg_host_def)
  have "session_id_from_host u r hp = sid"
    unfolding session_id_from_host_eq [OF assms(1,2,7)] low
    using cut_suffix_append [of "''s-'' @ sid" "''.run.'' @ rg_domain r"] cut_prefix_append [of "''s-'' " sid]
    by simp
  with assms(3) show ?thesis by (simp add: state_by_host_def Let_def)
qed

theorem state_by_host_finds_witness:
  "state_by_host sample_unicode (reg_run ''ex.dev'' [OpAdd ''ab2'' no_backend []]) ''S-ab2.RUN.ex.dev:80'' = Some Booting"
proof -
  let ?r = "reg_run ''ex.dev'' [OpAdd ''ab2'' no_backend []]"
  have r: "rg_domain ?r = ''ex.dev''" by (rule reg_run_domain)
  have "state_by_host sample_unicode ?r ''S-ab2.RUN.ex.dev:80'' = map_option rt_state (reg_get ?r ''ab2'')"
    by (rule state_by_host_finds [where h = "''S-ab2.RUN.ex.dev''" and port = "''80''"])
      (simp_all add: r reg_host_def host_text_def plain_host_def lower_text_def lower_byte_def
        char_class_defs char_of_eq_iff)
  also have "\<dots> = Some Booting"
    by (simp add: reg_run_def new_registry_def reg_add_def Let_def reg_put_def reg_get_def booting_route_def)
  finally show ?thesis .
qed

section \<open>Session ids\<close>

text \<open>\<open>NewSessionID\<close>: 16 random bytes (the argument) in lowercase base32 without padding: the bits,
  most significant first, in groups of five, the last group filled with zeros.\<close>

definition base32_alphabet :: string where
  "base32_alphabet = ''abcdefghijklmnopqrstuvwxyz234567''"

definition bits8 :: "char \<Rightarrow> bool list" where
  "bits8 c = map (\<lambda>i. bit (byte c) (7 - i)) [0..<8]"

fun groups5 :: "bool list \<Rightarrow> bool list list" where
  "groups5 [] = []"
| "groups5 (b0 # b1 # b2 # b3 # b4 # bs) = [b0, b1, b2, b3, b4] # groups5 bs"
| "groups5 bs = [bs @ replicate (5 - length bs) False]"

definition digit32 :: "bool list \<Rightarrow> char" where
  "digit32 g = base32_alphabet ! foldl (\<lambda>n b. 2 * n + of_bool b) 0 g"

definition base32_encode :: "string \<Rightarrow> string" where
  "base32_encode bs = map digit32 (groups5 (concat (map bits8 bs)))"

definition new_session_id :: "unicode \<Rightarrow> string \<Rightarrow> string" where
  "new_session_id u bs = to_lower u (base32_encode bs)"

lemma groups5_length: "g \<in> set (groups5 bs) \<Longrightarrow> length g = 5"
  by (induction bs rule: groups5.induct) auto

lemma groups5_concat:
  "concat (groups5 bs) = bs @ replicate (5 * length (groups5 bs) - length bs) False"
  by (induction bs rule: groups5.induct) (simp_all add: eval_nat_numeral)

lemma length_groups5: "length (groups5 bs) = (length bs + 4) div 5"
  by (induction bs rule: groups5.induct) auto

lemma five_bits: "length g = 5 \<longleftrightarrow> g \<in> set (List.n_lists 5 [False, True])"
  by (auto simp: set_n_lists)

lemma digit32_table:
  "distinct (map digit32 (List.n_lists 5 [False, True]))"
  "list_all (\<lambda>g. is_lower (digit32 g) \<or> is_digit (digit32 g)) (List.n_lists 5 [False, True])"
  by code_simp+

lemma digit32_inj: "inj_on digit32 {g. length g = 5}"
  using digit32_table(1) by (simp add: distinct_map five_bits)

lemma digit32_chars: "length g = 5 \<Longrightarrow> is_lower (digit32 g) \<or> is_digit (digit32 g)"
  using digit32_table(2) by (simp add: five_bits list_all_iff)

lemma length_bits8 [simp]: "length (bits8 c) = 8"
  by (simp add: bits8_def)

lemma bits8_inject: "bits8 c = bits8 d \<Longrightarrow> c = d"
proof -
  assume *: "bits8 c = bits8 d"
  have "bit (byte c) n = bit (byte d) n" for n
  proof (cases "n < 8")
    case True
    have "[0..<8] ! (7 - n) = 7 - n" using nth_upt [of 0 "7 - n" 8] by simp
    with True arg_cong [OF *, of "\<lambda>bs. bs ! (7 - n)"] show ?thesis by (simp add: bits8_def)
  next
    case False
    then have "(2 :: nat) ^ 8 \<le> 2 ^ n" by (intro power_increasing) simp_all
    then have "byte c < 2 ^ n" "byte d < 2 ^ n"
      using order_less_le_trans [OF byte_less_256, of "2 ^ n" c]
        order_less_le_trans [OF byte_less_256, of "2 ^ n" d] by simp_all
    then show ?thesis by (simp add: bit_iff_odd)
  qed
  then have "byte c = byte d" by (simp add: bit_eq_iff)
  then show ?thesis by simp
qed

lemma length_bits: "length (concat (map bits8 bs)) = 8 * length bs"
  by (induction bs) auto

lemma concat_bits8_inject:
  "length bs = length cs \<Longrightarrow> concat (map bits8 bs) = concat (map bits8 cs) \<Longrightarrow> bs = cs"
  by (induction bs cs rule: list_induct2) (auto dest: bits8_inject)

lemma base32_chars: "c \<in> set (base32_encode bs) \<Longrightarrow> is_lower c \<or> is_digit c"
  using digit32_chars groups5_length by (auto simp: base32_encode_def)

lemma base32_inject:
  assumes "length bs = length cs" "base32_encode bs = base32_encode cs"
  shows "bs = cs"
proof -
  let ?b = "concat (map bits8 bs)" and ?c = "concat (map bits8 cs)"
  have "groups5 ?b = groups5 ?c"
    using assms(2) digit32_inj groups5_length unfolding base32_encode_def
    by (intro map_inj_on [where f = digit32]) (auto simp: inj_on_def)
  moreover obtain m n where "concat (groups5 ?b) = ?b @ replicate m False"
    "concat (groups5 ?c) = ?c @ replicate n False"
    using groups5_concat by blast
  ultimately have "?b @ replicate m False = ?c @ replicate n False" by simp
  then have "?b = ?c" using assms(1) by (simp add: append_eq_append_conv length_bits)
  with assms(1) show ?thesis by (rule concat_bits8_inject)
qed

lemma new_session_id_base32: "new_session_id u bs = base32_encode bs"
  unfolding new_session_id_def
  by (rule to_lower_id) (auto simp: list_all_iff is_ascii_def is_lower_def is_digit_def dest!: base32_chars)

text \<open>A Session id is 26 letters and digits, so it fits every name built from it and holds no
  hyphen; distinct random bytes give distinct ids, so the id keeps the 128 bits that make the URL
  unguessable.\<close>

theorem session_id_capability:
  assumes "length bs = 16"
  shows "length (new_session_id u bs) = 26 \<and>
    list_all (\<lambda>c. is_lower c \<or> is_digit c) (new_session_id u bs) \<and>
    (length cs = 16 \<and> new_session_id u cs = new_session_id u bs \<longrightarrow> cs = bs)"
proof -
  have "length (base32_encode bs) = 26"
    using assms by (simp add: base32_encode_def length_groups5 length_bits)
  moreover have "list_all (\<lambda>c. is_lower c \<or> is_digit c) (base32_encode bs)"
    using base32_chars by (auto simp: list_all_iff)
  moreover have "length cs = 16 \<and> base32_encode cs = base32_encode bs \<longrightarrow> cs = bs"
    using assms base32_inject by simp
  ultimately show ?thesis by (simp add: new_session_id_base32)
qed

theorem session_id_capability_witness:
  "length (new_session_id sample_unicode (replicate 16 (CHR ''x''))) = 26"
  using session_id_capability [of "replicate 16 (CHR ''x'')" sample_unicode] by simp

end
