(* ===== verification/TraefikConfig.thy ===== *)
theory TraefikConfig
  imports Registry "HOL-Library.Word"
begin

text \<open>
  What the proxy package serves: Traefik's dynamic configuration (\<open>internal/proxy/config.go\<close>), the
  status pages (\<open>internal/proxy/splash.go\<close>) and the request counts read back from Traefik's
  metrics (\<open>internal/proxy/metrics.go\<close>). The document handed to the JSON encoder is modelled; a
  page is the text the code writes.
\<close>

section \<open>The dynamic configuration\<close>

definition status_service :: string where
  "status_service = ''status''"

record router =
  rr_rule :: string
  rr_service :: string
  rr_priority :: int
  rr_entry_points :: "string list"

record dynamic_config =
  dc_routers :: "string \<rightharpoonup> router"
  dc_services :: "string \<rightharpoonup> string list"

record config_handler =
  ch_booting_url :: string
  ch_entry_point :: string

definition mk_router :: "config_handler \<Rightarrow> string \<Rightarrow> string \<Rightarrow> int \<Rightarrow> router" where
  "mk_router h rule svc prio =
     \<lparr>rr_rule = rule, rr_service = svc, rr_priority = prio,
      rr_entry_points = (if ch_entry_point h \<noteq> '''' then [ch_entry_point h] else [])\<rparr>"

text \<open>A service is the list of the URLs of its servers.\<close>

definition service_to :: "string \<Rightarrow> string list" where
  "service_to url = [url]"

definition backtick :: string where
  "backtick = [CHR 0x60]"

definition host_rule :: "string \<Rightarrow> string" where
  "host_rule host = ''Host('' @ backtick @ host @ backtick @ '')''"

definition api_path_rule :: "string \<Rightarrow> string" where
  "api_path_rule pre =
     (let p = trim_right pre (CHR ''/'')
      in ''(Path('' @ backtick @ p @ backtick @ '') || PathPrefix('' @ backtick @ p @ ''/'' @ backtick @ ''))'')"

definition booting_name :: "string \<Rightarrow> string" where
  "booting_name sid = ''s-'' @ sid"

definition ui_name :: "string \<Rightarrow> string" where
  "ui_name sid = ''s-'' @ sid @ ''-ui''"

definition api_name :: "string \<Rightarrow> nat \<Rightarrow> string" where
  "api_name sid i = ''s-'' @ sid @ ''-api-'' @ dec i"

text \<open>The loop over the API backends of a live route, at index \<open>i\<close>.\<close>

fun add_apis :: "config_handler \<Rightarrow> route \<Rightarrow> nat \<Rightarrow> backend list \<Rightarrow> dynamic_config \<Rightarrow> dynamic_config" where
  "add_apis h rt i [] c = c"
| "add_apis h rt i (api # apis) c =
     (let name = api_name (rt_session rt) i;
          rule = host_rule (rt_host rt) @ '' && '' @ api_path_rule (be_prefix api)
      in add_apis h rt (Suc i) apis
           (c\<lparr>dc_routers := (dc_routers c)(name \<mapsto> mk_router h rule name 100),
              dc_services := (dc_services c)(name \<mapsto> service_to (be_url api))\<rparr>))"

definition add_route :: "config_handler \<Rightarrow> route \<Rightarrow> dynamic_config \<times> bool \<Rightarrow> dynamic_config \<times> bool" where
  "add_route h rt cs =
     (case cs of (c, any_status) \<Rightarrow>
        if rt_state rt \<noteq> Live then
          (c\<lparr>dc_routers := (dc_routers c)(booting_name (rt_session rt) \<mapsto>
               mk_router h (host_rule (rt_host rt)) status_service 1)\<rparr>, True)
        else
          let c1 = add_apis h rt 0 (rt_apis rt) c; n = ui_name (rt_session rt)
          in (c1\<lparr>dc_routers := (dc_routers c1)(n \<mapsto> mk_router h (host_rule (rt_host rt)) n 1),
                 dc_services := (dc_services c1)(n \<mapsto> service_to (be_url (rt_ui rt)))\<rparr>, any_status))"

definition build_config :: "config_handler \<Rightarrow> registry \<Rightarrow> dynamic_config" where
  "build_config h r =
     (let (c, any_status) =
        foldl (\<lambda>cs rt. add_route h rt cs)
          (\<lparr>dc_routers = Map.empty, dc_services = Map.empty\<rparr>, False) (snapshot r)
      in if any_status
         then c\<lparr>dc_services := (dc_services c)(status_service \<mapsto> service_to (ch_booting_url h))\<rparr>
         else c)"

section \<open>Status pages\<close>

datatype page = SplashPage | FailedPage | CrashedPage | EndedPage

record page_reply =
  pg_page :: page
  pg_content_type :: string
  pg_cache_control :: string
  pg_retry_after :: "string option"
  pg_status :: nat

definition write_page :: "page \<Rightarrow> bool \<Rightarrow> page_reply" where
  "write_page p refresh =
     \<lparr>pg_page = p, pg_content_type = ''text/html; charset=utf-8'', pg_cache_control = ''no-store'',
      pg_retry_after = (if refresh then Some ''2'' else None), pg_status = 200\<rparr>"

definition splash_handler :: page_reply where
  "splash_handler = write_page SplashPage True"

definition status_handler :: "(string \<Rightarrow> state option) \<Rightarrow> string \<Rightarrow> page_reply" where
  "status_handler lookup host =
     (case lookup host of
        None \<Rightarrow> write_page EndedPage False
      | Some Failed \<Rightarrow> write_page FailedPage False
      | Some Crashed \<Rightarrow> write_page CrashedPage False
      | Some st \<Rightarrow> write_page SplashPage True)"

text \<open>The two listeners: the internal one serves the configuration at \<open>GET /traefik\<close> and the splash
  elsewhere, the one Sessions are routed to serves status pages at every path. (The mux also answers
  \<open>HEAD\<close> on a \<open>GET\<close> pattern.)\<close>

datatype listener_reply = ServesConfig dynamic_config | ServesPage page_reply

definition config_listener :: "config_handler \<Rightarrow> registry \<Rightarrow> string \<Rightarrow> string \<Rightarrow> listener_reply" where
  "config_listener h r verb path =
     (if (verb = ''GET'' \<or> verb = ''HEAD'') \<and> path = ''/traefik'' then ServesConfig (build_config h r)
      else ServesPage splash_handler)"

definition booting_listener :: "(string \<Rightarrow> state option) \<Rightarrow> string \<Rightarrow> string \<Rightarrow> string \<Rightarrow> listener_reply" where
  "booting_listener lookup host verb path = ServesPage (status_handler lookup host)"

section \<open>The configuration as a table\<close>

definition api_routers :: "config_handler \<Rightarrow> route \<Rightarrow> nat \<Rightarrow> backend list \<Rightarrow> (string \<times> router) list" where
  "api_routers h rt i apis =
     map (\<lambda>(j, api). (api_name (rt_session rt) j,
         mk_router h (host_rule (rt_host rt) @ '' && '' @ api_path_rule (be_prefix api))
           (api_name (rt_session rt) j) 100)) (enumerate i apis)"

definition api_services :: "route \<Rightarrow> nat \<Rightarrow> backend list \<Rightarrow> (string \<times> string list) list" where
  "api_services rt i apis =
     map (\<lambda>(j, api). (api_name (rt_session rt) j, service_to (be_url api))) (enumerate i apis)"

definition route_routers :: "config_handler \<Rightarrow> route \<Rightarrow> (string \<times> router) list" where
  "route_routers h rt =
     (if rt_state rt \<noteq> Live
      then [(booting_name (rt_session rt), mk_router h (host_rule (rt_host rt)) status_service 1)]
      else api_routers h rt 0 (rt_apis rt) @
        [(ui_name (rt_session rt), mk_router h (host_rule (rt_host rt)) (ui_name (rt_session rt)) 1)])"

definition route_services :: "route \<Rightarrow> (string \<times> string list) list" where
  "route_services rt =
     (if rt_state rt \<noteq> Live then []
      else api_services rt 0 (rt_apis rt) @ [(ui_name (rt_session rt), service_to (be_url (rt_ui rt)))])"

lemma upd_map_add: "m(k \<mapsto> v) ++ n = m ++ ([k \<mapsto> v] ++ n)"
  by (rule ext) (simp add: map_add_def split: option.split)

lemma add_apis_table:
  "dc_routers (add_apis h rt i apis c) = dc_routers c ++ map_of (rev (api_routers h rt i apis))"
  "dc_services (add_apis h rt i apis c) = dc_services c ++ map_of (rev (api_services rt i apis))"
proof (induction h rt i apis c rule: add_apis.induct)
  case (2 h rt i api apis c)
  let ?name = "api_name (rt_session rt) i"
  let ?rr = "mk_router h (host_rule (rt_host rt) @ '' && '' @ api_path_rule (be_prefix api)) ?name 100"
  let ?c = "c\<lparr>dc_routers := (dc_routers c)(?name \<mapsto> ?rr),
              dc_services := (dc_services c)(?name \<mapsto> service_to (be_url api))\<rparr>"
  have step: "add_apis h rt i (api # apis) c = add_apis h rt (Suc i) apis ?c"
    unfolding add_apis.simps Let_def ..
  note IH = "2.IH" [OF refl refl]
  { case 1
    have "dc_routers (add_apis h rt i (api # apis) c) =
        (dc_routers c)(?name \<mapsto> ?rr) ++ map_of (rev (api_routers h rt (Suc i) apis))"
      unfolding step IH by simp
    then show ?case
      by (subst (asm) upd_map_add) (simp add: api_routers_def)
  next
    case 2
    have "dc_services (add_apis h rt i (api # apis) c) =
        (dc_services c)(?name \<mapsto> service_to (be_url api)) ++ map_of (rev (api_services rt (Suc i) apis))"
      unfolding step IH by simp
    then show ?case
      by (subst (asm) upd_map_add) (simp add: api_services_def) }
qed (simp_all add: api_routers_def api_services_def)

lemma add_route_table:
  "dc_routers (fst (add_route h rt cs)) = dc_routers (fst cs) ++ map_of (rev (route_routers h rt))"
  "dc_services (fst (add_route h rt cs)) = dc_services (fst cs) ++ map_of (rev (route_services rt))"
  "snd (add_route h rt cs) \<longleftrightarrow> snd cs \<or> rt_state rt \<noteq> Live"
  by (simp_all add: add_route_def route_routers_def route_services_def Let_def add_apis_table
      split: prod.split)

lemma fold_routes_table:
  "dc_routers (fst (foldl (\<lambda>cs rt. add_route h rt cs) cs rts)) =
     dc_routers (fst cs) ++ map_of (rev (concat (map (route_routers h) rts)))"
  "dc_services (fst (foldl (\<lambda>cs rt. add_route h rt cs) cs rts)) =
     dc_services (fst cs) ++ map_of (rev (concat (map route_services rts)))"
  "snd (foldl (\<lambda>cs rt. add_route h rt cs) cs rts) \<longleftrightarrow> snd cs \<or> (\<exists>rt \<in> set rts. rt_state rt \<noteq> Live)"
  by (induction rts arbitrary: cs) (simp_all add: add_route_table)

definition has_status :: "registry \<Rightarrow> bool" where
  "has_status r \<longleftrightarrow> (\<exists>rt \<in> set (snapshot r). rt_state rt \<noteq> Live)"

lemma build_config_table:
  "dc_routers (build_config h r) = map_of (rev (concat (map (route_routers h) (snapshot r))))"
  "dc_services (build_config h r) = map_of (rev (concat (map route_services (snapshot r)))) ++
     (if has_status r then [status_service \<mapsto> [ch_booting_url h]] else Map.empty)"
  using fold_routes_table [of h "(\<lparr>dc_routers = Map.empty, dc_services = Map.empty\<rparr>, False)" "snapshot r"]
  by (auto simp: build_config_def has_status_def service_to_def Let_def split: prod.split)

lemma router_origin:
  assumes "dc_routers (build_config h r) n = Some rr"
  obtains rt where "rt \<in> set (snapshot r)" "(n, rr) \<in> set (route_routers h rt)"
  using assms by (auto simp: build_config_table dest!: map_of_SomeD)

lemma service_origin:
  assumes "dc_services (build_config h r) n = Some urls"
  shows "(n = status_service \<and> urls = [ch_booting_url h] \<and> has_status r) \<or>
    (\<exists>rt \<in> set (snapshot r). (n, urls) \<in> set (route_services rt))"
  using assms by (auto simp: build_config_table map_add_Some_iff split: if_splits dest!: map_of_SomeD)

lemma service_present:
  "rt \<in> set (snapshot r) \<Longrightarrow> (n, urls) \<in> set (route_services rt) \<Longrightarrow>
     dc_services (build_config h r) n \<noteq> None"
proof -
  assume "rt \<in> set (snapshot r)" "(n, urls) \<in> set (route_services rt)"
  then have "n \<in> fst ` set (concat (map route_services (snapshot r)))" by force
  then have "map_of (rev (concat (map route_services (snapshot r)))) n \<noteq> None"
    by (simp add: map_of_eq_None_iff)
  then show ?thesis by (auto simp: build_config_table map_add_def split: option.split)
qed

section \<open>Names do not collide\<close>

definition hyphen_free :: "string \<Rightarrow> bool" where
  "hyphen_free s \<longleftrightarrow> CHR ''-'' \<notin> set s"

lemma cut_at_hyphen:
  assumes "hyphen_free a" "hyphen_free b" "a @ CHR ''-'' # x = b @ CHR ''-'' # y"
  shows "a = b \<and> x = y"
proof -
  have "cut (a @ CHR ''-'' # x) (CHR ''-'') = Some (a, x)"
    using assms(1) by (simp add: cut_Some hyphen_free_def)
  moreover have "cut (a @ CHR ''-'' # x) (CHR ''-'') = Some (b, y)"
    unfolding assms(3) using assms(2) by (simp add: cut_Some hyphen_free_def)
  ultimately show ?thesis by (simp only: option.inject prod.inject)
qed

lemma names_inject:
  assumes "hyphen_free a" "hyphen_free b"
  shows "booting_name a = booting_name b \<longleftrightarrow> a = b" "ui_name a = ui_name b \<longleftrightarrow> a = b"
    "api_name a i = api_name b j \<longleftrightarrow> a = b \<and> i = j"
    "booting_name a \<noteq> ui_name b" "booting_name a \<noteq> api_name b j" "ui_name a \<noteq> api_name b j"
    "ui_name a \<noteq> booting_name b" "api_name a i \<noteq> booting_name b" "api_name a i \<noteq> ui_name b"
proof -
  show "booting_name a = booting_name b \<longleftrightarrow> a = b" "ui_name a = ui_name b \<longleftrightarrow> a = b"
    by (simp_all add: booting_name_def ui_name_def)
  show "booting_name a \<noteq> ui_name b" "booting_name a \<noteq> api_name b j"
    "ui_name a \<noteq> booting_name b" "api_name a i \<noteq> booting_name b"
    using assms by (auto simp: booting_name_def ui_name_def api_name_def hyphen_free_def)
  show "api_name a i = api_name b j \<longleftrightarrow> a = b \<and> i = j"
    using cut_at_hyphen [OF assms, of "''api-'' @ dec i" "''api-'' @ dec j"]
    by (auto simp: api_name_def)
  show "ui_name a \<noteq> api_name b j" "api_name a i \<noteq> ui_name b"
    using cut_at_hyphen [OF assms, of "''ui''" "''api-'' @ dec j"]
      cut_at_hyphen [OF assms, of "''api-'' @ dec i" "''ui''"]
    by (auto simp: ui_name_def api_name_def)
qed

lemma status_not_name:
  "status_service \<noteq> booting_name a" "status_service \<noteq> ui_name a" "status_service \<noteq> api_name a i"
  by (simp_all add: status_service_def booting_name_def ui_name_def api_name_def)

definition session_names :: "string \<Rightarrow> string set" where
  "session_names sid = {booting_name sid, ui_name sid} \<union> range (api_name sid)"

lemma session_names_disjoint:
  "hyphen_free a \<Longrightarrow> hyphen_free b \<Longrightarrow> a \<noteq> b \<Longrightarrow> session_names a \<inter> session_names b = {}"
  by (auto simp: session_names_def names_inject)

lemma map_fst_api:
  "map fst (api_routers h rt i apis) = map (api_name (rt_session rt)) [i..<i + length apis]"
  "map fst (api_services rt i apis) = map (api_name (rt_session rt)) [i..<i + length apis]"
  by (simp_all add: api_routers_def api_services_def map_fst_enumerate [symmetric] case_prod_unfold
      del: map_fst_enumerate)

lemma route_names:
  "fst ` set (route_routers h rt) \<subseteq> session_names (rt_session rt)"
  "fst ` set (route_services rt) \<subseteq> session_names (rt_session rt)"
proof -
  have "fst ` set (api_routers h rt 0 (rt_apis rt)) \<subseteq> range (api_name (rt_session rt))"
    "fst ` set (api_services rt 0 (rt_apis rt)) \<subseteq> range (api_name (rt_session rt))"
    unfolding set_map [symmetric] map_fst_api by auto
  then show "fst ` set (route_routers h rt) \<subseteq> session_names (rt_session rt)"
    "fst ` set (route_services rt) \<subseteq> session_names (rt_session rt)"
    by (auto simp: route_routers_def route_services_def session_names_def)
qed

lemma route_names_distinct:
  assumes "hyphen_free (rt_session rt)"
  shows "distinct (map fst (route_routers h rt))" "distinct (map fst (route_services rt))"
proof -
  let ?ids = "map (api_name (rt_session rt)) [0..<length (rt_apis rt)]"
  have "distinct (?ids @ [ui_name (rt_session rt)])"
    using names_inject [OF assms assms] by (auto simp: distinct_map inj_on_def)
  moreover have "map fst (route_routers h rt) =
      (if rt_state rt \<noteq> Live then [booting_name (rt_session rt)] else ?ids @ [ui_name (rt_session rt)])"
    "map fst (route_services rt) =
      (if rt_state rt \<noteq> Live then [] else ?ids @ [ui_name (rt_session rt)])"
    by (simp_all add: route_routers_def route_services_def map_fst_api)
  ultimately show "distinct (map fst (route_routers h rt))" "distinct (map fst (route_services rt))"
    by simp_all
qed

lemma concat_names_distinct:
  assumes "\<And>rt. rt \<in> set rts \<Longrightarrow> distinct (map fst (f rt)) \<and> fst ` set (f rt) \<subseteq> session_names (rt_session rt)"
    "distinct (map rt_session rts)" "\<And>rt. rt \<in> set rts \<Longrightarrow> hyphen_free (rt_session rt)"
  shows "distinct (map fst (concat (map f rts)))"
  using assms
proof (induction rts)
  case (Cons rt rts)
  have "fst ` set (f rt) \<inter> fst ` set (f rt') = {}" if "rt' \<in> set rts" for rt'
  proof -
    from that Cons.prems(2) have "rt_session rt \<noteq> rt_session rt'" by auto
    then have "session_names (rt_session rt) \<inter> session_names (rt_session rt') = {}"
      using Cons.prems(3) that by (intro session_names_disjoint) auto
    with Cons.prems(1) [of rt] Cons.prems(1) [of rt'] that show ?thesis by auto
  qed
  then have "fst ` set (f rt) \<inter> fst ` set (concat (map f rts)) = {}" by auto
  moreover have "distinct (map fst (concat (map f rts)))" using Cons by auto
  ultimately show ?case using Cons.prems(1) [of rt] by (simp add: image_Un)
qed simp

lemma config_lookup:
  assumes "reg_ok r" "\<forall>rt \<in> set (snapshot r). hyphen_free (rt_session rt)" "rt \<in> set (snapshot r)"
  shows "(n, rr) \<in> set (route_routers h rt) \<Longrightarrow> dc_routers (build_config h r) n = Some rr"
    and "(n, urls) \<in> set (route_services rt) \<Longrightarrow> dc_services (build_config h r) n = Some urls"
proof -
  have "distinct (map fst (concat (map (route_routers h) (snapshot r))))"
    "distinct (map fst (concat (map route_services (snapshot r))))"
    using assms(2) route_names route_names_distinct
    by (intro concat_names_distinct [OF _ snapshot_distinct [OF assms(1)]]; blast)+
  then have d: "distinct (map fst (rev (concat (map (route_routers h) (snapshot r)))))"
    "distinct (map fst (rev (concat (map route_services (snapshot r)))))"
    unfolding rev_map [symmetric] by simp_all
  show "(n, rr) \<in> set (route_routers h rt) \<Longrightarrow> dc_routers (build_config h r) n = Some rr"
    using assms(3) unfolding build_config_table by (intro map_of_is_SomeI [OF d(1)]) auto
  assume n: "(n, urls) \<in> set (route_services rt)"
  then have "n \<in> session_names (rt_session rt)" using route_names(2) by force
  then have "n \<noteq> status_service" using status_not_name by (auto simp: session_names_def)
  moreover have "map_of (rev (concat (map route_services (snapshot r)))) n = Some urls"
    using assms(3) n by (intro map_of_is_SomeI [OF d(2)]) auto
  ultimately show "dc_services (build_config h r) n = Some urls"
    by (simp add: build_config_table map_add_def)
qed

section \<open>Properties of the configuration\<close>


definition sample_handler :: config_handler where
  "sample_handler = \<lparr>ch_booting_url = ''http://cp:9'', ch_entry_point = ''web''\<rparr>"

definition sample_registry :: registry where
  "sample_registry = reg_run ''ex.dev''
     [OpAdd ''a2'' \<lparr>be_prefix = '''', be_url = ''http://ui''\<rparr> [\<lparr>be_prefix = ''/api'', be_url = ''http://api''\<rparr>],
      OpPromote ''a2'', OpAdd ''b3'' no_backend []]"

lemma sample_registry_ok: "reg_ok sample_registry"
  unfolding sample_registry_def by (rule reg_run_ok)

lemma sample_registry_get:
  "reg_get sample_registry ''a2'' = Some \<lparr>rt_session = ''a2'', rt_host = ''s-a2.run.ex.dev'', rt_state = Live,
     rt_ui = \<lparr>be_prefix = '''', be_url = ''http://ui''\<rparr>, rt_apis = [\<lparr>be_prefix = ''/api'', be_url = ''http://api''\<rparr>]\<rparr>"
  "reg_get sample_registry ''b3'' = Some \<lparr>rt_session = ''b3'', rt_host = ''s-b3.run.ex.dev'', rt_state = Booting,
     rt_ui = no_backend, rt_apis = []\<rparr>"
  "reg_get sample_registry k \<noteq> None \<longleftrightarrow> k = ''a2'' \<or> k = ''b3''"
  by (auto simp: sample_registry_def reg_run_def new_registry_def reg_add_def reg_promote_def Let_def
      reg_put_def reg_get_def booting_route_def reg_host_def)

lemma sample_registry_hyphen_free: "\<forall>rt \<in> set (snapshot sample_registry). hyphen_free (rt_session rt)"
proof
  fix rt assume "rt \<in> set (snapshot sample_registry)"
  then have "reg_get sample_registry (rt_session rt) \<noteq> None"
    using snapshot_mem [OF sample_registry_ok] by simp
  then show "hyphen_free (rt_session rt)"
    unfolding sample_registry_get(3) by (auto simp: hyphen_free_def)
qed




text \<open>The text of a rule outside and inside its quotes: the pieces between backticks.\<close>

definition rule_pieces :: "string \<Rightarrow> string list" where
  "rule_pieces rule = split rule (CHR 0x60)"

definition guarded_rule :: "string \<Rightarrow> string \<Rightarrow> string" where
  "guarded_rule host pre = host_rule host @ '' && '' @ api_path_rule pre"

lemma trim_right_set: "set (trim_right s c) \<subseteq> set s"
  by (auto simp: trim_right_def dest: set_dropWhileD)

text \<open>The rule of an API matches on path segments: whatever its declared prefix, with or without a
  trailing slash, a prefix without a backtick stays inside the quotes, and the rule is the conjunction
  of the Session's host with the exact path or the paths below it.\<close>

theorem api_rule_shape:
  assumes "CHR 0x60 \<notin> set host" "CHR 0x60 \<notin> set pre"
  shows "let p = trim_right pre (CHR ''/'') in
     rule_pieces (guarded_rule host pre) =
       [''Host('', host, '') && (Path('', p, '') || PathPrefix('', p @ ''/'', ''))''] \<and>
     (p = '''' \<or> last p \<noteq> CHR ''/'') \<and> guarded_rule host (pre @ ''/'') = guarded_rule host pre"
proof -
  let ?p = "trim_right pre (CHR ''/'')"
  have bt: "CHR 0x60 \<notin> set ?p" "CHR 0x60 \<notin> set (?p @ ''/'')"
    using assms(2) trim_right_set [of pre "CHR ''/''"] by auto
  have shape: "guarded_rule host pre = join [''Host('', host, '') && (Path('', ?p, '') || PathPrefix('', ?p @ ''/'', ''))''] [CHR 0x60]"
    by (simp add: guarded_rule_def host_rule_def api_path_rule_def backtick_def Let_def)
  have pieces: "split (join [''Host('', host, '') && (Path('', ?p, '') || PathPrefix('', ?p @ ''/'', ''))''] [CHR 0x60]) (CHR 0x60) =
      [''Host('', host, '') && (Path('', ?p, '') || PathPrefix('', ?p @ ''/'', ''))'']"
    using bt assms(1) by (intro split_join) auto
  have "trim_right (pre @ ''/'') (CHR ''/'') = ?p" by (simp add: trim_right_def)
  then have "guarded_rule host (pre @ ''/'') = guarded_rule host pre"
    by (simp only: guarded_rule_def api_path_rule_def)
  then show ?thesis
    using trim_right_no_suffix [of pre "CHR ''/''"] pieces
    unfolding Let_def rule_pieces_def by (simp only: shape simp_thms)
qed

theorem api_rule_shape_witness:
  "rule_pieces (guarded_rule ''h'' ''/api/'') =
     [''Host('', ''h'', '') && (Path('', ''/api'', '') || PathPrefix('', ''/api/'', ''))'']"
  using api_rule_shape [of "''h''" "''/api/''"] by (simp add: trim_right_def Let_def)

definition hostile_prefix :: string where
  "hostile_prefix = ''/'' @ backtick @ '')) || HostRegexp('' @ backtick @ ''.*'' @ backtick @ '') || (Path('' @ backtick @ ''/x''"

definition hostile_manifest :: manifest where
  "hostile_manifest = fixture_manifest\<lparr>m_services := map
     (\<lambda>s. if svc_role s = role_api then s\<lparr>svc_prefix := hostile_prefix\<rparr> else s) (m_services fixture_manifest)\<rparr>"

text \<open>The contract does not keep a path prefix inside the quotes of its rule. A contract whose API
  prefix carries backticks is accepted, and the rule rendered for it has, outside any quote and beside
  the host guard, an alternative that matches every host.\<close>

theorem path_prefix_escapes_rule:
  "validate u hostile_manifest = [] \<and>
   api_prefixes (m_services hostile_manifest) = [hostile_prefix] \<and>
   (\<exists>rest. rule_pieces (guarded_rule ''s-a2.run.ex.dev'' hostile_prefix) =
      [''Host('', ''s-a2.run.ex.dev'', '') && (Path('', ''/'', '')) || HostRegexp('', ''.*'', '') || (Path(''] @ rest)"
proof (intro conjI)
  have "valid_manifest u fixture_manifest" using fixture_manifest_valid by (simp only: validate_nil_iff)
  moreover have "hostile_prefix \<noteq> ''''" "has_prefix hostile_prefix ''/''"
    by (simp_all add: hostile_prefix_def has_prefix_def)
  ultimately have "valid_manifest u hostile_manifest"
    by (auto simp: hostile_manifest_def valid_manifest_def fixture_manifest_def service_ok_def
        api_prefixes_def seed_ok_def)
  then show "validate u hostile_manifest = []" by (simp only: validate_nil_iff)
  show "api_prefixes (m_services hostile_manifest) = [hostile_prefix]"
    by (simp add: hostile_manifest_def fixture_manifest_def api_prefixes_def)
  show "\<exists>rest. rule_pieces (guarded_rule ''s-a2.run.ex.dev'' hostile_prefix) =
      [''Host('', ''s-a2.run.ex.dev'', '') && (Path('', ''/'', '')) || HostRegexp('', ''.*'', '') || (Path(''] @ rest"
    by (simp add: rule_pieces_def guarded_rule_def host_rule_def api_path_rule_def hostile_prefix_def
        backtick_def trim_right_def Let_def)
qed

end
