(* ===== verification/Metrics.thy ===== *)
theory Metrics
  imports TraefikConfig
begin

unbundle bit_operations_syntax

text \<open>
  The idle signal (\<open>internal/proxy/metrics.go\<close>): Traefik's request counters, summed per Session
  from the text of its metrics endpoint. The HTTP exchange is the argument \<open>scrape_result\<close>. Sample
  values are read exactly (a float64 is exact for the counts below 2^53 Traefik prints), out of range
  is an error as in Go; the spellings of infinities, NaN and hexadecimal floats, which a counter never
  has, are refused.
\<close>

section \<open>Lines and fields\<close>

definition split_lines :: "string \<Rightarrow> string list" where
  "split_lines s =
     (let ls = split s (CHR 0x0A) in if last ls = '''' then butlast ls else ls)"

definition drop_cr :: "string \<Rightarrow> string" where
  "drop_cr l = (if l \<noteq> '''' \<and> last l = CHR 0x0D then butlast l else l)"

definition max_line :: nat where
  "max_line = 1024 * 1024"

text \<open>\<open>strings.Fields\<close>, with the current field in reverse.\<close>

function fields_from :: "string \<Rightarrow> string \<Rightarrow> string list" where
  "fields_from tok [] = (if tok = [] then [] else [rev tok])"
| "fields_from tok (c # cs) =
     (case strip_first space_encodings (c # cs) of
        Some rest \<Rightarrow> (if tok = [] then [] else [rev tok]) @ fields_from [] rest
      | None \<Rightarrow> fields_from (c # tok) cs)"
  by pat_completeness auto
termination
proof (relation "measure (\<lambda>(tok, s). length s)", simp_all, goal_cases)
  case (1 c cs rest)
  have "[] \<notin> set space_encodings" using space_encodings_not_solid by (auto simp: list_all_iff)
  with strip_first_shorter [OF 1] show ?case by simp
qed

definition fields :: "string \<Rightarrow> string list" where
  "fields s = fields_from [] s"

section \<open>Sample values\<close>

definition span_digits :: "string \<Rightarrow> string \<times> string" where
  "span_digits s = (takeWhile is_digit s, dropWhile is_digit s)"

definition digits_value :: "string \<Rightarrow> nat" where
  "digits_value ds = foldl (\<lambda>n c. 10 * n + (byte c - 48)) 0 ds"

definition cut_sign :: "string \<Rightarrow> bool \<times> string" where
  "cut_sign s = (case s of [] \<Rightarrow> (False, s)
     | c # t \<Rightarrow> if c = CHR ''-'' then (True, t) else if c = CHR ''+'' then (False, t) else (False, s))"

definition parse_exponent :: "string \<Rightarrow> int option" where
  "parse_exponent s =
     (case s of [] \<Rightarrow> Some 0
      | c # t \<Rightarrow>
          if c = CHR ''e'' \<or> c = CHR ''E'' then
            (let (neg, t1) = cut_sign t; (ds, rest) = span_digits t1
             in if ds = [] \<or> rest \<noteq> [] then None
                else Some (if neg then - int (digits_value ds) else int (digits_value ds)))
          else None)"

definition parse_float :: "string \<Rightarrow> rat option" where
  "parse_float s =
     (let (neg, s1) = cut_sign s;
          (ip, r1) = span_digits s1;
          (fp, r2) = (case r1 of [] \<Rightarrow> ([], r1)
                      | c # t \<Rightarrow> if c = CHR ''.'' then span_digits t else ([], r1))
      in if ip @ fp = [] then None
         else (case parse_exponent r2 of
                 None \<Rightarrow> None
               | Some e \<Rightarrow>
                   let v = (if neg then -1 else 1) * of_nat (digits_value (ip @ fp)) * 10 powi (e - int (length fp))
                   in if 2 ^ 1024 \<le> \<bar>v\<bar> then None else Some v))"

definition to_uint64 :: "rat \<Rightarrow> 64 word" where
  "to_uint64 v = word_of_int (if v < 0 then - \<lfloor>- v\<rfloor> else \<lfloor>v\<rfloor>)"

section \<open>The service label\<close>

definition base32_char :: "char \<Rightarrow> bool" where
  "base32_char c \<longleftrightarrow> is_lower c \<or> 50 \<le> byte c \<and> byte c \<le> 55"

text \<open>\<open>(?:@[^"]*)?"\<close>\<close>

definition label_end :: "string \<Rightarrow> bool" where
  "label_end s =
     (case s of [] \<Rightarrow> False
      | c # t \<Rightarrow> if c = CHR ''@'' then CHR 0x22 \<in> set t else c = CHR 0x22)"

definition label_open :: string where
  "label_open = ''service='' @ [CHR 0x22] @ ''s-''"

text \<open>The expression \<open>serviceLabel\<close> at one position, and its leftmost match.\<close>

definition label_at :: "string \<Rightarrow> string option" where
  "label_at s =
     (case cut_prefix s label_open of
        None \<Rightarrow> None
      | Some t \<Rightarrow>
          let sid = takeWhile base32_char t; r = dropWhile base32_char t
          in if sid = '''' then None
             else if (case cut_prefix r ''-ui'' of Some e \<Rightarrow> label_end e | None \<Rightarrow> False) then Some sid
             else if (case cut_prefix r ''-api-'' of
                        Some e \<Rightarrow> takeWhile is_digit e \<noteq> [] \<and> label_end (dropWhile is_digit e)
                      | None \<Rightarrow> False)
             then Some sid else None)"

fun find_label :: "string \<Rightarrow> string option" where
  "find_label [] = None"
| "find_label (c # cs) = (case label_at (c # cs) of Some sid \<Rightarrow> Some sid | None \<Rightarrow> find_label cs)"

section \<open>Counting\<close>

type_synonym counts = "string \<rightharpoonup> 64 word"

definition metric_prefix :: string where
  "metric_prefix = ''traefik_service_requests_total{''"

definition count_line :: "counts \<Rightarrow> string \<Rightarrow> counts" where
  "count_line counts line =
     (if \<not> has_prefix line metric_prefix then counts
      else (case find_label line of
              None \<Rightarrow> counts
            | Some sid \<Rightarrow>
                (case parse_float (last (fields line)) of
                   None \<Rightarrow> counts
                 | Some v \<Rightarrow>
                     counts(sid \<mapsto> (case counts sid of None \<Rightarrow> 0 | Some n \<Rightarrow> n) + to_uint64 v))))"

datatype metrics_err = RequestFailed | ScrapeFailed | BadStatus nat | LineTooLong

definition parse_counts :: "string \<Rightarrow> (metrics_err, counts) result" where
  "parse_counts body =
     (let ls = split_lines body
      in if list_ex (\<lambda>l. max_line \<le> length l) ls then Err LineTooLong
         else Ok (foldl count_line Map.empty (map drop_cr ls)))"

datatype scrape_result = NoRequest | NoResponse | Response nat string

definition request_counts :: "scrape_result \<Rightarrow> (metrics_err, counts) result" where
  "request_counts sr =
     (case sr of
        NoRequest \<Rightarrow> Err RequestFailed
      | NoResponse \<Rightarrow> Err ScrapeFailed
      | Response status body \<Rightarrow> if status \<noteq> 200 then Err (BadStatus status) else parse_counts body)"

section \<open>Lemmas\<close>

lemma label_open_nth: "0 < d \<Longrightarrow> d < 8 \<Longrightarrow> label_open ! d \<noteq> CHR ''s''"
proof -
  assume "0 < d" "d < 8"
  then have "d \<in> set [1..<8]" by simp
  moreover have "\<forall>d \<in> set [1..<8]. label_open ! d \<noteq> CHR ''s''"
    by (simp add: label_open_def upt_rec)
  ultimately show ?thesis by blast
qed

lemma label_open_props: "length label_open = 11" "take 8 label_open = ''service=''" "label_open ! 0 = CHR ''s''"
  by (simp_all add: label_open_def)

text \<open>No occurrence of the opening straddles the place where another one begins.\<close>

lemma label_open_no_overlap:
  assumes "pre @ label_open @ x = a @ label_open @ y" "length a < length pre"
  shows "contains_str pre ''service=''"
proof -
  let ?d = "length pre - length a"
  have at: "(pre @ label_open @ x) ! length pre = CHR ''s''"
    by (simp add: nth_append label_open_props)
  show ?thesis
  proof (cases "?d < 8")
    case True
    have "(a @ label_open @ y) ! length pre = label_open ! ?d"
      using assms(2) True by (simp add: nth_append label_open_props)
    with at assms label_open_nth [of ?d] True show ?thesis by simp
  next
    case False
    from assms obtain m where m: "pre = a @ m" "m @ label_open @ x = label_open @ y"
      by (auto simp: append_eq_append_conv2)
    with False have "8 \<le> length m" by simp
    then have "take 8 m = take 8 (m @ label_open @ x)" by simp
    also have "\<dots> = ''service=''" unfolding m(2) using label_open_props by simp
    finally have "pre = a @ ''service='' @ drop 8 m" using m(1) by (metis append_take_drop_id)
    then show ?thesis unfolding contains_str_iff by blast
  qed
qed

lemma label_at_open: "label_at s \<noteq> None \<Longrightarrow> has_prefix s label_open"
  by (auto simp: label_at_def cut_prefix_def split: if_splits)

lemma find_label_skip:
  assumes "\<And>a b. pre @ s = a @ b \<Longrightarrow> length a < length pre \<Longrightarrow> \<not> has_prefix b label_open"
  shows "find_label (pre @ s) = find_label s"
  using assms
proof (induction pre)
  case (Cons c pre)
  have "\<not> has_prefix (c # pre @ s) label_open" using Cons.prems [of "[]"] by simp
  then have "label_at (c # pre @ s) = None" using label_at_open by blast
  moreover have "find_label (pre @ s) = find_label s"
  proof (rule Cons.IH)
    fix a b assume "pre @ s = a @ b" "length a < length pre"
    then show "\<not> has_prefix b label_open" using Cons.prems [of "c # a" b] by simp
  qed
  ultimately show ?case by simp
qed simp

lemma find_label_first:
  assumes "\<not> contains_str pre ''service=''"
  shows "find_label (pre @ label_open @ x) = find_label (label_open @ x)"
proof (rule find_label_skip)
  fix a b assume "pre @ label_open @ x = a @ b" "length a < length pre"
  then show "\<not> has_prefix b label_open"
    using label_open_no_overlap [of pre x a] assms by (auto simp: has_prefix_iff)
qed

lemma takeWhile_stop: "list_all P xs \<Longrightarrow> \<not> P c \<Longrightarrow> takeWhile P (xs @ c # ys) = xs \<and> dropWhile P (xs @ c # ys) = c # ys"
  by (induction xs) auto

definition provider_suffix :: "string set" where
  "provider_suffix = {'''', ''@http''}"

lemma label_end_suffix: "sfx \<in> provider_suffix \<Longrightarrow> label_end (sfx @ CHR 0x22 # post)"
  by (auto simp: provider_suffix_def label_end_def)

lemma label_at_minted:
  assumes "sid \<noteq> ''''" "list_all base32_char sid" "sfx \<in> provider_suffix"
    "rest = ''ui'' \<or> rest = ''api-'' @ dec i"
  shows "label_at (label_open @ sid @ CHR ''-'' # rest @ sfx @ CHR 0x22 # post) = Some sid"
proof -
  let ?r = "rest @ sfx @ CHR 0x22 # post"
  have "\<not> base32_char (CHR ''-'')" by (simp add: base32_char_def char_class_defs)
  from takeWhile_stop [OF assms(2) this, of ?r]
  have tw: "takeWhile base32_char (sid @ CHR ''-'' # ?r) = sid"
    "dropWhile base32_char (sid @ CHR ''-'' # ?r) = CHR ''-'' # ?r" by simp_all
  note e = label_end_suffix [OF assms(3), of post]
  from assms(4) show ?thesis
  proof
    assume "rest = ''ui''"
    then show ?thesis using tw assms(1) e cut_prefix_append [of "''-ui''" "sfx @ CHR 0x22 # post"]
      by (simp add: label_at_def)
  next
    assume r: "rest = ''api-'' @ dec i"
    have nd: "\<not> is_digit (hd (sfx @ CHR 0x22 # post))" "sfx @ CHR 0x22 # post \<noteq> ''''"
      using assms(3) by (auto simp: provider_suffix_def char_class_defs)
    then obtain c t where ct: "sfx @ CHR 0x22 # post = c # t" "\<not> is_digit c" by (metis list.exhaust_sel)
    from takeWhile_stop [OF dec_digits ct(2), of i t] have
      dw: "takeWhile is_digit (dec i @ sfx @ CHR 0x22 # post) = dec i"
      "dropWhile is_digit (dec i @ sfx @ CHR 0x22 # post) = sfx @ CHR 0x22 # post"
      unfolding ct(1) by simp_all
    have "cut_prefix (CHR ''-'' # ?r) ''-ui'' = None" using r by (simp add: cut_prefix_def has_prefix_def)
    moreover have "cut_prefix (CHR ''-'' # ?r) ''-api-'' = Some (dec i @ sfx @ CHR 0x22 # post)"
      using r cut_prefix_append [of "''-api-''" "dec i @ sfx @ CHR 0x22 # post"] by simp
    ultimately show ?thesis using tw assms(1) e dw by (simp add: label_at_def)
  qed
qed

lemma label_open_append: "label_open @ sid @ CHR ''-'' # rest = ''service='' @ CHR 0x22 # ''s-'' @ sid @ CHR ''-'' # rest"
  by (simp add: label_open_def)

lemma minted_id_base32: "list_all base32_char (new_session_id u bs)"
proof -
  have "list_all (\<lambda>g. base32_char (digit32 g)) (List.n_lists 5 [False, True])" by code_simp
  then have "length g = 5 \<Longrightarrow> base32_char (digit32 g)" for g by (simp add: five_bits list_all_iff)
  then show ?thesis
    using groups5_length by (auto simp: new_session_id_base32 base32_encode_def list_all_iff)
qed

text \<open>What a line contributes to a Session's count.\<close>

definition line_sample :: "string \<Rightarrow> string \<Rightarrow> 64 word option" where
  "line_sample sid line =
     (if has_prefix line metric_prefix \<and> find_label line = Some sid
      then map_option to_uint64 (parse_float (last (fields line))) else None)"

definition samples :: "string \<Rightarrow> string list \<Rightarrow> 64 word list" where
  "samples sid ls = List.map_filter (line_sample sid) ls"

lemma count_line_get:
  "count_line cs line sid =
     (case line_sample sid line of None \<Rightarrow> cs sid
      | Some v \<Rightarrow> Some ((case cs sid of None \<Rightarrow> 0 | Some n \<Rightarrow> n) + v))"
  by (auto simp: count_line_def line_sample_def split: option.splits)

lemma count_lines_sum:
  "foldl count_line cs ls sid =
     (if samples sid ls = [] then cs sid
      else Some ((case cs sid of None \<Rightarrow> 0 | Some n \<Rightarrow> n) + sum_list (samples sid ls)))"
proof (induction ls arbitrary: cs)
  case (Cons l ls)
  then show ?case
    by (auto simp: samples_def map_filter_simps count_line_get add.assoc split: option.splits)
qed (simp add: samples_def map_filter_simps)

section \<open>Properties\<close>

text \<open>The counter of a service is attributed to the Session whose service it is: for a minted id,
  the label Traefik prints for a name the configuration gives that Session (with or without the
  provider suffix, whatever other labels stand before it) is read back as that id.\<close>

theorem metrics_attribution:
  assumes "length bs = 16" "sid = new_session_id u bs" "name = ui_name sid \<or> name = api_name sid i"
    "sfx = '''' \<or> sfx = ''@http''" "\<not> contains_str pre ''service=''"
  shows "find_label (pre @ ''service='' @ [CHR 0x22] @ name @ sfx @ [CHR 0x22] @ post) = Some sid"
proof -
  obtain rest where rest: "rest = ''ui'' \<or> rest = ''api-'' @ dec i" "name = ''s-'' @ sid @ CHR ''-'' # rest"
    using assms(3) by (auto simp: ui_name_def api_name_def)
  let ?x = "sid @ CHR ''-'' # rest @ sfx @ CHR 0x22 # post"
  have "length sid = 26"
    using assms(1,2) by (simp add: new_session_id_base32 base32_encode_def length_groups5 length_bits)
  then have ne: "sid \<noteq> ''''" by auto
  have "label_at (label_open @ ?x) = Some sid"
    using ne assms(2,4) rest(1) minted_id_base32 by (intro label_at_minted) (auto simp: provider_suffix_def)
  then have "find_label (label_open @ ?x) = Some sid" by (cases "label_open @ ?x") (auto simp: label_open_def)
  moreover have eq: "pre @ ''service='' @ [CHR 0x22] @ name @ sfx @ [CHR 0x22] @ post = pre @ label_open @ ?x"
    by (simp add: rest(2) label_open_def)
  ultimately show ?thesis unfolding eq find_label_first [OF assms(5)] by blast
qed

theorem metrics_attribution_witness:
  "let sid = new_session_id sample_unicode (replicate 16 (CHR ''x'')) in
     find_label (metric_prefix @ ''code='' @ ''service='' @ [CHR 0x22] @ ui_name sid @ ''@http'' @ [CHR 0x22] @ ''} 3'') = Some sid"
  using metrics_attribution [of "replicate 16 (CHR ''x'')" _ sample_unicode
      "ui_name (new_session_id sample_unicode (replicate 16 (CHR ''x'')))" 0 "''@http''"
      "metric_prefix @ ''code=''" "''} 3''"]
  by (simp add: Let_def metric_prefix_def has_prefix_def)

text \<open>A scrape yields, for each Session, the sum (modulo 2^64) of the samples of its own lines and
  nothing for a Session without one; a line that is not a request counter of a Session, or whose value
  cannot be read, counts for nobody. It fails exactly when the endpoint does not answer 200 or a line
  does not fit the scanner's buffer.\<close>

theorem request_counts_sum:
  "case request_counts sr of
     Inl e \<Rightarrow> (case sr of Response status body \<Rightarrow>
                 status \<noteq> 200 \<or> list_ex (\<lambda>l. max_line \<le> length l) (split_lines body) | _ \<Rightarrow> True)
   | Inr counts \<Rightarrow>
       (\<exists>body. sr = Response 200 body \<and> list_all (\<lambda>l. length l < max_line) (split_lines body) \<and>
          (\<forall>sid. counts sid =
             (let vs = samples sid (map drop_cr (split_lines body))
              in if vs = [] then None else Some (sum_list vs))))"
  by (auto simp: request_counts_def parse_counts_def count_lines_sum Let_def list_ex_iff list_all_iff
      not_le split: scrape_result.splits)

theorem request_counts_sum_witness:
  "\<exists>counts. request_counts (Response 200 ''go_threads 9'') = Ok counts \<and> counts ''a2'' = None"
proof -
  have "request_counts (Response 200 ''go_threads 9'') \<noteq> Inl e" for e
    by (simp add: request_counts_def parse_counts_def split_lines_def max_line_def Let_def)
  then obtain counts where c: "request_counts (Response 200 ''go_threads 9'') = Inr counts"
    by (cases "request_counts (Response 200 ''go_threads 9'')") auto
  with request_counts_sum [of "Response 200 ''go_threads 9''"]
  have "counts ''a2'' = (let vs = samples ''a2'' (map drop_cr (split_lines ''go_threads 9''))
      in if vs = [] then None else Some (sum_list vs))"
    by simp
  also have "\<dots> = None"
    by (simp add: split_lines_def samples_def map_filter_simps line_sample_def drop_cr_def metric_prefix_def
        has_prefix_def)
  finally show ?thesis using c by blast
qed

end
