(* ===== verification/Runner.thy ===== *)
theory Runner
  imports TraefikConfig
begin

text \<open>
  The Runner (\<open>internal/runner\<close>): Project sources, and the Compose runner that boots, tears down and
  probes a Stack. The docker command line is a parameter, a function that takes the daemon's state
  and the arguments of one command to the next state, whether the command succeeded, and its output;
  the YAML encoder, the JSON decoder, the random bytes and the outcomes of the two file operations
  are parameters as well. A context that expires shows as a failing command.
\<close>

section \<open>Projects and their sources\<close>

record project =
  pj_manifest :: manifest
  pj_images :: "string \<rightharpoonup> string"
  pj_commit :: string
  pj_commits :: "string \<rightharpoonup> string"

datatype source_err = ProjectNotFound | SourceFailed string

type_synonym project_source = "string \<Rightarrow> (source_err, project) result"

definition fallback_source :: "project_source \<Rightarrow> project_source \<Rightarrow> project_source" where
  "fallback_source primary secondary pid =
     (case primary pid of
        Inl ProjectNotFound \<Rightarrow> secondary pid
      | r \<Rightarrow> r)"

definition static_source :: "project \<Rightarrow> project_source" where
  "static_source p pid = Ok p"

definition fixture_project :: project where
  "fixture_project =
     \<lparr>pj_manifest =
        \<lparr>m_services = [\<lparr>svc_name = ''web'', svc_repo = ''internal/fixture'', svc_dockerfile = ''Dockerfile'',
            svc_port = 8080, svc_role = role_ui, svc_prefix = '''', svc_healthcheck = []\<rparr>],
         m_db = Some \<lparr>db_engine = ''postgres'', db_version = ''17''\<rparr>,
         m_env = [\<lparr>ev_name = ''WHOAMI_PORT_NUMBER'', ev_source = env_static, ev_value = ''8080'', ev_secret = False\<rparr>],
         m_seed = None, m_egress = []\<rparr>,
      pj_images = [''web'' \<mapsto> ''traefik/whoami:latest''], pj_commit = '''', pj_commits = Map.empty\<rparr>"

section \<open>Names and secrets\<close>

definition project_name :: "string \<Rightarrow> string" where
  "project_name sid = ''s-'' @ sid"

definition network_name :: "string \<Rightarrow> string" where
  "network_name sid = project_name sid @ ''-net''"

definition db_host :: string where
  "db_host = ''db''"

datatype run_err =
    SessionIdRequired | SessionIdBad string
  | ResolveProject source_err
  | RandFailed | UnknownPlatformEnv string | CompileFailed compile_err
  | RenderFailed | MkdirFailed | WriteFailed
  | ComposeUpFailed string | AttachFailed string | ComposeDownFailed string
  | ComposePsFailed string | ParsePsFailed

definition validate_session_id :: "string \<Rightarrow> (run_err, unit) result" where
  "validate_session_id sid =
     (if sid = '''' then Err SessionIdRequired
      else if \<not> list_all (\<lambda>r. is_lower r \<or> is_digit r \<or> r = CHR ''-'') sid then Err (SessionIdBad sid)
      else Ok ())"

definition hex_digit :: "nat \<Rightarrow> char" where
  "hex_digit n = ''0123456789abcdef'' ! n"

definition hex_encode :: "string \<Rightarrow> string" where
  "hex_encode bs = concat (map (\<lambda>c. [hex_digit (byte c div 16), hex_digit (byte c mod 16)]) bs)"

text \<open>The random bytes, or the failure of the random source, are the argument.\<close>

definition rand_token :: "string option \<Rightarrow> (run_err, string) result" where
  "rand_token rnd = (case rnd of None \<Rightarrow> Err RandFailed | Some bs \<Rightarrow> Ok (hex_encode bs))"

fun scrub_secrets :: "string \<Rightarrow> string list \<Rightarrow> string" where
  "scrub_secrets s [] = s"
| "scrub_secrets s (secret # rest) =
     (if secret = '''' then scrub_secrets s rest
      else scrub_secrets (replace_all s secret ''[REDACTED]'') rest)"

section \<open>The plan of a Session\<close>

fun platform_env_loop :: "env_var list \<Rightarrow> string \<Rightarrow> (string \<rightharpoonup> string) \<Rightarrow> (run_err, string \<rightharpoonup> string) result" where
  "platform_env_loop [] dsn env = Ok env"
| "platform_env_loop (e # es) dsn env =
     (if ev_source e \<noteq> env_platform then platform_env_loop es dsn env
      else if ev_name e = ''DATABASE_URL'' then platform_env_loop es dsn (env(ev_name e \<mapsto> dsn))
      else Err (UnknownPlatformEnv (ev_name e)))"

definition resolve_platform_env :: "manifest \<Rightarrow> db_creds \<Rightarrow> (run_err, string \<rightharpoonup> string) result" where
  "resolve_platform_env m creds =
     (let dsn = ''postgres://'' @ dc_user creds @ '':'' @ dc_password creds @ ''@'' @ db_host @ '':5432/'' @
                dc_database creds @ ''?sslmode=disable''
      in platform_env_loop (m_env m) dsn Map.empty)"

record compose_runner =
  cp_runtime :: string
  cp_workdir :: string
  cp_boot_limit :: string
  cp_traefik :: string
  cp_egress_image :: string

text \<open>The loop that keeps the address of the (last) UI service.\<close>

fun ui_url :: "service list \<Rightarrow> string \<Rightarrow> string" where
  "ui_url [] url = url"
| "ui_url (s # ss) url =
     ui_url ss (if svc_role s = role_ui then ''http://'' @ svc_name s @ '':'' @ itoa (svc_port s) else url)"

definition zero_creds :: db_creds where
  "zero_creds = \<lparr>dc_user = '''', dc_password = '''', dc_database = ''''\<rparr>"

definition base_options :: "compose_runner \<Rightarrow> project \<Rightarrow> string \<Rightarrow> options" where
  "base_options c proj sid =
     \<lparr>op_project = project_name sid, op_network_name = network_name sid, op_runtime = cp_runtime c,
      op_app_user = '''', op_resources = no_resources, op_db_resources = no_resources,
      op_images = pj_images proj, op_db_creds = zero_creds, op_platform_env = Map.empty,
      op_egress_image = cp_egress_image c, op_egress_network_name = '''', op_egress_resources = no_resources\<rparr>"

definition session_creds :: "string \<Rightarrow> db_creds" where
  "session_creds password = \<lparr>dc_user = ''showcase'', dc_password = password, dc_database = ''showcase''\<rparr>"

text \<open>The options of a Session and the secrets minted for it: credentials and platform values exist
  only when the contract declares a database.\<close>

definition plan_options ::
    "compose_runner \<Rightarrow> project \<Rightarrow> string \<Rightarrow> string option \<Rightarrow> (run_err, options \<times> string list) result" where
  "plan_options c proj sid rnd =
     (if m_db (pj_manifest proj) = None then Ok (base_options c proj sid, [])
      else
        bind_res (rand_token rnd) (\<lambda>password.
        bind_res (resolve_platform_env (pj_manifest proj) (session_creds password)) (\<lambda>env.
          Ok ((base_options c proj sid)\<lparr>op_db_creds := session_creds password, op_platform_env := env\<rparr>,
              [password]))))"

definition build_plan ::
    "unicode \<Rightarrow> compose_runner \<Rightarrow> project \<Rightarrow> string \<Rightarrow> string option
       \<Rightarrow> (run_err, plan \<times> string \<times> string list) result" where
  "build_plan u c proj sid rnd =
     bind_res (plan_options c proj sid rnd) (\<lambda>(opts, secrets).
     bind_res (map_err CompileFailed (compile u (pj_manifest proj) opts)) (\<lambda>p.
       Ok (p, ui_url (m_services (pj_manifest proj)) '''', secrets)))"

text \<open>The address of a service on the Session's network, by its container's name.\<close>

definition container_url :: "string \<Rightarrow> service \<Rightarrow> string" where
  "container_url sid s =
     ''http://'' @ project_name sid @ ''-'' @ svc_name s @ ''-1:'' @ itoa (svc_port s)"

fun session_backends_loop :: "string \<Rightarrow> service list \<Rightarrow> backend \<times> backend list \<Rightarrow> backend \<times> backend list" where
  "session_backends_loop sid [] acc = acc"
| "session_backends_loop sid (s # ss) acc =
     (let url = container_url sid s
      in session_backends_loop sid ss
        (if svc_role s = role_ui then (\<lparr>be_prefix = '''', be_url = url\<rparr>, snd acc)
         else if svc_role s = role_api then (fst acc, snd acc @ [\<lparr>be_prefix = svc_prefix s, be_url = url\<rparr>])
         else acc))"

definition session_backends :: "project \<Rightarrow> string \<Rightarrow> backend \<times> backend list" where
  "session_backends proj sid =
     session_backends_loop sid (m_services (pj_manifest proj)) (no_backend, [])"

section \<open>Booting, tearing down and probing a Stack\<close>

record container_state =
  ps_service :: string
  ps_state :: string
  ps_exit_code :: int
  ps_health :: string

record 'd platform =
  pf_docker :: "'d \<Rightarrow> string list \<Rightarrow> 'd \<times> bool \<times> string"
  pf_marshal :: "compose_file \<Rightarrow> string option"
  pf_mkdir_ok :: "string \<Rightarrow> bool"
  pf_write_ok :: "string \<Rightarrow> bool"
  pf_decode_list :: "string \<Rightarrow> container_state list option"
  pf_decode_one :: "string \<Rightarrow> container_state option"

text \<open>What the Runner acts on: the registry when it is wired to a proxy, the docker daemon, and the
  generated files.\<close>

record 'd world =
  wd_registry :: "registry option"
  wd_docker :: 'd
  wd_files :: "string \<rightharpoonup> string"

definition docker_cmd :: "'d platform \<Rightarrow> string list \<Rightarrow> 'd world \<Rightarrow> 'd world \<times> bool \<times> string" where
  "docker_cmd pf args w =
     (case pf_docker pf (wd_docker w) args of (d, ok, out) \<Rightarrow> (w\<lparr>wd_docker := d\<rparr>, ok, out))"

definition compose_cmd :: "'d platform \<Rightarrow> string \<Rightarrow> string list \<Rightarrow> 'd world \<Rightarrow> 'd world \<times> bool \<times> string" where
  "compose_cmd pf project args w = docker_cmd pf ([''compose'', ''-p'', project] @ args) w"

definition session_dir :: "compose_runner \<Rightarrow> string \<Rightarrow> string" where
  "session_dir c sid = path_join (cp_workdir c) (project_name sid)"

definition compose_path :: "compose_runner \<Rightarrow> string \<Rightarrow> string" where
  "compose_path c sid = path_join (session_dir c sid) ''compose.yaml''"

text \<open>The placeholder Runner of the scaffold (\<open>runner.go\<close>), which the Compose Runner replaced.\<close>

datatype stub_err = NotImplemented

definition stub_provision :: "string \<Rightarrow> string \<Rightarrow> (stub_err, string) result" where
  "stub_provision project_id sid = Err NotImplemented"

definition stub_teardown :: "string \<Rightarrow> (stub_err, unit) result" where
  "stub_teardown sid = Err NotImplemented"

definition stub_health :: "string \<Rightarrow> (stub_err, bool) result" where
  "stub_health sid = Err NotImplemented"

text \<open>\<open>NewCompose\<close> and its options, applied from left to right; \<open>tmp\<close> is the directory for temporary files. The
  registry \<open>WithProxy\<close> shares is in the world, and the source is an argument of \<open>Provision\<close>.\<close>

type_synonym runner_option = "compose_runner \<Rightarrow> compose_runner"

definition with_runtime :: "string \<Rightarrow> runner_option" where
  "with_runtime runtime c = c\<lparr>cp_runtime := runtime\<rparr>"

definition with_workdir :: "string \<Rightarrow> runner_option" where
  "with_workdir dir c = c\<lparr>cp_workdir := dir\<rparr>"

definition with_proxy :: "string \<Rightarrow> runner_option" where
  "with_proxy traefik c = c\<lparr>cp_traefik := traefik\<rparr>"

definition with_egress_proxy_image :: "string \<Rightarrow> runner_option" where
  "with_egress_proxy_image img c = c\<lparr>cp_egress_image := img\<rparr>"

definition new_compose :: "string \<Rightarrow> runner_option list \<Rightarrow> compose_runner" where
  "new_compose tmp opts =
     foldl (\<lambda>c opt. opt c)
       \<lparr>cp_runtime = ''runsc'', cp_workdir = path_join tmp ''showcase-sessions'', cp_boot_limit = ''120'',
        cp_traefik = '''', cp_egress_image = ''''\<rparr> opts"

definition remove_all :: "string \<Rightarrow> 'd world \<Rightarrow> 'd world" where
  "remove_all dir w =
     w\<lparr>wd_files := (\<lambda>f. if f = dir \<or> has_prefix f (dir @ ''/'') then None else wd_files w f)\<rparr>"

definition update_registry :: "(registry \<Rightarrow> registry) \<Rightarrow> 'd world \<Rightarrow> 'd world" where
  "update_registry f w = w\<lparr>wd_registry := map_option f (wd_registry w)\<rparr>"

definition attach_proxy :: "'d platform \<Rightarrow> compose_runner \<Rightarrow> string \<Rightarrow> 'd world \<Rightarrow> 'd world \<times> string option" where
  "attach_proxy pf c sid w =
     (if cp_traefik c = '''' then (w, None)
      else (case docker_cmd pf [''network'', ''connect'', network_name sid, cp_traefik c] w of
              (w1, ok, out) \<Rightarrow> (w1, if ok then None else Some out)))"

definition detach_proxy :: "'d platform \<Rightarrow> compose_runner \<Rightarrow> string \<Rightarrow> 'd world \<Rightarrow> 'd world" where
  "detach_proxy pf c sid w =
     (if cp_traefik c = '''' then w
      else fst (docker_cmd pf [''network'', ''disconnect'', ''-f'', network_name sid, cp_traefik c] w))"

definition teardown :: "'d platform \<Rightarrow> compose_runner \<Rightarrow> string \<Rightarrow> 'd world \<Rightarrow> 'd world \<times> (run_err, unit) result" where
  "teardown pf c sid w =
     (case validate_session_id sid of
        Inl e \<Rightarrow> (w, Err e)
      | Inr _ \<Rightarrow>
          (let w1 = (if wd_registry w \<noteq> None then detach_proxy pf c sid w else w)
           in case compose_cmd pf (project_name sid) [''down'', ''-v'', ''--remove-orphans''] w1 of
                (w2, ok, out) \<Rightarrow>
                  (let w3 = remove_all (session_dir c sid) w2
                   in if \<not> ok then (w3, Err (ComposeDownFailed out))
                      else (update_registry (reg_remove sid) w3, Ok ()))))"

text \<open>The part of \<open>Provision\<close> that follows the writing of the file.\<close>

definition boot_stack ::
    "'d platform \<Rightarrow> compose_runner \<Rightarrow> project \<Rightarrow> string \<Rightarrow> string \<Rightarrow> string list \<Rightarrow> string \<Rightarrow> 'd world
       \<Rightarrow> 'd world \<times> (run_err, string) result" where
  "boot_stack pf c proj sid url secrets file w =
     (let w1 = (case session_backends proj sid of
                  (ui, apis) \<Rightarrow> update_registry (\<lambda>r. fst (reg_add sid ui apis r)) w)
      in case compose_cmd pf (project_name sid)
           [''-f'', file, ''up'', ''-d'', ''--wait'', ''--wait-timeout'', cp_boot_limit c] w1 of
           (w2, ok, out) \<Rightarrow>
             if \<not> ok then (fst (teardown pf c sid w2), Err (ComposeUpFailed (scrub_secrets out secrets)))
             else if wd_registry w2 = None then (w2, Ok url)
             else (case attach_proxy pf c sid w2 of
                     (w3, Some aout) \<Rightarrow> (fst (teardown pf c sid w3), Err (AttachFailed aout))
                   | (w3, None) \<Rightarrow> (update_registry (\<lambda>r. fst (reg_promote sid r)) w3, Ok url)))"

definition provision ::
    "unicode \<Rightarrow> 'd platform \<Rightarrow> compose_runner \<Rightarrow> project_source \<Rightarrow> string option \<Rightarrow> string \<Rightarrow> string \<Rightarrow> 'd world
       \<Rightarrow> 'd world \<times> (run_err, string) result" where
  "provision u pf c src rnd pid sid w =
     (case validate_session_id sid of
        Inl e \<Rightarrow> (w, Err e)
      | Inr _ \<Rightarrow>
     (case src pid of
        Inl e \<Rightarrow> (w, Err (ResolveProject e))
      | Inr proj \<Rightarrow>
     (case build_plan u c proj sid rnd of
        Inl e \<Rightarrow> (w, Err e)
      | Inr (p, url, secrets) \<Rightarrow>
     (case pf_marshal pf (to_compose p) of
        None \<Rightarrow> (w, Err RenderFailed)
      | Some doc \<Rightarrow>
          if \<not> pf_mkdir_ok pf (session_dir c sid) then (w, Err MkdirFailed)
          else if \<not> pf_write_ok pf (compose_path c sid) then (w, Err WriteFailed)
          else boot_stack pf c proj sid url secrets (compose_path c sid)
                 (w\<lparr>wd_files := (wd_files w)(compose_path c sid \<mapsto> doc)\<rparr>)))))"

section \<open>Health\<close>

fun parse_ps_lines :: "'d platform \<Rightarrow> string list \<Rightarrow> container_state list option" where
  "parse_ps_lines pf [] = Some []"
| "parse_ps_lines pf (l # ls) =
     (let line = trim_space l
      in if line = '''' \<or> \<not> has_prefix line ''{'' then parse_ps_lines pf ls
         else (case pf_decode_one pf line of
                 None \<Rightarrow> None
               | Some s \<Rightarrow> map_option (\<lambda>ss. s # ss) (parse_ps_lines pf ls)))"

definition parse_compose_ps :: "'d platform \<Rightarrow> string \<Rightarrow> container_state list option" where
  "parse_compose_ps pf out =
     (let trimmed = trim_space out
      in if trimmed = '''' then Some []
         else if has_prefix trimmed ''['' then pf_decode_list pf trimmed
         else parse_ps_lines pf (split trimmed (CHR 0x0A)))"

fun healthy_loop :: "container_state list \<Rightarrow> bool" where
  "healthy_loop [] = True"
| "healthy_loop (s # ss) =
     (if ps_state s = ''running'' then
        (if ps_health s = ''unhealthy'' \<or> ps_health s = ''starting'' then False else healthy_loop ss)
      else if ps_state s = ''exited'' then (if ps_exit_code s \<noteq> 0 then False else healthy_loop ss)
      else False)"

definition healthy_from_ps :: "container_state list \<Rightarrow> bool" where
  "healthy_from_ps ss = (if ss = [] then False else healthy_loop ss)"

definition health :: "'d platform \<Rightarrow> string \<Rightarrow> 'd world \<Rightarrow> 'd world \<times> (run_err, bool) result" where
  "health pf sid w =
     (case validate_session_id sid of
        Inl e \<Rightarrow> (w, Err e)
      | Inr _ \<Rightarrow>
          (case compose_cmd pf (project_name sid) [''ps'', ''--all'', ''--format'', ''json''] w of
             (w1, ok, out) \<Rightarrow>
               if \<not> ok then (w1, Err (ComposePsFailed out))
               else (case parse_compose_ps pf out of
                       None \<Rightarrow> (w1, Err ParsePsFailed)
                     | Some ss \<Rightarrow> (w1, Ok (healthy_from_ps ss)))))"

section \<open>Lemmas\<close>

lemma validate_session_id_Ok:
  "validate_session_id sid = Ok x \<longleftrightarrow>
     sid \<noteq> '''' \<and> list_all (\<lambda>r. is_lower r \<or> is_digit r \<or> r = CHR ''-'') sid"
  by (auto simp: validate_session_id_def)

lemma project_name_safe: "validate_session_id sid = Ok x \<Longrightarrow> service_name_ok (project_name sid)"
  by (auto simp: validate_session_id_Ok service_name_ok_def project_name_def lower_alnum_def
      char_class_defs list_all_iff)

lemma service_name_ok_append:
  "service_name_ok a \<Longrightarrow> list_all (\<lambda>c. lower_alnum c \<or> c = CHR ''-'') b \<Longrightarrow> service_name_ok (a @ b)"
  by (auto simp: service_name_ok_def)

lemma update_registry_simps [simp]:
  "wd_docker (update_registry f w) = wd_docker w" "wd_files (update_registry f w) = wd_files w"
  "wd_registry (update_registry f w) = map_option f (wd_registry w)"
  by (simp_all add: update_registry_def)

lemma docker_cmd_simps:
  "docker_cmd pf args w = (w', ok, out) \<Longrightarrow> wd_registry w' = wd_registry w \<and> wd_files w' = wd_files w"
  by (auto simp: docker_cmd_def split: prod.splits)

lemma compose_cmd_simps:
  "compose_cmd pf p args w = (w', ok, out) \<Longrightarrow> wd_registry w' = wd_registry w \<and> wd_files w' = wd_files w"
  by (auto simp: compose_cmd_def dest: docker_cmd_simps)

lemma detach_proxy_registry: "wd_registry (detach_proxy pf c sid w) = wd_registry w"
  by (auto simp: detach_proxy_def docker_cmd_def split: prod.splits)

lemma attach_proxy_registry: "attach_proxy pf c sid w = (w', r) \<Longrightarrow> wd_registry w' = wd_registry w"
  using docker_cmd_simps by (fastforce simp: attach_proxy_def split: if_splits prod.splits)

lemma teardown_cases:
  assumes "validate_session_id sid = Ok ()" "teardown pf c sid w = (w', r)"
  shows "case r of
      Inr _ \<Rightarrow> wd_registry w' = map_option (reg_remove sid) (wd_registry w)
    | Inl e \<Rightarrow> wd_registry w' = wd_registry w"
    and "has_prefix f (session_dir c sid @ ''/'') \<Longrightarrow> wd_files w' f = None"
proof -
  let ?w1 = "if wd_registry w \<noteq> None then detach_proxy pf c sid w else w"
  obtain w2 ok out where cmd: "compose_cmd pf (project_name sid) [''down'', ''-v'', ''--remove-orphans''] ?w1 = (w2, ok, out)"
    by (metis prod_cases3)
  from compose_cmd_simps [OF cmd] have reg: "wd_registry w2 = wd_registry w"
    by (simp add: detach_proxy_registry split: if_splits)
  show "case r of
      Inr _ \<Rightarrow> wd_registry w' = map_option (reg_remove sid) (wd_registry w)
    | Inl e \<Rightarrow> wd_registry w' = wd_registry w"
    using assms(2) cmd reg
    by (auto simp: teardown_def assms(1) Let_def remove_all_def split: if_splits)
  assume "has_prefix f (session_dir c sid @ ''/'')"
  then show "wd_files w' f = None"
    using assms(2) cmd by (auto simp: teardown_def assms(1) Let_def remove_all_def split: if_splits)
qed

lemma healthy_loop_iff:
  "healthy_loop ss \<longleftrightarrow>
     (\<forall>s \<in> set ss. ps_state s = ''running'' \<and> ps_health s \<notin> {''unhealthy'', ''starting''} \<or>
        ps_state s = ''exited'' \<and> ps_exit_code s = 0)"
  by (induction ss) auto

definition hex_char :: "char \<Rightarrow> bool" where
  "hex_char c \<longleftrightarrow> is_digit c \<or> 97 \<le> byte c \<and> byte c \<le> 102"

lemma hex_digit_char: "n < 16 \<Longrightarrow> hex_char (hex_digit n)"
proof -
  assume "n < 16"
  then have "n \<in> set [0..<16]" by simp
  moreover have "list_all (\<lambda>n. hex_char (hex_digit n)) [0..<16]" by code_simp
  ultimately show ?thesis by (simp only: list_all_iff)
qed

lemma hex_encode_chars: "c \<in> set (hex_encode bs) \<Longrightarrow> hex_char c"
proof -
  have "byte c div 16 < 16" for c using byte_less_256 [of c] by (simp add: div_less_iff_less_mult)
  then show "c \<in> set (hex_encode bs) \<Longrightarrow> hex_char c"
    using hex_digit_char by (auto simp: hex_encode_def)
qed

lemma hex_encode_nonempty: "bs \<noteq> [] \<Longrightarrow> hex_encode bs \<noteq> []"
  by (cases bs) (simp_all add: hex_encode_def)

lemma scrub_removes:
  assumes "bs \<noteq> []"
  shows "\<not> contains_str (scrub_secrets s [hex_encode bs]) (hex_encode bs)"
proof -
  have "c \<in> set ''[REDACTED]'' \<Longrightarrow> \<not> hex_char c" for c
    by (auto simp: hex_char_def char_class_defs)
  then have "set (hex_encode bs) \<inter> set ''[REDACTED]'' = {}" using hex_encode_chars by blast
  from replace_all_removes [OF hex_encode_nonempty [OF assms] _ this] show ?thesis
    using hex_encode_nonempty [OF assms] by simp
qed

text \<open>Every way \<open>Provision\<close> can end.\<close>

lemma provision_cases:
  assumes "provision u pf c src rnd pid sid w = (w', r)"
  obtains
    (untouched) e where "r = Err e" "w' = w" "\<And>m. e \<noteq> ComposeUpFailed m"
  | (booted) proj p url secrets w0 where "validate_session_id sid = Ok ()" "src pid = Ok proj"
      "build_plan u c proj sid rnd = Ok (p, url, secrets)"
      "wd_registry w0 = wd_registry w" "wd_docker w0 = wd_docker w"
      "boot_stack pf c proj sid url secrets (compose_path c sid) w0 = (w', r)"
proof (cases "\<exists>proj p url secrets doc. validate_session_id sid = Ok () \<and> src pid = Ok proj \<and>
    build_plan u c proj sid rnd = Ok (p, url, secrets) \<and> pf_marshal pf (to_compose p) = Some doc \<and>
    pf_mkdir_ok pf (session_dir c sid) \<and> pf_write_ok pf (compose_path c sid)")
  case True
  then obtain proj p url secrets doc where *: "validate_session_id sid = Ok ()" "src pid = Ok proj"
    "build_plan u c proj sid rnd = Ok (p, url, secrets)" "pf_marshal pf (to_compose p) = Some doc"
    "pf_mkdir_ok pf (session_dir c sid)" "pf_write_ok pf (compose_path c sid)" by blast
  with assms booted [OF *(1-3), of "w\<lparr>wd_files := (wd_files w)(compose_path c sid \<mapsto> doc)\<rparr>"] show ?thesis
    by (simp add: provision_def)
next
  case False
  have bp: "build_plan u c proj sid rnd = Err e \<Longrightarrow> e \<noteq> ComposeUpFailed msg" for proj e msg
  proof -
    have env: "platform_env_loop es dsn env \<noteq> Err (ComposeUpFailed msg)" for es dsn env
      by (induction es dsn env rule: platform_env_loop.induct) (auto simp del: fun_upd_apply)
    show "build_plan u c proj sid rnd = Err e \<Longrightarrow> e \<noteq> ComposeUpFailed msg"
      using env by (auto simp: build_plan_def plan_options_def Let_def bind_res_Err_iff rand_token_def
          map_err_Err_iff resolve_platform_env_def split: if_splits option.splits prod.splits)
  qed
  from False assms show ?thesis
    by (auto simp: provision_def validate_session_id_def intro: untouched dest: bp
        split: sum.splits prod.splits option.splits if_splits)
qed

lemma boot_stack_failed:
  assumes "boot_stack pf c proj sid url secrets file w = (w', Err e)"
  shows "\<exists>w2. w' = fst (teardown pf c sid w2) \<and>
    ((\<exists>out. e = ComposeUpFailed (scrub_secrets out secrets)) \<or> (\<exists>out. e = AttachFailed out))"
  using assms unfolding boot_stack_def
  by (auto simp: Let_def split: prod.splits if_splits option.splits)

lemma boot_stack_Ok:
  assumes "boot_stack pf c proj sid url secrets file w = (w', Ok url')"
  shows "url' = url \<and> wd_registry w' = map_option (\<lambda>r. fst (reg_promote sid
    (fst (reg_add sid (fst (session_backends proj sid)) (snd (session_backends proj sid)) r)))) (wd_registry w)"
  using assms unfolding boot_stack_def
  by (auto simp: Let_def option.map_comp o_def split: prod.splits if_splits option.splits
      dest!: compose_cmd_simps attach_proxy_registry)

lemma build_plan_secrets:
  assumes "build_plan u c proj sid rnd = Ok (p, url, secrets)"
  shows "secrets = (if m_db (pj_manifest proj) = None then [] else [hex_encode (the rnd)])"
  using assms
  by (auto simp: build_plan_def plan_options_def bind_res_Ok_iff rand_token_def
      split: if_splits option.splits)

section \<open>Properties\<close>


text \<open>A daemon that refuses every \<open>up\<close> and accepts everything else, and one that accepts all.\<close>

definition refusing_platform :: "unit platform" where
  "refusing_platform =
     \<lparr>pf_docker = (\<lambda>d args. (d, ''up'' \<notin> set args, ''boom'')), pf_marshal = (\<lambda>_. Some ''yaml''),
      pf_mkdir_ok = (\<lambda>_. True), pf_write_ok = (\<lambda>_. True), pf_decode_list = (\<lambda>_. None), pf_decode_one = (\<lambda>_. None)\<rparr>"

definition willing_platform :: "unit platform" where
  "willing_platform = refusing_platform\<lparr>pf_docker := (\<lambda>d args. (d, True, ''''))\<rparr>"

definition sample_runner :: compose_runner where
  "sample_runner = \<lparr>cp_runtime = ''runsc'', cp_workdir = ''/w'', cp_boot_limit = ''120'', cp_traefik = ''traefik'',
     cp_egress_image = ''''\<rparr>"

definition sample_project :: project where
  "sample_project = \<lparr>pj_manifest = (pj_manifest fixture_project)\<lparr>m_db := None\<rparr>, pj_images = pj_images fixture_project,
     pj_commit = '''', pj_commits = Map.empty\<rparr>"

definition sample_world :: "unit world" where
  "sample_world = \<lparr>wd_registry = Some (new_registry ''ex.dev''), wd_docker = (), wd_files = Map.empty\<rparr>"

lemma sample_project_plan:
  "\<exists>p. build_plan sample_unicode sample_runner sample_project ''a2'' None = Ok (p, ''http://web:8080'', [])"
proof -
  have "valid_manifest sample_unicode (pj_manifest sample_project)"
  proof -
    have "to_lower sample_unicode ''WHOAMI_PORT_NUMBER'' = ''whoami_port_number''"
      by (subst to_lower_ascii) (simp_all add: lower_byte_def char_class_defs char_of_eq_iff)
    then show ?thesis
      by (simp add: sample_project_def fixture_project_def valid_manifest_def service_ok_def service_name_ok_def
          role_defs platform_name_defs reserved_service_names_def reserved_env_names_def api_prefixes_def
          db_ok_def env_var_ok_def env_source_defs seed_ok_def safe_context_path_iff is_abs_def has_prefix_def
          stays_inside_code lower_alnum_def char_class_defs)
  qed
  then have "\<exists>p. compile sample_unicode (pj_manifest sample_project) (base_options sample_runner sample_project ''a2'') = Ok p"
    unfolding compile_succeeds_iff
    by (simp add: base_options_def project_name_def network_name_def service_name_ok_def lower_alnum_def
        char_class_defs sample_project_def fixture_project_def env_source_defs)
  moreover have "m_db (pj_manifest sample_project) = None" "ui_url (m_services (pj_manifest sample_project)) '''' = ''http://web:8080''"
    by (simp_all add: sample_project_def fixture_project_def role_defs itoa_nonneg dec.simps digit_char_def char_of_eq_iff)
  ultimately show ?thesis by (auto simp: build_plan_def plan_options_def)
qed


text \<open>When \<open>Provision\<close> returns an address the Session is live: its route is in the registry,
  under its host, with the backends of the Project, and every other route is as it was.\<close>

theorem provision_success_is_live:
  assumes "provision u pf c src rnd pid sid w = (w', Ok url)" "wd_registry w = Some r" "reg_distinct r"
  shows "\<exists>proj r' rt. src pid = Ok proj \<and> wd_registry w' = Some r' \<and> reg_get r' sid = Some rt \<and>
    rt_state rt = Live \<and> rt_host rt = reg_host r sid \<and> (rt_ui rt, rt_apis rt) = session_backends proj sid \<and>
    (\<forall>k. k \<noteq> sid \<longrightarrow> reg_get r' k = reg_get r k)"
  using assms(1)
proof (cases rule: provision_cases)
  case (booted proj p url' secrets w0)
  let ?ui = "fst (session_backends proj sid)" and ?apis = "snd (session_backends proj sid)"
  let ?r1 = "fst (reg_add sid ?ui ?apis r)"
  from boot_stack_Ok [OF booted(6)] booted(4) assms(2)
  have reg: "wd_registry w' = Some (fst (reg_promote sid ?r1))" by simp
  have "reg_distinct ?r1"
    using assms(3) by (simp add: reg_add_def Let_def routes.inv_put)
  note get = reg_get_ops(3) [OF this] reg_get_ops(1) [OF assms(3)]
  show ?thesis
    using booted(2) reg by (auto simp: get booting_route_def)
qed simp

theorem provision_success_is_live_witness:
  "\<exists>w' r' rt. provision sample_unicode willing_platform sample_runner (static_source sample_project) None ''p'' ''a2'' sample_world
      = (w', Ok ''http://web:8080'') \<and> wd_registry w' = Some r' \<and> reg_get r' ''a2'' = Some rt \<and> rt_state rt = Live"
proof -
  obtain p where p: "build_plan sample_unicode sample_runner sample_project ''a2'' None = Ok (p, ''http://web:8080'', [])"
    using sample_project_plan by blast
  have sid: "validate_session_id ''a2'' = Ok ()" by (simp add: validate_session_id_Ok char_class_defs)
  obtain w' where w': "provision sample_unicode willing_platform sample_runner (static_source sample_project) None
      ''p'' ''a2'' sample_world = (w', Ok ''http://web:8080'')"
    by (simp add: provision_def sid static_source_def p willing_platform_def refusing_platform_def boot_stack_def
        compose_cmd_def docker_cmd_def attach_proxy_def sample_world_def Let_def case_prod_unfold)
  have w: "wd_registry sample_world = Some (new_registry ''ex.dev'')" "reg_distinct (new_registry ''ex.dev'')"
    using reg_ok_new by (simp_all add: sample_world_def reg_ok_def)
  from provision_success_is_live [OF w' w] w' show ?thesis by blast
qed

text \<open>The password minted for a Session never reaches the error an Owner is shown: whatever docker
  printed, the text of a failed boot does not contain it.\<close>

theorem boot_error_hides_password:
  assumes "provision u pf c src (Some bs) pid sid w = (w', Err (ComposeUpFailed msg))" "bs \<noteq> []"
    "src pid = Ok proj" "m_db (pj_manifest proj) \<noteq> None"
  shows "\<not> contains_str msg (hex_encode bs)"
  using assms(1)
proof (cases rule: provision_cases)
  case (booted proj' p url secrets w0)
  with assms(3) have "proj' = proj" by simp
  with build_plan_secrets [OF booted(3)] assms(4) have "secrets = [hex_encode bs]" by simp
  moreover obtain out where "msg = scrub_secrets out secrets"
    using boot_stack_failed [OF booted(6)] by auto
  ultimately show ?thesis using scrub_removes [OF assms(2)] by simp
qed blast

text \<open>A daemon that prints a password when \<open>up\<close> fails.\<close>

definition echo_platform :: "unit platform" where
  "echo_platform = refusing_platform\<lparr>pf_docker := (\<lambda>d args. (d, ''up'' \<notin> set args, ''pw=ab'')) \<rparr>"

lemma fixture_project_plan:
  "\<exists>p. build_plan sample_unicode sample_runner fixture_project ''a2'' (Some [CHR 0xAB]) = Ok (p, ''http://web:8080'', [''ab''])"
proof -
  let ?opts = "(base_options sample_runner fixture_project ''a2'')\<lparr>op_db_creds := session_creds ''ab'', op_platform_env := Map.empty\<rparr>"
  have hex: "hex_encode [CHR 0xAB] = ''ab''" by (simp add: hex_encode_def hex_digit_def byte_def)
  have "valid_manifest sample_unicode (pj_manifest fixture_project)"
  proof -
    have "to_lower sample_unicode ''WHOAMI_PORT_NUMBER'' = ''whoami_port_number''"
      by (subst to_lower_ascii) (simp_all add: lower_byte_def char_class_defs char_of_eq_iff)
    then show ?thesis
      by (simp add: fixture_project_def valid_manifest_def service_ok_def service_name_ok_def
          role_defs platform_name_defs reserved_service_names_def reserved_env_names_def api_prefixes_def
          db_ok_def env_var_ok_def env_source_defs seed_ok_def safe_context_path_iff is_abs_def has_prefix_def
          stays_inside_code lower_alnum_def char_class_defs)
  qed
  then have "\<exists>p. compile sample_unicode (pj_manifest fixture_project) ?opts = Ok p"
    unfolding compile_succeeds_iff
    by (simp add: base_options_def project_name_def network_name_def service_name_ok_def lower_alnum_def
        char_class_defs fixture_project_def env_source_defs creds_complete_def session_creds_def)
  moreover have "plan_options sample_runner fixture_project ''a2'' (Some [CHR 0xAB]) = Ok (?opts, [''ab''])"
    by (simp add: plan_options_def rand_token_def hex resolve_platform_env_def Let_def fixture_project_def
        env_source_defs)
  moreover have "ui_url (m_services (pj_manifest fixture_project)) '''' = ''http://web:8080''"
    by (simp add: fixture_project_def role_defs itoa_nonneg dec.simps digit_char_def char_of_eq_iff)
  ultimately show ?thesis by (auto simp: build_plan_def)
qed

theorem boot_error_hides_password_witness:
  "\<exists>w' msg. provision sample_unicode echo_platform sample_runner (static_source fixture_project) (Some [CHR 0xAB]) ''p'' ''a2''
      sample_world = (w', Err (ComposeUpFailed msg)) \<and> \<not> contains_str msg (hex_encode [CHR 0xAB])"
proof -
  obtain p where p: "build_plan sample_unicode sample_runner fixture_project ''a2'' (Some [CHR 0xAB]) = Ok (p, ''http://web:8080'', [''ab''])"
    using fixture_project_plan by blast
  have sid: "validate_session_id ''a2'' = Ok ()" by (simp add: validate_session_id_Ok char_class_defs)
  obtain w' msg where w': "provision sample_unicode echo_platform sample_runner (static_source fixture_project)
      (Some [CHR 0xAB]) ''p'' ''a2'' sample_world = (w', Err (ComposeUpFailed msg))"
    by (simp add: provision_def sid static_source_def p echo_platform_def refusing_platform_def boot_stack_def
        compose_cmd_def docker_cmd_def split: prod.split)
  from boot_error_hides_password [OF w', of fixture_project] w' show ?thesis
    by (auto simp: static_source_def fixture_project_def)
qed

text \<open>The addresses the proxy is given name one container each: for ids free of hyphens, two
  services of any two Sessions have the same address only if they are the same service of the same
  Session, so no Session is ever routed into another's Stack.\<close>

theorem backend_addresses_unique:
  assumes "hyphen_free sid" "hyphen_free sid'" "service_name_ok (svc_name s)" "service_name_ok (svc_name s')"
    "container_url sid s = container_url sid' s'"
  shows "sid = sid' \<and> svc_name s = svc_name s' \<and> svc_port s = svc_port s'"
proof -
  let ?x = "svc_name s @ ''-1:'' @ itoa (svc_port s)" and ?y = "svc_name s' @ ''-1:'' @ itoa (svc_port s')"
  have "sid @ CHR ''-'' # ?x = sid' @ CHR ''-'' # ?y"
    using assms(5) by (simp add: container_url_def project_name_def)
  from cut_at_hyphen [OF assms(1,2) this] have sid: "sid = sid'" and xy: "?x = ?y" by simp_all
  have nc: "CHR '':'' \<notin> set (svc_name s @ ''-1'')" "CHR '':'' \<notin> set (svc_name s' @ ''-1'')"
    using assms(3,4) service_name_ok_chars [of _ "CHR '':''"] by (auto simp: lower_alnum_def char_class_defs)
  have x: "cut ?x (CHR '':'') = Some (svc_name s @ ''-1'', itoa (svc_port s))"
    using nc(1) by (simp add: cut_Some)
  have "cut ?x (CHR '':'') = Some (svc_name s' @ ''-1'', itoa (svc_port s'))"
    unfolding xy using nc(2) by (simp add: cut_Some)
  with x have "svc_name s @ ''-1'' = svc_name s' @ ''-1''" "itoa (svc_port s) = itoa (svc_port s')"
    by simp_all
  with sid show ?thesis by simp
qed

theorem backend_addresses_unique_witness:
  "let s = hd (m_services fixture_manifest) in
     hyphen_free ''a2'' \<and> container_url ''a2'' s = container_url ''a2'' s \<and> svc_name s = ''web''"
  using backend_addresses_unique [of "''a2''" "''a2''" "hd (m_services fixture_manifest)" "hd (m_services fixture_manifest)"]
  by (simp add: fixture_manifest_def service_name_ok_def lower_alnum_def char_class_defs hyphen_free_def Let_def)

lemma platform_env_loop_Ok:
  "(\<forall>e \<in> set es. ev_source e = env_platform \<longrightarrow> ev_name e = ''DATABASE_URL'') \<Longrightarrow>
     \<exists>env'. platform_env_loop es dsn env = Ok env' \<and>
       (\<forall>e \<in> set es. ev_source e = env_platform \<longrightarrow> env' (ev_name e) = Some dsn) \<and>
       (env ''DATABASE_URL'' = Some dsn \<longrightarrow> env' ''DATABASE_URL'' = Some dsn)"
proof (induction es dsn env rule: platform_env_loop.induct)
  case (2 e es dsn env)
  show ?case
  proof (cases "ev_source e = env_platform")
    case True
    with "2.prems" have "ev_name e = ''DATABASE_URL''" by simp
    with True 2 show ?thesis by fastforce
  next
    case False
    with 2 show ?thesis by simp
  qed
qed simp

text \<open>A Project that passed validation can be booted. With images for its services and random
  bytes, the only further demands of the plan are: a platform variable is the database address and
  comes with a database, and an allow-list comes with the proxy image. The plan is then compiled for
  the Session's own name and network, and with a database the application gets an address that carries
  the minted password.\<close>

theorem build_plan_succeeds:
  assumes "valid_manifest u (pj_manifest proj)" "validate_session_id sid = Ok ()"
    "\<forall>s \<in> set (m_services (pj_manifest proj)). pj_images proj (svc_name s) \<noteq> None"
    "\<forall>e \<in> set (m_env (pj_manifest proj)). ev_source e = env_platform \<longrightarrow>
        ev_name e = ''DATABASE_URL'' \<and> m_db (pj_manifest proj) \<noteq> None"
    "m_egress (pj_manifest proj) \<noteq> [] \<longrightarrow> cp_egress_image c \<noteq> ''''" "bs \<noteq> []"
  shows "\<exists>p url secrets. build_plan u c proj sid (Some bs) = Ok (p, url, secrets) \<and>
    pl_project p = ''s-'' @ sid \<and> pl_network p = \<lparr>net_name = ''s-'' @ sid @ ''-net'', net_internal = True\<rparr> \<and>
    (\<exists>opts. plan_options c proj sid (Some bs) = Ok (opts, secrets) \<and>
       (\<forall>e \<in> set (m_env (pj_manifest proj)). ev_source e = env_platform \<longrightarrow>
          op_platform_env opts (ev_name e) =
            Some (''postgres://showcase:'' @ hex_encode bs @ ''@db:5432/showcase?sslmode=disable'')))"
proof -
  let ?m = "pj_manifest proj" and ?creds = "session_creds (hex_encode bs)"
  let ?dsn = "''postgres://showcase:'' @ hex_encode bs @ ''@db:5432/showcase?sslmode=disable''"
  have "\<forall>e \<in> set (m_env ?m). ev_source e = env_platform \<longrightarrow> ev_name e = ''DATABASE_URL''"
    using assms(4) by blast
  from platform_env_loop_Ok [OF this, of ?dsn Map.empty] obtain env where
    env: "platform_env_loop (m_env ?m) ?dsn Map.empty = Ok env"
    "\<forall>e \<in> set (m_env ?m). ev_source e = env_platform \<longrightarrow> env (ev_name e) = Some ?dsn"
    by blast
  then have renv: "resolve_platform_env ?m ?creds = Ok env"
    by (simp add: resolve_platform_env_def session_creds_def db_host_def Let_def)
  obtain opts secrets where opts: "plan_options c proj sid (Some bs) = Ok (opts, secrets)"
    "op_project opts = project_name sid" "op_network_name opts = network_name sid"
    "op_egress_network_name opts = ''''" "op_images opts = pj_images proj"
    "op_egress_image opts = cp_egress_image c"
    "m_db ?m \<noteq> None \<Longrightarrow> op_db_creds opts = ?creds \<and> op_platform_env opts = env"
    by (cases "m_db ?m = None")
      (simp_all add: plan_options_def rand_token_def renv base_options_def)
  have names: "service_name_ok (project_name sid)" "service_name_ok (network_name sid)"
    using project_name_safe [OF assms(2)]
    by (simp_all add: network_name_def service_name_ok_append lower_alnum_def char_class_defs)
  have "creds_complete ?creds"
    using hex_encode_nonempty [OF assms(6)] by (simp add: creds_complete_def session_creds_def)
  with assms opts names env(2) have "\<exists>p. compile u ?m opts = Ok p"
    unfolding compile_succeeds_iff by auto
  then obtain p where p: "compile u ?m opts = Ok p" by blast
  then have "pl_project p = project_name sid" "pl_network p = \<lparr>net_name = network_name sid, net_internal = True\<rparr>"
    using opts(2,3) by (auto simp: compile_Ok_iff plan_of_def net_of_def or_default_def network_name_def project_name_def)
  moreover have "build_plan u c proj sid (Some bs) = Ok (p, ui_url (m_services ?m) '''', secrets)"
    by (simp add: build_plan_def opts(1) p)
  ultimately show ?thesis
    using opts(1,7) env(2) assms(4) by (auto simp: network_name_def project_name_def)
qed

theorem build_plan_succeeds_witness:
  "\<exists>p url secrets. build_plan sample_unicode sample_runner
     \<lparr>pj_manifest = fixture_manifest, pj_images = [''web'' \<mapsto> ''i1'', ''api'' \<mapsto> ''i2''], pj_commit = '''', pj_commits = Map.empty\<rparr>
     ''a2'' (Some [CHR 0xAB]) = Ok (p, url, secrets) \<and> pl_project p = ''s-a2''"
proof -
  let ?proj = "\<lparr>pj_manifest = fixture_manifest, pj_images = [''web'' \<mapsto> ''i1'', ''api'' \<mapsto> ''i2''], pj_commit = '''', pj_commits = Map.empty\<rparr>"
  have "valid_manifest sample_unicode (pj_manifest ?proj)"
    using fixture_manifest_valid [of sample_unicode] by (simp add: validate_nil_iff)
  moreover have "validate_session_id ''a2'' = Ok ()" by (simp add: validate_session_id_Ok char_class_defs)
  ultimately show ?thesis
    using build_plan_succeeds [of sample_unicode ?proj "''a2''" sample_runner "[CHR 0xAB]"]
    by (auto simp: fixture_manifest_def)
qed

text \<open>A Stack is healthy exactly when it has containers and each is running with no adverse
  healthcheck or is a one-shot that exited with 0; the probe fails rather than answers when the
  command fails or its output cannot be parsed.\<close>

theorem health_decision:
  "snd (health pf sid w) = Ok b \<longleftrightarrow>
     validate_session_id sid = Ok () \<and>
     (\<exists>w1 out ss. compose_cmd pf (''s-'' @ sid) [''ps'', ''--all'', ''--format'', ''json''] w = (w1, True, out) \<and>
        parse_compose_ps pf out = Some ss \<and>
        b = (ss \<noteq> [] \<and> (\<forall>s \<in> set ss. ps_state s = ''running'' \<and> ps_health s \<notin> {''unhealthy'', ''starting''} \<or>
               ps_state s = ''exited'' \<and> ps_exit_code s = 0)))"
proof -
  have "healthy_from_ps ss \<longleftrightarrow> ss \<noteq> [] \<and> healthy_loop ss" for ss by (simp add: healthy_from_ps_def)
  then show ?thesis
    unfolding healthy_loop_iff
    by (auto simp: health_def project_name_def validate_session_id_def split: sum.splits prod.splits option.splits)
qed

theorem health_decision_witness:
  "snd (health (refusing_platform\<lparr>pf_docker := (\<lambda>d args. (d, True, '''')) \<rparr>) ''a2'' sample_world) = Ok False"
proof -
  have "trim_space '''' = ''''" by (rule trim_space_id) simp
  then show ?thesis
    unfolding health_decision
    by (simp add: validate_session_id_Ok char_class_defs compose_cmd_def docker_cmd_def parse_compose_ps_def
        refusing_platform_def)
qed

end
