(* ===== verification/SessionManager.thy ===== *)
theory SessionManager
  imports Runner
begin

text \<open>
  The play flow (\<open>internal/session/session.go\<close>): admission under the global cap, the background
  boot, shutdown, and the HTTP handler. A boot is an entry of the list of boots in flight from
  \<open>Play\<close> until \<open>boot_done\<close> takes the result of its \<open>Provision\<close>; what happens between the two is
  other components' steps. The minted id, the decoded body and the boots that drain before the
  deadline are arguments.
\<close>

section \<open>The Manager\<close>

record manager =
  mg_scheme :: string
  mg_max_sessions :: int

record manager_state =
  ms_registry :: registry
  ms_inflight :: "(string \<times> string) list"
  ms_cancelled :: bool

record session =
  sn_id :: string
  sn_url :: string

datatype play_err = AtCapacity | MintFailed

definition at_capacity_retry_seconds :: int where
  "at_capacity_retry_seconds = 15"

definition new_manager_state :: "registry \<Rightarrow> manager_state" where
  "new_manager_state r = \<lparr>ms_registry = r, ms_inflight = [], ms_cancelled = False\<rparr>"

definition play ::
    "manager \<Rightarrow> string option \<Rightarrow> string \<Rightarrow> manager_state \<Rightarrow> manager_state \<times> (play_err, session) result" where
  "play m minted pid s =
     (if 0 < mg_max_sessions m \<and> mg_max_sessions m \<le> int (reg_len (ms_registry s))
      then (s, Err AtCapacity)
      else
        (case minted of
           None \<Rightarrow> (s, Err MintFailed)
         | Some sid \<Rightarrow>
             (let reg = fst (reg_add sid no_backend [] (ms_registry s))
              in (s\<lparr>ms_registry := reg, ms_inflight := ms_inflight s @ [(pid, sid)]\<rparr>,
                  Ok \<lparr>sn_id = sid, sn_url = mg_scheme m @ ''://'' @ reg_host reg sid\<rparr>))))"

text \<open>The end of \<open>boot\<close>, after \<open>Provision\<close> returned.\<close>

definition boot_done :: "string \<Rightarrow> string \<Rightarrow> (run_err, string) result \<Rightarrow> manager_state \<Rightarrow> manager_state" where
  "boot_done pid sid res s =
     (let s1 = (case res of
                  Inr url \<Rightarrow> s
                | Inl e \<Rightarrow>
                    if ms_cancelled s then s\<lparr>ms_registry := reg_remove sid (ms_registry s)\<rparr>
                    else s\<lparr>ms_registry := reg_fail sid Failed (ms_registry s)\<rparr>)
      in s1\<lparr>ms_inflight := remove1 (pid, sid) (ms_inflight s1)\<rparr>)"

text \<open>\<open>Shutdown\<close> cancels, then waits: \<open>drained\<close> are the boots, with their results, that finish
  before the deadline, in order. The result says whether all did.\<close>

definition shutdown ::
    "(string \<times> string \<times> (run_err, string) result) list \<Rightarrow> manager_state \<Rightarrow> manager_state \<times> bool" where
  "shutdown drained s =
     (let s1 = foldl (\<lambda>t (pid, sid, res). boot_done pid sid res t) (s\<lparr>ms_cancelled := True\<rparr>) drained
      in (s1, ms_inflight s1 = []))"

section \<open>The play handler\<close>

datatype play_body = BodyEOF | BodyBad | Body string

datatype play_response =
    PlayBadRequest
  | PlayAtCapacity int
  | PlayError
  | PlayStarted session

definition play_handler ::
    "manager \<Rightarrow> string \<Rightarrow> play_body \<Rightarrow> string option \<Rightarrow> manager_state \<Rightarrow> manager_state \<times> play_response" where
  "play_handler m default_pid body minted s =
     (if body = BodyBad then (s, PlayBadRequest)
      else
        let pid = (case body of Body p \<Rightarrow> if p \<noteq> '''' then p else default_pid | _ \<Rightarrow> default_pid)
        in (case play m minted pid s of
              (s1, Inl AtCapacity) \<Rightarrow> (s1, PlayAtCapacity at_capacity_retry_seconds)
            | (s1, Inl MintFailed) \<Rightarrow> (s1, PlayError)
            | (s1, Inr sess) \<Rightarrow> (s1, PlayStarted sess)))"

fun play_status :: "play_response \<Rightarrow> nat" where
  "play_status PlayBadRequest = 400"
| "play_status (PlayAtCapacity n) = 503"
| "play_status PlayError = 500"
| "play_status (PlayStarted s) = 200"

section \<open>Properties\<close>

text \<open>Admission. A play below the cap registers exactly one booting Session, answers its own
  address at once and starts its boot; a play at the cap, or without an id, changes nothing. Plays alone
  never take the registry over the cap.\<close>

theorem play_admits_below_cap:
  assumes "reg_distinct (ms_registry s)" "play m minted pid s = (s', res)"
  shows "case res of
      Inr sess \<Rightarrow> minted = Some (sn_id sess) \<and>
        sn_url sess = mg_scheme m @ ''://s-'' @ sn_id sess @ ''.run.'' @ rg_domain (ms_registry s) \<and>
        ms_inflight s' = ms_inflight s @ [(pid, sn_id sess)] \<and>
        map_option rt_state (reg_get (ms_registry s') (sn_id sess)) = Some Booting \<and>
        (\<forall>k. k \<noteq> sn_id sess \<longrightarrow> reg_get (ms_registry s') k = reg_get (ms_registry s) k) \<and>
        (0 < mg_max_sessions m \<longrightarrow> int (reg_len (ms_registry s')) \<le> mg_max_sessions m)
    | Inl e \<Rightarrow> s' = s \<and> (e = AtCapacity \<longleftrightarrow>
        0 < mg_max_sessions m \<and> mg_max_sessions m \<le> int (reg_len (ms_registry s)))"
proof (cases "0 < mg_max_sessions m \<and> mg_max_sessions m \<le> int (reg_len (ms_registry s))")
  case True
  with assms(2) show ?thesis by (auto simp: play_def)
next
  case False
  show ?thesis
  proof (cases minted)
    case None
    with False assms(2) show ?thesis by (auto simp: play_def)
  next
    case (Some sid)
    let ?r = "fst (reg_add sid no_backend [] (ms_registry s))"
    have s': "s' = s\<lparr>ms_registry := ?r, ms_inflight := ms_inflight s @ [(pid, sid)]\<rparr>"
      and res: "res = Ok \<lparr>sn_id = sid, sn_url = mg_scheme m @ ''://'' @ reg_host ?r sid\<rparr>"
      using False Some assms(2) by (auto simp: play_def Let_def)
    have "reg_len ?r \<le> Suc (reg_len (ms_registry s))"
      using reg_len_ops(1) [OF assms(1)] by (simp add: reg_add_def Let_def)
    then have "0 < mg_max_sessions m \<Longrightarrow> int (reg_len ?r) \<le> mg_max_sessions m" using False by simp
    moreover have "reg_host ?r sid = ''s-'' @ sid @ ''.run.'' @ rg_domain (ms_registry s)"
      by (simp add: reg_add_def Let_def reg_host_def)
    ultimately show ?thesis
      using Some s' res by (simp add: reg_get_ops(1) [OF assms(1)] booting_route_def)
  qed
qed

definition sample_manager :: manager where
  "sample_manager = \<lparr>mg_scheme = ''https'', mg_max_sessions = 1\<rparr>"

theorem play_admits_below_cap_witness:
  "\<exists>s'. play sample_manager (Some ''a2'') ''p'' (new_manager_state (new_registry ''ex.dev'')) =
     (s', Ok \<lparr>sn_id = ''a2'', sn_url = ''https://s-a2.run.ex.dev''\<rparr>) \<and> reg_len (ms_registry s') = 1"
proof -
  let ?s = "new_manager_state (new_registry ''ex.dev'')"
  obtain s' where s': "play sample_manager (Some ''a2'') ''p'' ?s = (s', Ok \<lparr>sn_id = ''a2'', sn_url = ''https://s-a2.run.ex.dev''\<rparr>)"
    by (simp add: play_def sample_manager_def new_manager_state_def new_registry_def reg_len_def reg_add_def
        reg_put_def reg_host_def Let_def)
  have "reg_distinct (ms_registry ?s)" using reg_ok_new by (simp add: new_manager_state_def reg_ok_def)
  from play_admits_below_cap [OF this s']
  have "reg_get (ms_registry s') ''a2'' \<noteq> None" "reg_len (ms_registry s') \<le> 1"
    by (auto simp: sample_manager_def)
  then have "reg_len (ms_registry s') = 1"
    by (cases "rg_routes (ms_registry s')") (auto simp: reg_len_def reg_get_def)
  with s' show ?thesis by blast
qed

lemma boot_done_inflight: "ms_inflight (boot_done pid sid res s) = remove1 (pid, sid) (ms_inflight s)"
  by (simp add: boot_done_def Let_def split: sum.split)

lemma boot_done_cancelled [simp]: "ms_cancelled (boot_done pid sid res s) = ms_cancelled s"
  by (simp add: boot_done_def Let_def split: sum.split)

lemma drain_inflight:
  "ms_inflight (foldl (\<lambda>t (pid, sid, res). boot_done pid sid res t) s drained) =
     foldl (\<lambda>xs (pid, sid, res). remove1 (pid, sid) xs) (ms_inflight s) drained"
  by (induction drained arbitrary: s) (auto simp: boot_done_inflight)

lemma drain_mset:
  "mset (foldl (\<lambda>xs (pid, sid, res). remove1 (pid, sid) xs) xs drained) =
     mset xs - mset (map (\<lambda>(pid, sid, res). (pid, sid)) drained)"
  by (induction drained arbitrary: xs) auto

text \<open>Shutdown reports success exactly when every boot in flight finished before the deadline,
  and a boot that fails after the cancellation leaves no failure page behind: its route is dropped.\<close>

theorem shutdown_drains:
  "snd (shutdown drained s) = (mset (ms_inflight s) \<subseteq># mset (map (\<lambda>(pid, sid, res). (pid, sid)) drained)) \<and>
   (reg_distinct (ms_registry s) \<and> drained = [(pid, sid, Err e)] \<longrightarrow>
      reg_get (ms_registry (fst (shutdown drained s))) sid = None)"
proof (intro conjI impI)
  have "snd (shutdown drained s) \<longleftrightarrow>
      mset (foldl (\<lambda>xs (pid, sid, res). remove1 (pid, sid) xs) (ms_inflight s) drained) = {#}"
    by (simp add: shutdown_def Let_def drain_inflight)
  then show "snd (shutdown drained s) = (mset (ms_inflight s) \<subseteq># mset (map (\<lambda>(pid, sid, res). (pid, sid)) drained))"
    unfolding drain_mset Diff_eq_empty_iff_mset .
  assume *: "reg_distinct (ms_registry s) \<and> drained = [(pid, sid, Err e)]"
  then show "reg_get (ms_registry (fst (shutdown drained s))) sid = None"
    by (simp add: shutdown_def boot_done_def Let_def reg_get_ops(2))
qed

theorem shutdown_drains_witness:
  "snd (shutdown [] (new_manager_state (new_registry ''ex.dev'')))"
  using shutdown_drains [of "[]" "new_manager_state (new_registry ''ex.dev'')"]
  by (simp add: new_manager_state_def)

end
