(* ===== verification/Reaper.thy ===== *)
theory Reaper
  imports SessionManager Metrics
begin

text \<open>
  The teardown reaper (\<open>internal/session/reaper.go\<close>). Times are nanoseconds since an epoch and a
  zero time is \<open>None\<close>; the difference of two times saturates as \<open>time.Time.Sub\<close> does. The
  teardown and health functions it is built with are arguments that act on the registry and on the rest
  of the world \<open>'x\<close>; the order in which a tick visits the Sessions, unspecified in Go, is that of the
  list of routes it is given.
\<close>

section \<open>State\<close>

type_synonym time = int
type_synonym duration = int

definition second :: duration where
  "second = 1000000000"

definition min_reaper_interval :: duration where
  "min_reaper_interval = second"

definition time_sub :: "time \<Rightarrow> time \<Rightarrow> duration" where
  "time_sub a b =
     (let d = a - b in if d > 2 ^ 63 - 1 then 2 ^ 63 - 1 else if d < - (2 ^ 63) then - (2 ^ 63) else d)"

record reaper_config =
  rc_idle :: duration
  rc_max_runtime :: duration
  rc_crash_grace :: duration
  rc_failure_linger :: duration
  rc_interval :: duration

definition new_reaper_config :: "reaper_config \<Rightarrow> reaper_config" where
  "new_reaper_config cfg =
     (if rc_interval cfg < min_reaper_interval then cfg\<lparr>rc_interval := min_reaper_interval\<rparr> else cfg)"

record session_clock =
  ck_first_seen :: time
  ck_last_active :: time
  ck_last_count :: "64 word"
  ck_seen_count :: bool
  ck_unhealthy_since :: "time option"
  ck_failed_since :: "time option"

definition new_clock :: "time \<Rightarrow> session_clock" where
  "new_clock now = \<lparr>ck_first_seen = now, ck_last_active = now, ck_last_count = 0, ck_seen_count = False,
     ck_unhealthy_since = None, ck_failed_since = None\<rparr>"

record 'x reaper_state =
  rs_registry :: registry
  rs_ext :: 'x
  rs_tracked :: "string \<rightharpoonup> session_clock"

type_synonym 'x teardown_fn = "string \<Rightarrow> registry \<times> 'x \<Rightarrow> (registry \<times> 'x) \<times> bool"

text \<open>A health check answers with the health, or with \<open>None\<close> for an error.\<close>

type_synonym 'x health_fn = "string \<Rightarrow> 'x \<Rightarrow> 'x \<times> bool option"

definition track :: "string \<Rightarrow> session_clock \<Rightarrow> 'x reaper_state \<Rightarrow> 'x reaper_state" where
  "track sid ck s = s\<lparr>rs_tracked := (rs_tracked s)(sid \<mapsto> ck)\<rparr>"

definition untrack :: "string \<Rightarrow> 'x reaper_state \<Rightarrow> 'x reaper_state" where
  "untrack sid s = s\<lparr>rs_tracked := (rs_tracked s)(sid := None)\<rparr>"

definition run_teardown :: "'x teardown_fn \<Rightarrow> string \<Rightarrow> 'x reaper_state \<Rightarrow> 'x reaper_state \<times> bool" where
  "run_teardown td sid s =
     (case td sid (rs_registry s, rs_ext s) of
        ((r, x), ok) \<Rightarrow> (s\<lparr>rs_registry := r, rs_ext := x\<rparr>, ok))"

section \<open>One tick\<close>

definition reap :: "'x teardown_fn \<Rightarrow> string \<Rightarrow> 'x reaper_state \<Rightarrow> 'x reaper_state" where
  "reap td sid s =
     (case run_teardown td sid s of (s1, ok) \<Rightarrow> if \<not> ok then s1 else untrack sid s1)"

definition crash :: "'x teardown_fn \<Rightarrow> string \<Rightarrow> 'x reaper_state \<Rightarrow> 'x reaper_state" where
  "crash td sid s =
     (case run_teardown td sid s of
        (s1, ok) \<Rightarrow> if \<not> ok then s1 else s1\<lparr>rs_registry := reg_fail sid Crashed (rs_registry s1)\<rparr>)"

text \<open>The boolean says that the Session was handled, the clock is the one left behind.\<close>

definition detect_crash ::
    "reaper_config \<Rightarrow> 'x teardown_fn \<Rightarrow> 'x health_fn option \<Rightarrow> string \<Rightarrow> session_clock \<Rightarrow> time \<Rightarrow> 'x reaper_state
       \<Rightarrow> 'x reaper_state \<times> session_clock \<times> bool" where
  "detect_crash cfg td hc sid ck now s =
     (case hc of
        None \<Rightarrow> (s, ck, False)
      | Some check \<Rightarrow>
          (case check sid (rs_ext s) of
             (x, None) \<Rightarrow> (s\<lparr>rs_ext := x\<rparr>, ck, False)
           | (x, Some True) \<Rightarrow>
               (let ck1 = ck\<lparr>ck_unhealthy_since := None\<rparr> in (track sid ck1 (s\<lparr>rs_ext := x\<rparr>), ck1, False))
           | (x, Some False) \<Rightarrow>
               (let s1 = s\<lparr>rs_ext := x\<rparr>
                in case ck_unhealthy_since ck of
                     None \<Rightarrow>
                       (let ck1 = ck\<lparr>ck_unhealthy_since := Some now\<rparr> in (track sid ck1 s1, ck1, False))
                   | Some since \<Rightarrow>
                       if time_sub now since < rc_crash_grace cfg then (s1, ck, False)
                       else (crash td sid s1, ck, True))))"

definition check_idle ::
    "reaper_config \<Rightarrow> 'x teardown_fn \<Rightarrow> counts option \<Rightarrow> string \<Rightarrow> session_clock \<Rightarrow> time \<Rightarrow> 'x reaper_state
       \<Rightarrow> 'x reaper_state" where
  "check_idle cfg td counts sid ck now s =
     (case counts of
        None \<Rightarrow> s
      | Some cs \<Rightarrow>
          (let count = (case cs sid of None \<Rightarrow> 0 | Some n \<Rightarrow> n)
           in if \<not> ck_seen_count ck then
                track sid (ck\<lparr>ck_last_count := count, ck_seen_count := True, ck_last_active := now\<rparr>) s
              else if count \<noteq> ck_last_count ck then
                track sid (ck\<lparr>ck_last_count := count, ck_last_active := now\<rparr>) s
              else if rc_idle cfg \<le> time_sub now (ck_last_active ck) then reap td sid s
              else s))"

definition clock_of :: "time \<Rightarrow> 'x reaper_state \<Rightarrow> string \<Rightarrow> session_clock" where
  "clock_of now s sid = (case rs_tracked s sid of Some c \<Rightarrow> c | None \<Rightarrow> new_clock now)"

definition visit_terminal ::
    "reaper_config \<Rightarrow> time \<Rightarrow> string \<Rightarrow> session_clock \<Rightarrow> 'x reaper_state \<Rightarrow> 'x reaper_state" where
  "visit_terminal cfg now sid ck s =
     (case ck_failed_since ck of
        None \<Rightarrow> track sid (ck\<lparr>ck_failed_since := Some now\<rparr>) s
      | Some since \<Rightarrow>
          if rc_failure_linger cfg \<le> time_sub now since
          then untrack sid (s\<lparr>rs_registry := reg_remove sid (rs_registry s)\<rparr>)
          else s)"

definition visit_live ::
    "reaper_config \<Rightarrow> 'x teardown_fn \<Rightarrow> 'x health_fn option \<Rightarrow> counts option \<Rightarrow> time \<Rightarrow> string \<Rightarrow> session_clock
       \<Rightarrow> 'x reaper_state \<Rightarrow> 'x reaper_state" where
  "visit_live cfg td hc counts now sid ck s =
     (case detect_crash cfg td hc sid ck now s of
        (s1, ck1, handled) \<Rightarrow> if handled then s1 else check_idle cfg td counts sid ck1 now s1)"

definition visit ::
    "reaper_config \<Rightarrow> 'x teardown_fn \<Rightarrow> 'x health_fn option \<Rightarrow> counts option \<Rightarrow> time \<Rightarrow> route \<Rightarrow> 'x reaper_state
       \<Rightarrow> 'x reaper_state" where
  "visit cfg td hc counts now rt s0 =
     (let sid = rt_session rt; ck = clock_of now s0 sid; s = track sid ck s0
      in if terminal (rt_state rt) then visit_terminal cfg now sid ck s
         else if rc_max_runtime cfg \<le> time_sub now (ck_first_seen ck) then reap td sid s
         else if rt_state rt \<noteq> Live then s
         else visit_live cfg td hc counts now sid ck s)"

definition prune :: "route list \<Rightarrow> 'x reaper_state \<Rightarrow> 'x reaper_state" where
  "prune rts s =
     s\<lparr>rs_tracked := (\<lambda>sid. if sid \<in> rt_session ` set rts then rs_tracked s sid else None)\<rparr>"

definition counts_of :: "(metrics_err, counts) result \<Rightarrow> counts option" where
  "counts_of scraped = (case scraped of Inl e \<Rightarrow> None | Inr cs \<Rightarrow> Some cs)"

text \<open>\<open>visiting\<close> is the order in which the tick meets the listed routes.\<close>

definition tick ::
    "reaper_config \<Rightarrow> 'x teardown_fn \<Rightarrow> 'x health_fn option \<Rightarrow> (route list \<Rightarrow> route list)
       \<Rightarrow> (metrics_err, counts) result \<Rightarrow> time \<Rightarrow> 'x reaper_state \<Rightarrow> 'x reaper_state" where
  "tick cfg td hc visiting scraped now s =
     (let rts = reg_list (rs_registry s)
      in foldl (\<lambda>t rt. visit cfg td hc (counts_of scraped) now rt t) (prune rts s) (visiting rts))"

section \<open>What a teardown promises\<close>

text \<open>The contract the reaper relies on: a teardown that succeeds has removed the Session's route and
  nothing else from the registry, one that fails has left the registry as it was.\<close>

locale stack_teardown =
  fixes td :: "'x teardown_fn"
    and valid :: "string \<Rightarrow> bool"
  assumes td_success: "valid sid \<Longrightarrow> td sid (r, x) = ((r', x'), True) \<Longrightarrow> r' = reg_remove sid r"
    and td_failure: "td sid (r, x) = ((r', x'), False) \<Longrightarrow> r' = r"
    and td_valid: "\<not> valid sid \<Longrightarrow> \<not> snd (td sid (r, x))"
begin

lemma run_teardown_effect:
  assumes "run_teardown td sid s = (s1, ok)"
  shows "rs_tracked s1 = rs_tracked s"
    "rs_registry s1 = (if ok then reg_remove sid (rs_registry s) else rs_registry s)"
proof -
  obtain r x b where td: "td sid (rs_registry s, rs_ext s) = ((r, x), b)" by (metis prod.exhaust)
  with assms have s1: "s1 = s\<lparr>rs_registry := r, rs_ext := x\<rparr>" "ok = b"
    by (auto simp: run_teardown_def)
  then show "rs_tracked s1 = rs_tracked s" by simp
  show "rs_registry s1 = (if ok then reg_remove sid (rs_registry s) else rs_registry s)"
  proof (cases b)
    case True
    with td td_valid [of sid "rs_registry s" "rs_ext s"] have "valid sid" by auto
    with td_success [OF this] td True s1 show ?thesis by simp
  next
    case False
    with td_failure td s1 show ?thesis by simp
  qed
qed

lemma reap_effect:
  "\<exists>ok. rs_registry (reap td sid s) = (if ok then reg_remove sid (rs_registry s) else rs_registry s) \<and>
     rs_tracked (reap td sid s) = (if ok then (rs_tracked s)(sid := None) else rs_tracked s) \<and>
     ok = snd (td sid (rs_registry s, rs_ext s))"
proof -
  obtain s1 ok where "run_teardown td sid s = (s1, ok)" by fastforce
  moreover from this have "ok = snd (td sid (rs_registry s, rs_ext s))"
    by (auto simp: run_teardown_def split: prod.splits)
  ultimately show ?thesis
    using run_teardown_effect [of sid s s1 ok] by (auto simp: reap_def untrack_def)
qed

lemma crash_effect:
  "\<exists>ok. rs_registry (crash td sid s) =
       (if ok then reg_fail sid Crashed (reg_remove sid (rs_registry s)) else rs_registry s) \<and>
     rs_tracked (crash td sid s) = rs_tracked s"
proof -
  obtain s1 ok where "run_teardown td sid s = (s1, ok)" by fastforce
  then show ?thesis
    using run_teardown_effect [of sid s s1 ok] by (auto simp: crash_def)
qed

lemma reg_distinct_reap: "reg_distinct (rs_registry s) \<Longrightarrow> reg_distinct (rs_registry (reap td sid s))"
  using reap_effect [of sid s] by (auto simp: routes.inv_remove)

lemma reap_other:
  assumes "reg_distinct (rs_registry s)" "k \<noteq> sid"
  shows "reg_get (rs_registry (reap td sid s)) k = reg_get (rs_registry s) k"
    "rs_tracked (reap td sid s) k = rs_tracked s k"
  using reap_effect [of sid s] assms by (auto simp: routes.lookup_remove)

lemma crash_other:
  assumes "reg_distinct (rs_registry s)" "k \<noteq> sid"
  shows "reg_get (rs_registry (crash td sid s)) k = reg_get (rs_registry s) k"
    "reg_distinct (rs_registry (crash td sid s))"
  using crash_effect [of sid s] assms
  by (auto simp: routes.lookup_remove routes.inv_remove reg_get_ops(4) reg_fail_def Let_def routes.inv_put
      routes.lookup_put)

end

section \<open>The decision for one Session\<close>

text \<open>What the end conditions say, without the order in which the code tries them.\<close>

datatype verdict = Stay | Expire | EndReap | EndCrash

definition elapsed :: "duration \<Rightarrow> time \<Rightarrow> time option \<Rightarrow> bool" where
  "elapsed d now since = (case since of None \<Rightarrow> False | Some t \<Rightarrow> d \<le> time_sub now t)"

definition idle_for :: "reaper_config \<Rightarrow> counts option \<Rightarrow> time \<Rightarrow> string \<Rightarrow> session_clock \<Rightarrow> bool" where
  "idle_for cfg counts now sid ck =
     (case counts of
        None \<Rightarrow> False
      | Some cs \<Rightarrow> ck_seen_count ck \<and> (case cs sid of None \<Rightarrow> 0 | Some n \<Rightarrow> n) = ck_last_count ck \<and>
          rc_idle cfg \<le> time_sub now (ck_last_active ck))"

definition decide :: "reaper_config \<Rightarrow> bool option \<Rightarrow> counts option \<Rightarrow> time \<Rightarrow> route \<Rightarrow> session_clock \<Rightarrow> verdict" where
  "decide cfg healthy counts now rt ck =
     (if terminal (rt_state rt) then
        (if elapsed (rc_failure_linger cfg) now (ck_failed_since ck) then Expire else Stay)
      else if rc_max_runtime cfg \<le> time_sub now (ck_first_seen ck) then EndReap
      else if rt_state rt = Live \<and> healthy = Some False \<and> elapsed (rc_crash_grace cfg) now (ck_unhealthy_since ck)
      then EndCrash
      else if rt_state rt = Live \<and> idle_for cfg counts now (rt_session rt) ck then EndReap
      else Stay)"

definition health_answer :: "'x health_fn option \<Rightarrow> string \<Rightarrow> 'x \<Rightarrow> bool option" where
  "health_answer hc sid x = (case hc of None \<Rightarrow> None | Some check \<Rightarrow> snd (check sid x))"

definition after_verdict :: "verdict \<Rightarrow> bool \<Rightarrow> string \<Rightarrow> registry \<Rightarrow> registry" where
  "after_verdict v ok sid r =
     (case v of
        Stay \<Rightarrow> r
      | Expire \<Rightarrow> reg_remove sid r
      | EndReap \<Rightarrow> if ok then reg_remove sid r else r
      | EndCrash \<Rightarrow> if ok then reg_fail sid Crashed (reg_remove sid r) else r)"

lemma track_simps [simp]:
  "rs_registry (track sid ck s) = rs_registry s" "rs_ext (track sid ck s) = rs_ext s"
  "rs_tracked (track sid ck s) = (rs_tracked s)(sid \<mapsto> ck)"
  by (simp_all add: track_def)

lemma untrack_simps [simp]:
  "rs_registry (untrack sid s) = rs_registry s" "rs_tracked (untrack sid s) = (rs_tracked s)(sid := None)"
  by (simp_all add: untrack_def)

context stack_teardown
begin

lemma check_idle_effect:
  "\<exists>ok. rs_registry (check_idle cfg td counts sid ck now s) =
      after_verdict (if idle_for cfg counts now sid ck then EndReap else Stay) ok sid (rs_registry s)"
  using reap_effect [of sid s]
  by (auto simp: check_idle_def idle_for_def after_verdict_def Let_def split: option.splits)

lemma detect_crash_effect:
  assumes "detect_crash cfg td hc sid ck now s = (s1, ck1, handled)"
  shows "handled \<longleftrightarrow> health_answer hc sid (rs_ext s) = Some False \<and> elapsed (rc_crash_grace cfg) now (ck_unhealthy_since ck)"
    and "\<exists>ok. rs_registry s1 = after_verdict (if handled then EndCrash else Stay) ok sid (rs_registry s)"
    and "\<exists>un. ck1 = ck\<lparr>ck_unhealthy_since := un\<rparr>"
    and "k \<noteq> sid \<Longrightarrow> rs_tracked s1 k = rs_tracked s k"
    and "rs_tracked s sid = Some ck \<Longrightarrow> rs_tracked s1 sid = Some ck1"
    and "handled \<Longrightarrow> ck1 = ck"
proof -
  have crash: "\<exists>ok. rs_registry (crash td sid t) =
      (if ok then reg_fail sid Crashed (reg_remove sid (rs_registry t)) else rs_registry t)"
    "rs_tracked (crash td sid t) = rs_tracked t" for t
    using crash_effect [of sid t] by auto
  note d = assms [unfolded detect_crash_def]
  show "handled \<longleftrightarrow> health_answer hc sid (rs_ext s) = Some False \<and> elapsed (rc_crash_grace cfg) now (ck_unhealthy_since ck)"
    using d by (auto simp: health_answer_def elapsed_def Let_def not_less split: option.splits prod.splits bool.splits if_splits)
  show "\<exists>ok. rs_registry s1 = after_verdict (if handled then EndCrash else Stay) ok sid (rs_registry s)"
  proof (cases handled)
    case True
    with d obtain x where s1: "s1 = crash td sid (s\<lparr>rs_ext := x\<rparr>)"
      by (auto simp: Let_def split: option.splits prod.splits bool.splits if_splits)
    from crash(1) [of "s\<lparr>rs_ext := x\<rparr>"] obtain ok where
      "rs_registry s1 = (if ok then reg_fail sid Crashed (reg_remove sid (rs_registry (s\<lparr>rs_ext := x\<rparr>)))
         else rs_registry (s\<lparr>rs_ext := x\<rparr>))"
      unfolding s1 by blast
    with True show ?thesis by (intro exI [of _ ok]) (simp add: after_verdict_def)
  next
    case False
    with d have "rs_registry s1 = rs_registry s"
      by (auto simp: Let_def split: option.splits prod.splits bool.splits if_splits)
    with False show ?thesis by (simp add: after_verdict_def)
  qed
  have "ck1 = ck \<or> (\<exists>un. ck1 = ck\<lparr>ck_unhealthy_since := un\<rparr>)"
    using d by (auto simp: Let_def split: option.splits prod.splits bool.splits if_splits)
  moreover have "ck = ck\<lparr>ck_unhealthy_since := ck_unhealthy_since ck\<rparr>" by simp
  ultimately show "\<exists>un. ck1 = ck\<lparr>ck_unhealthy_since := un\<rparr>" by metis
  show "handled \<Longrightarrow> ck1 = ck"
    using d by (auto simp: Let_def split: option.splits prod.splits bool.splits if_splits)
  show "k \<noteq> sid \<Longrightarrow> rs_tracked s1 k = rs_tracked s k"
    using d crash(2) by (auto simp: Let_def split: option.splits prod.splits bool.splits if_splits)
  show "rs_tracked s sid = Some ck \<Longrightarrow> rs_tracked s1 sid = Some ck1"
    using d crash(2) by (auto simp: Let_def split: option.splits prod.splits bool.splits if_splits)
qed

end

context stack_teardown
begin

lemma check_idle_tracked:
  assumes "rs_tracked s sid = Some ck"
  shows "k \<noteq> sid \<Longrightarrow> rs_tracked (check_idle cfg td counts sid ck now s) k = rs_tracked s k"
    and "rs_tracked (check_idle cfg td counts sid ck now s) sid = Some c \<Longrightarrow>
      ck_first_seen c = ck_first_seen ck"
  using assms reap_effect [of sid s]
  by (auto simp: check_idle_def Let_def split: option.splits if_splits)

lemma visit_live_effect:
  assumes "rs_tracked s sid = Some ck"
  shows "\<exists>ok. rs_registry (visit_live cfg td hc counts now sid ck s) =
      after_verdict
        (if health_answer hc sid (rs_ext s) = Some False \<and> elapsed (rc_crash_grace cfg) now (ck_unhealthy_since ck)
         then EndCrash else if idle_for cfg counts now sid ck then EndReap else Stay) ok sid (rs_registry s)"
    and "k \<noteq> sid \<Longrightarrow> rs_tracked (visit_live cfg td hc counts now sid ck s) k = rs_tracked s k"
    and "rs_tracked (visit_live cfg td hc counts now sid ck s) sid = Some c \<Longrightarrow> ck_first_seen c = ck_first_seen ck"
proof -
  obtain s1 ck1 handled where d: "detect_crash cfg td hc sid ck now s = (s1, ck1, handled)"
    by (metis prod_cases3)
  have v: "visit_live cfg td hc counts now sid ck s =
      (if handled then s1 else check_idle cfg td counts sid ck1 now s1)"
    by (simp add: visit_live_def d)
  note de = detect_crash_effect [OF d]
  have tr: "rs_tracked s1 sid = Some ck1" using de(5) assms by simp
  have first: "ck_first_seen ck1 = ck_first_seen ck" "idle_for cfg counts now sid ck1 = idle_for cfg counts now sid ck"
    if "\<not> handled"
  proof -
    from de(3) obtain un where "ck1 = ck\<lparr>ck_unhealthy_since := un\<rparr>" by blast
    then show "ck_first_seen ck1 = ck_first_seen ck" "idle_for cfg counts now sid ck1 = idle_for cfg counts now sid ck"
      by (simp_all add: idle_for_def split: option.split)
  qed
  show "k \<noteq> sid \<Longrightarrow> rs_tracked (visit_live cfg td hc counts now sid ck s) k = rs_tracked s k"
    unfolding v using de(4) [of k] check_idle_tracked(1) [OF tr, of k] by simp
  show "rs_tracked (visit_live cfg td hc counts now sid ck s) sid = Some c \<Longrightarrow> ck_first_seen c = ck_first_seen ck"
    unfolding v using check_idle_tracked(2) [OF tr, of cfg counts now c] first(1) tr de(6)
    by (cases handled) simp_all
  show "\<exists>ok. rs_registry (visit_live cfg td hc counts now sid ck s) =
      after_verdict
        (if health_answer hc sid (rs_ext s) = Some False \<and> elapsed (rc_crash_grace cfg) now (ck_unhealthy_since ck)
         then EndCrash else if idle_for cfg counts now sid ck then EndReap else Stay) ok sid (rs_registry s)"
  proof (cases handled)
    case True
    with de(1,2) show ?thesis unfolding v by simp
  next
    case False
    with de(2) have "rs_registry s1 = rs_registry s" by (simp add: after_verdict_def)
    with False de(1) check_idle_effect [of cfg counts sid ck1 now s1] first(2) show ?thesis
      unfolding v by auto
  qed
qed

lemma visit_effect:
  fixes rt s now
  defines "sid \<equiv> rt_session rt" and "ck \<equiv> clock_of now s (rt_session rt)"
  shows "\<exists>ok. rs_registry (visit cfg td hc counts now rt s) =
      after_verdict (decide cfg (health_answer hc sid (rs_ext s)) counts now rt ck) ok sid (rs_registry s)"
    and "k \<noteq> sid \<Longrightarrow> rs_tracked (visit cfg td hc counts now rt s) k = rs_tracked s k"
    and "rs_tracked (visit cfg td hc counts now rt s) sid = Some c \<Longrightarrow> ck_first_seen c = ck_first_seen ck"
proof -
  let ?s = "track sid ck s"
  have tr: "rs_tracked ?s sid = Some ck" by simp
  have v: "visit cfg td hc counts now rt s =
     (if terminal (rt_state rt) then visit_terminal cfg now sid ck ?s
      else if rc_max_runtime cfg \<le> time_sub now (ck_first_seen ck) then reap td sid ?s
      else if rt_state rt \<noteq> Live then ?s else visit_live cfg td hc counts now sid ck ?s)"
    by (simp add: visit_def Let_def sid_def ck_def)
  have ended: "\<exists>ok. rs_registry (visit_terminal cfg now sid ck ?s) =
      after_verdict (if elapsed (rc_failure_linger cfg) now (ck_failed_since ck) then Expire else Stay) ok sid (rs_registry s)"
    "k \<noteq> sid \<Longrightarrow> rs_tracked (visit_terminal cfg now sid ck ?s) k = rs_tracked s k"
    "rs_tracked (visit_terminal cfg now sid ck ?s) sid = Some c \<Longrightarrow> ck_first_seen c = ck_first_seen ck"
    by (auto simp: visit_terminal_def elapsed_def after_verdict_def split: option.splits if_splits)
  have reap: "\<exists>ok. rs_registry (reap td sid ?s) = after_verdict EndReap ok sid (rs_registry s)"
    "k \<noteq> sid \<Longrightarrow> rs_tracked (reap td sid ?s) k = rs_tracked s k"
    "rs_tracked (reap td sid ?s) sid = Some c \<Longrightarrow> ck_first_seen c = ck_first_seen ck"
    using reap_effect [of sid ?s] by (auto simp: after_verdict_def split: if_splits)
  note live = visit_live_effect [OF tr]
  show "k \<noteq> sid \<Longrightarrow> rs_tracked (visit cfg td hc counts now rt s) k = rs_tracked s k"
    unfolding v using ended(2) reap(2) live(2) [of k] by simp
  show "rs_tracked (visit cfg td hc counts now rt s) sid = Some c \<Longrightarrow> ck_first_seen c = ck_first_seen ck"
    unfolding v using ended(3) reap(3) live(3) by (simp split: if_splits)
  have stay: "rs_registry ?s = after_verdict Stay ok sid (rs_registry s)" for ok by (simp add: after_verdict_def)
  consider "terminal (rt_state rt)"
    | "\<not> terminal (rt_state rt)" "rc_max_runtime cfg \<le> time_sub now (ck_first_seen ck)"
    | "\<not> terminal (rt_state rt)" "\<not> rc_max_runtime cfg \<le> time_sub now (ck_first_seen ck)" "rt_state rt \<noteq> Live"
    | "\<not> terminal (rt_state rt)" "\<not> rc_max_runtime cfg \<le> time_sub now (ck_first_seen ck)" "rt_state rt = Live"
    by blast
  then show "\<exists>ok. rs_registry (visit cfg td hc counts now rt s) =
      after_verdict (decide cfg (health_answer hc sid (rs_ext s)) counts now rt ck) ok sid (rs_registry s)"
  proof cases
    case 1
    with ended(1) show ?thesis by (simp add: v decide_def)
  next
    case 2
    with reap(1) show ?thesis by (simp add: v decide_def)
  next
    case 3
    with stay show ?thesis by (simp add: v decide_def)
  next
    case 4
    have "decide cfg (health_answer hc sid (rs_ext s)) counts now rt ck =
        (if health_answer hc sid (rs_ext ?s) = Some False \<and> elapsed (rc_crash_grace cfg) now (ck_unhealthy_since ck)
         then EndCrash else if idle_for cfg counts now sid ck then EndReap else Stay)"
      using 4 by (simp add: decide_def flip: sid_def)
    moreover have "visit cfg td hc counts now rt s = visit_live cfg td hc counts now sid ck ?s" using 4 v by simp
    ultimately show ?thesis using live(1) [of cfg hc counts now] by (simp only: track_simps(1))
  qed
qed

end

section \<open>A whole tick\<close>

lemma after_verdict_other:
  assumes "reg_distinct r"
  shows "reg_distinct (after_verdict v ok sid r)"
    and "k \<noteq> sid \<Longrightarrow> reg_get (after_verdict v ok sid r) k = reg_get r k"
  using assms
  by (auto simp: after_verdict_def reg_get_ops routes.inv_remove reg_fail_def Let_def
      intro!: routes.inv_put routes.inv_remove split: verdict.split)
    (simp_all add: routes.lookup_put routes.lookup_remove routes.inv_remove)

lemma after_verdict_same:
  assumes "reg_distinct r" "reg_distinct r'" "reg_get r sid = reg_get r' sid" "rg_domain r = rg_domain r'"
  shows "reg_get (after_verdict v ok sid r) sid = reg_get (after_verdict v ok sid r') sid"
  using assms
  by (auto simp: after_verdict_def reg_get_ops routes.inv_remove reg_fail_def Let_def reg_host_def
      routes.lookup_put routes.lookup_remove split: verdict.split)

lemma after_verdict_domain [simp]: "rg_domain (after_verdict v ok sid r) = rg_domain r"
  by (simp add: after_verdict_def reg_fail_def Let_def split: verdict.split)

context stack_teardown
begin

lemma visit_frame:
  assumes "reg_distinct (rs_registry s)"
  shows "reg_distinct (rs_registry (visit cfg td hc counts now rt s))"
    and "rg_domain (rs_registry (visit cfg td hc counts now rt s)) = rg_domain (rs_registry s)"
    and "k \<noteq> rt_session rt \<Longrightarrow>
      reg_get (rs_registry (visit cfg td hc counts now rt s)) k = reg_get (rs_registry s) k"
  using visit_effect(1) [of cfg hc counts now rt s] after_verdict_other [OF assms] by fastforce+

lemma visits_frame:
  assumes "reg_distinct (rs_registry s)"
  shows "reg_distinct (rs_registry (foldl (\<lambda>t rt. visit cfg td hc counts now rt t) s rts))"
    and "rg_domain (rs_registry (foldl (\<lambda>t rt. visit cfg td hc counts now rt t) s rts)) = rg_domain (rs_registry s)"
    and "k \<notin> rt_session ` set rts \<Longrightarrow>
      reg_get (rs_registry (foldl (\<lambda>t rt. visit cfg td hc counts now rt t) s rts)) k = reg_get (rs_registry s) k"
    and "k \<notin> rt_session ` set rts \<Longrightarrow>
      rs_tracked (foldl (\<lambda>t rt. visit cfg td hc counts now rt t) s rts) k = rs_tracked s k"
  using assms
proof (induction rts arbitrary: s)
  case (Cons rt rts)
  note frame = visit_frame [where ?cfg = cfg and ?hc = hc and ?counts = counts and ?now = now and ?rt = rt]
    visit_effect(2) [of k rt cfg hc counts now]
  { case 1 with Cons.IH(1) [OF frame(1) [OF 1]] show ?case by simp }
  { case 2 with Cons.IH(2) [OF frame(1) [OF 2]] frame(2) show ?case by simp }
  { case 3 with Cons.IH(3) [OF _ frame(1) [OF 3(2)]] frame(3) show ?case by simp }
  { case 4 with Cons.IH(4) [OF _ frame(1) [OF 4(2)]] frame(4) show ?case by simp }
qed simp_all

text \<open>A tick treats a Session as its visit alone does, in a world the visits before it have reached.\<close>

lemma tick_at:
  assumes ok: "reg_ok (rs_registry s)" and perm: "\<And>rts. mset (visiting rts) = mset rts"
    and rt: "reg_get (rs_registry s) sid = Some rt"
  obtains t where "reg_distinct (rs_registry t)" "rg_domain (rs_registry t) = rg_domain (rs_registry s)"
    "reg_get (rs_registry t) sid = Some rt" "clock_of now t sid = clock_of now s sid" "rt_session rt = sid"
    "reg_get (rs_registry (tick cfg td hc visiting scraped now s)) sid =
       reg_get (rs_registry (visit cfg td hc (counts_of scraped) now rt t)) sid"
    "rs_tracked (tick cfg td hc visiting scraped now s) sid =
       rs_tracked (visit cfg td hc (counts_of scraped) now rt t) sid"
proof -
  let ?rts = "reg_list (rs_registry s)" and ?s = "prune (reg_list (rs_registry s)) s"
  let ?f = "\<lambda>t rt. visit cfg td hc (counts_of scraped) now rt t"
  have sess: "rt_session rt = sid" using ok rt by (auto simp: reg_ok_def route_ok_def)
  have "rt \<in> set ?rts" using snapshot_mem [OF ok] rt sess by (simp add: reg_list_def)
  moreover have "set (visiting ?rts) = set ?rts" using perm mset_eq_setD by blast
  ultimately obtain as bs where split: "visiting ?rts = as @ rt # bs" using split_list by metis
  have "mset (map rt_session (visiting ?rts)) = mset (map rt_session ?rts)" using perm by simp
  then have "distinct (map rt_session (visiting ?rts))"
    using snapshot_distinct [OF ok] mset_eq_imp_distinct_iff unfolding reg_list_def by blast
  then have fresh: "sid \<notin> rt_session ` set as" "sid \<notin> rt_session ` set bs"
    using split sess by auto
  have pr: "rs_registry ?s = rs_registry s" "rs_tracked ?s sid = rs_tracked s sid"
    using \<open>rt \<in> set ?rts\<close> sess by (auto simp: prune_def)
  have dist: "reg_distinct (rs_registry ?s)" using ok pr(1) by (simp add: reg_ok_def)
  let ?t = "foldl ?f ?s as"
  note before = visits_frame [OF dist, where ?cfg = cfg and ?hc = hc and ?counts = "counts_of scraped" and ?now = now
      and ?rts = as]
  note after = visits_frame [OF visit_frame(1) [OF before(1)], where ?cfg = cfg and ?hc = hc
      and ?counts = "counts_of scraped" and ?now = now and ?rts = bs]
  have run: "tick cfg td hc visiting scraped now s = foldl ?f (?f ?t rt) bs"
    by (simp add: tick_def Let_def split)
  show thesis
  proof (rule that [of ?t])
    show "clock_of now ?t sid = clock_of now s sid"
      using before(4) [OF fresh(1)] pr(2) by (simp add: clock_of_def)
  qed (use before after fresh pr rt sess run in simp_all)
qed

lemma tick_verdict:
  assumes "reg_ok (rs_registry s)" "\<And>rts. mset (visiting rts) = mset rts"
    "reg_get (rs_registry s) sid = Some rt"
  shows "\<exists>x ok.
      reg_get (rs_registry (tick cfg td hc visiting scraped now s)) sid =
        reg_get (after_verdict
          (decide cfg (health_answer hc sid x) (counts_of scraped) now rt (clock_of now s sid)) ok sid (rs_registry s)) sid"
proof -
  from tick_at [OF assms] obtain t where t: "reg_distinct (rs_registry t)"
    "rg_domain (rs_registry t) = rg_domain (rs_registry s)" "reg_get (rs_registry t) sid = Some rt"
    "clock_of now t sid = clock_of now s sid" "rt_session rt = sid"
    "reg_get (rs_registry (tick cfg td hc visiting scraped now s)) sid =
       reg_get (rs_registry (visit cfg td hc (counts_of scraped) now rt t)) sid"
    by metis
  moreover from assms(1) have "reg_distinct (rs_registry s)" by (simp add: reg_ok_def)
  ultimately show ?thesis
    using visit_effect(1) [of cfg hc "counts_of scraped" now rt t]
      after_verdict_same [OF t(1), of "rs_registry s" sid] assms(3) by metis
qed

lemma visit_max_runtime:
  assumes "\<not> terminal (rt_state rt)" "rc_max_runtime cfg \<le> time_sub now (ck_first_seen (clock_of now s (rt_session rt)))"
    "\<And>rx. snd (td (rt_session rt) rx)"
  shows "rs_registry (visit cfg td hc counts now rt s) = reg_remove (rt_session rt) (rs_registry s)"
    and "rs_tracked (visit cfg td hc counts now rt s) (rt_session rt) = None"
  using reap_effect [of "rt_session rt" "track (rt_session rt) (clock_of now s (rt_session rt)) s"] assms
  by (auto simp: visit_def Let_def)

text \<open>A Session cannot outstay its clock: the tick past its maximum runtime ends it when the teardown
  works, and no tick before moves the clock's start.\<close>

lemma tick_expires:
  assumes "reg_ok (rs_registry s)" "\<And>rts. mset (visiting rts) = mset rts"
    "reg_get (rs_registry s) sid = Some rt" "\<not> terminal (rt_state rt)"
    "rc_max_runtime cfg \<le> time_sub now (ck_first_seen (clock_of now s sid))" "\<And>rx. snd (td sid rx)"
  shows "reg_get (rs_registry (tick cfg td hc visiting scraped now s)) sid = None"
    and "rs_tracked (tick cfg td hc visiting scraped now s) sid = None"
proof -
  obtain t where t: "reg_distinct (rs_registry t)" "clock_of now t sid = clock_of now s sid" "rt_session rt = sid"
    "reg_get (rs_registry (tick cfg td hc visiting scraped now s)) sid =
       reg_get (rs_registry (visit cfg td hc (counts_of scraped) now rt t)) sid"
    "rs_tracked (tick cfg td hc visiting scraped now s) sid =
       rs_tracked (visit cfg td hc (counts_of scraped) now rt t) sid"
    by (rule tick_at [OF assms(1-3)]) blast
  note v = visit_max_runtime [of rt cfg now t hc "counts_of scraped"]
  from t assms(4-6) show "reg_get (rs_registry (tick cfg td hc visiting scraped now s)) sid = None"
    by (simp add: v(1) reg_get_ops(2))
  from t assms(4-6) show "rs_tracked (tick cfg td hc visiting scraped now s) sid = None"
    using v(2) by simp
qed

lemma tick_keeps_first_seen:
  assumes "reg_ok (rs_registry s)" "\<And>rts. mset (visiting rts) = mset rts"
    "reg_get (rs_registry s) sid = Some rt"
    "rs_tracked (tick cfg td hc visiting scraped now s) sid = Some ck"
  shows "ck_first_seen ck = ck_first_seen (clock_of now s sid)"
proof -
  obtain t where t: "clock_of now t sid = clock_of now s sid" "rt_session rt = sid"
    "rs_tracked (tick cfg td hc visiting scraped now s) sid =
       rs_tracked (visit cfg td hc (counts_of scraped) now rt t) sid"
    by (rule tick_at [OF assms(1-3)]) blast
  with visit_effect(3) [of cfg hc "counts_of scraped" now rt t ck] assms(4) show ?thesis by simp
qed

lemma tick_tracks_present:
  assumes "reg_ok (rs_registry s)" "\<And>rts. mset (visiting rts) = mset rts"
    "reg_get (rs_registry s) sid = None"
  shows "rs_tracked (tick cfg td hc visiting scraped now s) sid = None"
    and "reg_get (rs_registry (tick cfg td hc visiting scraped now s)) sid = None"
proof -
  let ?rts = "reg_list (rs_registry s)"
  have absent: "sid \<notin> rt_session ` set ?rts"
    using snapshot_mem [OF assms(1)] assms(3) by (auto simp: reg_list_def)
  moreover have "set (visiting ?rts) = set ?rts" using assms(2) mset_eq_setD by blast
  ultimately have "sid \<notin> rt_session ` set (visiting ?rts)" by simp
  moreover have "reg_distinct (rs_registry (prune ?rts s))" using assms(1) by (simp add: prune_def reg_ok_def)
  ultimately show "rs_tracked (tick cfg td hc visiting scraped now s) sid = None"
    "reg_get (rs_registry (tick cfg td hc visiting scraped now s)) sid = None"
    using absent assms(3) by (simp_all add: tick_def Let_def visits_frame) (simp_all add: prune_def)
qed

end

section \<open>The Runner behind the reaper\<close>

text \<open>The teardown and the health check the control plane wires in: the Compose Runner's, on a world
  with the shared registry. What the registry is not is the docker daemon and the generated files.\<close>

type_synonym 'd runner_ext = "'d \<times> (string \<rightharpoonup> string)"

definition compose_teardown :: "'d platform \<Rightarrow> compose_runner \<Rightarrow> 'd runner_ext teardown_fn" where
  "compose_teardown pf c sid rx =
     (case rx of (r, d, fs) \<Rightarrow>
        (case teardown pf c sid \<lparr>wd_registry = Some r, wd_docker = d, wd_files = fs\<rparr> of
           (w, res) \<Rightarrow>
             ((case wd_registry w of Some r' \<Rightarrow> r' | None \<Rightarrow> r, wd_docker w, wd_files w),
              (case res of Inr _ \<Rightarrow> True | Inl _ \<Rightarrow> False))))"

definition compose_health :: "'d platform \<Rightarrow> 'd runner_ext health_fn" where
  "compose_health pf sid dx =
     (case dx of (d, fs) \<Rightarrow>
        (case health pf sid \<lparr>wd_registry = None, wd_docker = d, wd_files = fs\<rparr> of
           (w, res) \<Rightarrow>
             ((wd_docker w, wd_files w), (case res of Inr b \<Rightarrow> Some b | Inl _ \<Rightarrow> None))))"

lemma compose_teardown_registry:
  assumes "validate_session_id sid = Ok ()" "compose_teardown pf c sid (r, dx) = ((r', dx'), b)"
  shows "r' = (if b then reg_remove sid r else r)"
proof -
  obtain d fs where dx: "dx = (d, fs)" by fastforce
  obtain w res where td: "teardown pf c sid \<lparr>wd_registry = Some r, wd_docker = d, wd_files = fs\<rparr> = (w, res)"
    by fastforce
  from teardown_cases(1) [OF assms(1) td] assms(2) td dx show ?thesis
    by (auto simp: compose_teardown_def split: sum.splits)
qed

interpretation compose_td: stack_teardown "compose_teardown pf c" "\<lambda>sid. validate_session_id sid = Ok ()"
proof
  fix sid r r' :: "_" and x x' :: "'a runner_ext"
  show "validate_session_id sid = Ok () \<Longrightarrow> compose_teardown pf c sid (r, x) = ((r', x'), True) \<Longrightarrow>
      r' = reg_remove sid r"
    using compose_teardown_registry [of sid pf c r x r' x' True] by simp
  show "\<not> snd (compose_teardown pf c sid (r, x))" if "validate_session_id sid \<noteq> Ok ()"
    using that by (auto simp: compose_teardown_def teardown_def split: prod.splits sum.splits)
  show "compose_teardown pf c sid (r, x) = ((r', x'), False) \<Longrightarrow> r' = r"
    using compose_teardown_registry [of sid pf c r x r' x' False]
    by (cases "validate_session_id sid = Ok ()")
      (auto simp: compose_teardown_def teardown_def split: prod.splits sum.splits)
qed

text \<open>A tick of the reaper does to each Session what its verdict says and nothing else: the route
  is kept, dropped after its linger, dropped after a teardown, or replaced by the crash page, for the
  health its own check answered during the tick. A Session without a route is not touched.\<close>

theorem reaper_tick_refines:
  assumes "reg_ok (rs_registry s)" "\<And>rts. mset (visiting rts) = mset rts"
    "reg_get (rs_registry s) sid = Some rt"
  shows "\<exists>x ok.
      reg_get (rs_registry (tick cfg (compose_teardown pf c) hc visiting scraped now s)) sid =
        reg_get (after_verdict
          (decide cfg (health_answer hc sid x) (counts_of scraped) now rt (clock_of now s sid)) ok sid (rs_registry s)) sid"
  by (rule compose_td.tick_verdict [OF assms])

definition sample_reaper :: reaper_config where
  "sample_reaper = \<lparr>rc_idle = 600 * second, rc_max_runtime = 1800 * second, rc_crash_grace = 30 * second,
     rc_failure_linger = 120 * second, rc_interval = 15 * second\<rparr>"

definition sample_route :: route where
  "sample_route = booting_route (new_registry ''ex.dev'') ''a2'' no_backend []"

definition sample_reaped :: "(unit \<times> (string \<rightharpoonup> string)) reaper_state" where
  "sample_reaped = \<lparr>rs_registry = fst (reg_add ''a2'' no_backend [] (new_registry ''ex.dev'')),
     rs_ext = ((), \<lambda>_. None), rs_tracked = [''a2'' \<mapsto> new_clock 0]\<rparr>"

lemma sample_reaped:
  "reg_ok (rs_registry sample_reaped)" "reg_get (rs_registry sample_reaped) ''a2'' = Some sample_route"
  "clock_of now sample_reaped ''a2'' = new_clock 0"
proof -
  have d: "reg_distinct (new_registry ''ex.dev'')" using reg_ok_new by (simp add: reg_ok_def)
  show "reg_ok (rs_registry sample_reaped)" by (simp add: sample_reaped_def wf_intros)
  show "reg_get (rs_registry sample_reaped) ''a2'' = Some sample_route"
    by (simp add: sample_reaped_def sample_route_def reg_get_ops(1) [OF d])
  show "clock_of now sample_reaped ''a2'' = new_clock 0" by (simp add: clock_of_def sample_reaped_def)
qed

theorem reaper_tick_refines_witness:
  "\<exists>rt. reg_get (rs_registry (tick sample_reaper (compose_teardown willing_platform sample_runner) None
     (\<lambda>rts. rts) (Err ScrapeFailed) (5 * second) sample_reaped)) ''a2'' = Some rt"
proof -
  have "decide sample_reaper h None (5 * second) sample_route (new_clock 0) = Stay" for h
    by (simp add: decide_def sample_route_def booting_route_def terminal_def sample_reaper_def new_clock_def
        time_sub_def second_def)
  with reaper_tick_refines [of sample_reaped "\<lambda>rts. rts" "''a2''" sample_route sample_reaper willing_platform
      sample_runner None "Err ScrapeFailed" "5 * second"] sample_reaped
  show ?thesis by (auto simp: counts_of_def after_verdict_def)
qed



lemma compose_teardown_succeeds:
  assumes "validate_session_id sid = Ok ()"
    "\<And>d. fst (snd (pf_docker pf d ([''compose'', ''-p'', project_name sid] @ [''down'', ''-v'', ''--remove-orphans''])))"
  shows "snd (compose_teardown pf c sid rx)"
proof -
  have "fst (snd (compose_cmd pf (project_name sid) [''down'', ''-v'', ''--remove-orphans''] w))" for w
    using assms(2) [of "wd_docker w"] by (simp add: compose_cmd_def docker_cmd_def case_prod_unfold)
  then show ?thesis
    using assms(1)
    by (auto simp: compose_teardown_def teardown_def Let_def split: prod.splits) (metis fst_conv snd_conv)+
qed

text \<open>A demo ends. The first tick past the maximum runtime of an active Session removes its route
  when \<open>docker compose down\<close> works, whatever the scrape and the health check say and in whatever order
  the tick goes; the start of the runtime never moves; and the reaper forgets a Session whose route is
  gone, so its memory is bounded by the registry.\<close>

theorem reaper_ends_every_session:
  assumes "reg_ok (rs_registry s)" "\<And>rts. mset (visiting rts) = mset rts"
  shows "case reg_get (rs_registry s) sid of
      None \<Rightarrow> rs_tracked (tick cfg (compose_teardown pf c) hc visiting scraped now s) sid = None
    | Some rt \<Rightarrow>
        (validate_session_id sid = Ok () \<and>
         (\<forall>d. fst (snd (pf_docker pf d ([''compose'', ''-p'', project_name sid] @ [''down'', ''-v'', ''--remove-orphans''])))) \<and>
         \<not> terminal (rt_state rt) \<and>
         rc_max_runtime cfg \<le> time_sub now (ck_first_seen (clock_of now s sid)) \<longrightarrow>
           reg_get (rs_registry (tick cfg (compose_teardown pf c) hc visiting scraped now s)) sid = None \<and>
           rs_tracked (tick cfg (compose_teardown pf c) hc visiting scraped now s) sid = None) \<and>
        (terminal (rt_state rt) \<and> elapsed (rc_failure_linger cfg) now (ck_failed_since (clock_of now s sid)) \<longrightarrow>
           reg_get (rs_registry (tick cfg (compose_teardown pf c) hc visiting scraped now s)) sid = None) \<and>
        (\<forall>ck. rs_tracked (tick cfg (compose_teardown pf c) hc visiting scraped now s) sid = Some ck \<longrightarrow>
           ck_first_seen ck = ck_first_seen (clock_of now s sid))"
proof (cases "reg_get (rs_registry s) sid")
  case None
  with compose_td.tick_tracks_present(1) [OF assms] show ?thesis by simp
next
  case (Some rt)
  have dist: "reg_distinct (rs_registry s)" using assms(1) by (simp add: reg_ok_def)
  have "reg_get (rs_registry (tick cfg (compose_teardown pf c) hc visiting scraped now s)) sid = None"
    if "terminal (rt_state rt)" "elapsed (rc_failure_linger cfg) now (ck_failed_since (clock_of now s sid))"
    using compose_td.tick_verdict [OF assms Some, of cfg pf c hc scraped now] that
    by (auto simp: decide_def after_verdict_def reg_get_ops(2) [OF dist])
  moreover note compose_td.tick_expires [OF assms Some _ _ compose_teardown_succeeds]
    compose_td.tick_keeps_first_seen [OF assms Some]
  ultimately show ?thesis using Some by simp
qed

theorem reaper_ends_every_session_witness:
  "reg_get (rs_registry (tick sample_reaper (compose_teardown willing_platform sample_runner) None
     (\<lambda>rts. rts) (Err ScrapeFailed) (1800 * second) sample_reaped)) ''a2'' = None"
proof -
  have "validate_session_id ''a2'' = Ok ()"
    by (simp add: validate_session_id_Ok char_class_defs)
  moreover have "rc_max_runtime sample_reaper \<le> time_sub (1800 * second) (ck_first_seen (clock_of (1800 * second) sample_reaped ''a2''))"
    unfolding sample_reaped(3) by (simp add: sample_reaper_def new_clock_def time_sub_def second_def)
  moreover have "\<not> terminal (rt_state sample_route)"
    by (simp add: sample_route_def booting_route_def terminal_def)
  ultimately show ?thesis
    using reaper_ends_every_session [where ?s = sample_reaped and ?visiting = "\<lambda>rts. rts" and ?sid = "''a2''" and ?cfg = sample_reaper
        and ?pf = willing_platform and ?c = sample_runner and ?hc = None and ?scraped = "Err ScrapeFailed"
        and ?now = "1800 * second"] sample_reaped(1)
    by (simp add: sample_reaped(2) willing_platform_def)
qed

end
