(* ===== verification/SessionSystem.thy ===== *)
theory SessionSystem
  imports Reaper
begin

text \<open>
  The Session lifecycle as the interleaving of its owners: the Manager's \<open>Play\<close> and boots, the
  Runner's \<open>Provision\<close> inside a boot, and the reaper, all on one registry. A step is what one
  of them does between two points where another may run. A boot is at a phase of \<open>Provision\<close>; the
  Stacks are the Sessions with containers, and \<open>sy_leaked\<close> records, for the specification only,
  the Sessions whose \<open>down\<close> failed while their boot cleaned up. The reaper ends no Session
  whose boot is in flight: the boot limit is 3 minutes and the default \<open>MAX_RUNTIME\<close> 45, and a
  configuration that reverses the two is outside the model.
\<close>

section \<open>The step relation\<close>

datatype phase =
    Started string
  | Staged string
  | Upped string
  | Failing string run_err
  | Ended string "(run_err, string) result"

record system =
  sy_ms :: manager_state
  sy_phase :: "string \<rightharpoonup> phase"
  sy_stacks :: "string set"
  sy_leaked :: "string set"
  sy_crashing :: "string set"

abbreviation sy_registry :: "system \<Rightarrow> registry" where
  "sy_registry s \<equiv> ms_registry (sy_ms s)"

definition with_registry :: "registry \<Rightarrow> system \<Rightarrow> system" where
  "with_registry r s = s\<lparr>sy_ms := (sy_ms s)\<lparr>ms_registry := r\<rparr>\<rparr>"

definition at_phase :: "string \<Rightarrow> phase \<Rightarrow> system \<Rightarrow> system" where
  "at_phase sid ph s = s\<lparr>sy_phase := (sy_phase s)(sid \<mapsto> ph)\<rparr>"

definition fresh_session :: "string \<Rightarrow> system \<Rightarrow> bool" where
  "fresh_session sid s \<longleftrightarrow> reg_get (sy_registry s) sid = None \<and> sy_phase s sid = None \<and>
     sid \<notin> sy_stacks s \<and> sid \<notin> sy_leaked s \<and> sid \<notin> sy_crashing s"

definition init_system :: "string \<Rightarrow> system" where
  "init_system domain = \<lparr>sy_ms = new_manager_state (new_registry domain), sy_phase = Map.empty,
     sy_stacks = {}, sy_leaked = {}, sy_crashing = {}\<rparr>"

inductive sys_step :: "manager \<Rightarrow> system \<Rightarrow> system \<Rightarrow> bool" for m :: manager where
  sys_play: "play m (Some sid) pid (sy_ms s) = (ms', Ok sess) \<Longrightarrow> fresh_session sid s \<Longrightarrow>
    sys_step m s (at_phase sid (Started pid) (s\<lparr>sy_ms := ms'\<rparr>))"
| sys_refuse: "sy_phase s sid = Some (Started pid) \<Longrightarrow>
    sys_step m s (at_phase sid (Ended pid (Err e)) s)"
| sys_stage: "sy_phase s sid = Some (Started pid) \<Longrightarrow>
    sys_step m s (at_phase sid (Staged pid) (with_registry (fst (reg_add sid ui apis (sy_registry s))) s))"
| sys_up: "sy_phase s sid = Some (Staged pid) \<Longrightarrow>
    sys_step m s (at_phase sid (Upped pid) (s\<lparr>sy_stacks := insert sid (sy_stacks s)\<rparr>))"
| sys_up_fails: "sy_phase s sid = Some (Staged pid) \<Longrightarrow>
    sys_step m s (at_phase sid (Failing pid e) (s\<lparr>sy_stacks := insert sid (sy_stacks s)\<rparr>))"
| sys_attach_fails: "sy_phase s sid = Some (Upped pid) \<Longrightarrow>
    sys_step m s (at_phase sid (Failing pid e) s)"
| sys_promote: "sy_phase s sid = Some (Upped pid) \<Longrightarrow>
    sys_step m s (at_phase sid (Ended pid (Ok url)) (with_registry (fst (reg_promote sid (sy_registry s))) s))"
| sys_down: "sy_phase s sid = Some (Failing pid e) \<Longrightarrow>
    sys_step m s (at_phase sid (Ended pid (Err e))
      (with_registry (reg_remove sid (sy_registry s)) (s\<lparr>sy_stacks := sy_stacks s - {sid}\<rparr>)))"
| sys_down_fails: "sy_phase s sid = Some (Failing pid e) \<Longrightarrow>
    sys_step m s (at_phase sid (Ended pid (Err e)) (s\<lparr>sy_leaked := insert sid (sy_leaked s)\<rparr>))"
| sys_boot_done: "sy_phase s sid = Some (Ended pid res) \<Longrightarrow>
    sys_step m s (s\<lparr>sy_ms := boot_done pid sid res (sy_ms s), sy_phase := (sy_phase s)(sid := None)\<rparr>)"
| sys_cancel: "sys_step m s (s\<lparr>sy_ms := (sy_ms s)\<lparr>ms_cancelled := True\<rparr>\<rparr>)"
| sys_reap: "reg_get (sy_registry s) sid = Some rt \<Longrightarrow> \<not> terminal (rt_state rt) \<Longrightarrow> sy_phase s sid = None \<Longrightarrow>
    sys_step m s (with_registry (reg_remove sid (sy_registry s)) (s\<lparr>sy_stacks := sy_stacks s - {sid}\<rparr>))"
| sys_crash_down: "reg_get (sy_registry s) sid = Some rt \<Longrightarrow> rt_state rt = Live \<Longrightarrow> sy_phase s sid = None \<Longrightarrow>
    sys_step m s (with_registry (reg_remove sid (sy_registry s))
      (s\<lparr>sy_stacks := sy_stacks s - {sid}, sy_crashing := insert sid (sy_crashing s)\<rparr>))"
| sys_crash_page: "sid \<in> sy_crashing s \<Longrightarrow>
    sys_step m s (with_registry (reg_fail sid Crashed (sy_registry s)) (s\<lparr>sy_crashing := sy_crashing s - {sid}\<rparr>))"
| sys_expire: "reg_get (sy_registry s) sid = Some rt \<Longrightarrow> terminal (rt_state rt) \<Longrightarrow>
    sys_step m s (with_registry (reg_remove sid (sy_registry s)) s)"

inductive sys_reachable :: "manager \<Rightarrow> string \<Rightarrow> system \<Rightarrow> bool" for m domain where
  sys_start: "sys_reachable m domain (init_system domain)"
| sys_next: "sys_reachable m domain s \<Longrightarrow> sys_step m s s' \<Longrightarrow> sys_reachable m domain s'"

section \<open>The Sessions that count\<close>

text \<open>The active Sessions: booting or live.\<close>

definition active :: "registry \<Rightarrow> string set" where
  "active r = {sid. \<exists>rt. reg_get r sid = Some rt \<and> \<not> terminal (rt_state rt)}"

lemma active_ops:
  assumes "reg_distinct r"
  shows "active (fst (reg_add sid ui apis r)) = insert sid (active r)"
    and "active (reg_remove sid r) = active r - {sid}"
    and "terminal st \<Longrightarrow> active (reg_fail sid st r) = active r - {sid}"
    and "reg_get r sid = Some rt \<Longrightarrow> \<not> terminal (rt_state rt) \<Longrightarrow> active (fst (reg_promote sid r)) = active r"
    and "finite (active r)" and "card (active r) \<le> reg_len r"
proof -
  have sub: "active r \<subseteq> {sid. reg_get r sid \<noteq> None}" by (auto simp: active_def)
  from routes.finite_keys [OF assms] sub show "finite (active r)" by (rule finite_subset [rotated])
  from card_mono [OF routes.finite_keys [OF assms] sub] show "card (active r) \<le> reg_len r"
    by (simp add: reg_len_ids routes.length_keys [OF assms])
  show "terminal st \<Longrightarrow> active (reg_fail sid st r) = active r - {sid}"
  proof -
    assume "terminal st"
    moreover have "reg_get (reg_fail sid st r) k = reg_get r k" if "k \<noteq> sid" for k
      using reg_get_ops(4) [OF assms that] .
    moreover obtain rt where "reg_get (reg_fail sid st r) sid = Some rt" "rt_state rt = st"
      using reg_get_ops(5) [OF assms] by blast
    ultimately have "k \<in> active (reg_fail sid st r) \<longleftrightarrow> k \<in> active r - {sid}" for k
      by (cases "k = sid") (simp_all add: active_def)
    then show ?thesis by (rule set_eqI)
  qed
qed (auto simp: active_def reg_get_ops [OF assms] booting_route_def terminal_def)

section \<open>The invariant\<close>

text \<open>What the owners know of one Session: its route, whether it has containers, whether its cleanup
  failed, whether its crash page is due, and the phase of its boot.\<close>

definition is_active :: "route option \<Rightarrow> bool" where
  "is_active rt = (case rt of None \<Rightarrow> False | Some r \<Rightarrow> \<not> terminal (rt_state r))"

fun local_ok :: "route option \<Rightarrow> bool \<Rightarrow> bool \<Rightarrow> bool \<Rightarrow> phase option \<Rightarrow> bool" where
  "local_ok rt stk leaked crashing (Some (Started pid)) \<longleftrightarrow> is_active rt \<and> \<not> stk \<and> \<not> leaked \<and> \<not> crashing"
| "local_ok rt stk leaked crashing (Some (Staged pid)) \<longleftrightarrow> is_active rt \<and> \<not> stk \<and> \<not> leaked \<and> \<not> crashing"
| "local_ok rt stk leaked crashing (Some (Upped pid)) \<longleftrightarrow> is_active rt \<and> \<not> leaked \<and> \<not> crashing"
| "local_ok rt stk leaked crashing (Some (Failing pid e)) \<longleftrightarrow> is_active rt \<and> \<not> leaked \<and> \<not> crashing"
| "local_ok rt stk leaked crashing (Some (Ended pid (Inr url))) \<longleftrightarrow> is_active rt \<and> \<not> leaked \<and> \<not> crashing"
| "local_ok rt stk leaked crashing (Some (Ended pid (Inl e))) \<longleftrightarrow> (stk \<longrightarrow> leaked) \<and> \<not> crashing"
| "local_ok rt stk leaked crashing None \<longleftrightarrow>
     (stk \<and> \<not> leaked \<longrightarrow> is_active rt) \<and> (leaked \<longrightarrow> \<not> is_active rt) \<and> (crashing \<longrightarrow> rt = None \<and> \<not> stk)"

definition session_view :: "system \<Rightarrow> string \<Rightarrow> bool" where
  "session_view s sid \<longleftrightarrow> local_ok (reg_get (sy_registry s) sid) (sid \<in> sy_stacks s) (sid \<in> sy_leaked s)
     (sid \<in> sy_crashing s) (sy_phase s sid)"

definition sys_inv :: "manager \<Rightarrow> system \<Rightarrow> bool" where
  "sys_inv m s \<longleftrightarrow> reg_ok (sy_registry s) \<and> (\<forall>sid. session_view s sid) \<and>
     (0 < mg_max_sessions m \<longrightarrow> int (card (active (sy_registry s))) \<le> mg_max_sessions m)"

lemma sys_simps [simp]:
  "sy_ms (with_registry r s) = (sy_ms s)\<lparr>ms_registry := r\<rparr>"
  "sy_phase (with_registry r s) = sy_phase s" "sy_stacks (with_registry r s) = sy_stacks s"
  "sy_leaked (with_registry r s) = sy_leaked s" "sy_crashing (with_registry r s) = sy_crashing s"
  "sy_ms (at_phase sid ph s) = sy_ms s" "sy_phase (at_phase sid ph s) = (sy_phase s)(sid \<mapsto> ph)"
  "sy_stacks (at_phase sid ph s) = sy_stacks s" "sy_leaked (at_phase sid ph s) = sy_leaked s"
  "sy_crashing (at_phase sid ph s) = sy_crashing s"
  by (simp_all add: with_registry_def at_phase_def)

lemma active_is_active: "sid \<in> active r \<longleftrightarrow> is_active (reg_get r sid)"
  by (auto simp: active_def is_active_def split: option.split)

text \<open>A step concerns one Session: the others keep their view, and the count of active Sessions grows by
  an admission only.\<close>

lemma sys_inv_step:
  assumes inv: "sys_inv m s"
    and frame: "\<And>k. k \<noteq> sid \<Longrightarrow> reg_get (sy_registry s') k = reg_get (sy_registry s) k \<and>
       (k \<in> sy_stacks s' \<longleftrightarrow> k \<in> sy_stacks s) \<and> (k \<in> sy_leaked s' \<longleftrightarrow> k \<in> sy_leaked s) \<and>
       (k \<in> sy_crashing s' \<longleftrightarrow> k \<in> sy_crashing s) \<and> sy_phase s' k = sy_phase s k"
    and "session_view s' sid" "reg_ok (sy_registry s')"
    and count: "active (sy_registry s') \<subseteq> active (sy_registry s) \<or>
       (0 < mg_max_sessions m \<longrightarrow> int (card (active (sy_registry s'))) \<le> mg_max_sessions m)"
  shows "sys_inv m s'"
proof -
  have "session_view s' k" for k
    using inv frame [of k] assms(3) by (cases "k = sid") (auto simp: sys_inv_def session_view_def)
  moreover have "finite (active (sy_registry s))"
    using active_ops(5) inv by (auto simp: sys_inv_def reg_ok_def)
  then have "0 < mg_max_sessions m \<longrightarrow> int (card (active (sy_registry s'))) \<le> mg_max_sessions m"
    using count inv card_mono [of "active (sy_registry s)" "active (sy_registry s')"]
    by (auto simp: sys_inv_def)
  ultimately show ?thesis using assms(4) by (simp add: sys_inv_def)
qed

lemma boot_done_registry:
  "ms_registry (boot_done pid sid (Ok url) ms) = ms_registry ms"
  "ms_registry (boot_done pid sid (Err e) ms) =
     (if ms_cancelled ms then reg_remove sid (ms_registry ms) else reg_fail sid Failed (ms_registry ms))"
  by (simp_all add: boot_done_def Let_def)

lemma play_Ok:
  assumes "play m (Some sid) pid ms = (ms', Ok sess)"
  shows "ms_registry ms' = fst (reg_add sid no_backend [] (ms_registry ms))"
    and "0 < mg_max_sessions m \<Longrightarrow> int (reg_len (ms_registry ms)) < mg_max_sessions m"
  using assms by (auto simp: play_def Let_def split: if_splits)

lemma is_active_ops:
  assumes "reg_distinct r"
  shows "is_active (reg_get (fst (reg_add sid ui apis r)) sid)"
    and "reg_get (reg_remove sid r) sid = None"
    and "terminal st \<Longrightarrow> \<not> is_active (reg_get (reg_fail sid st r) sid)"
    and "is_active (reg_get r sid) \<Longrightarrow> is_active (reg_get (fst (reg_promote sid r)) sid)"
  by (simp_all add: active_ops(1,3) [OF assms] reg_get_ops(2) [OF assms] flip: active_is_active)
    (auto simp: active_is_active is_active_def terminal_def reg_get_ops(3) [OF assms] split: option.splits)

lemmas registry_frame = reg_get_ops(1-4) active_ops(1-3) is_active_ops

lemma is_active_simps [simp]:
  "\<not> is_active None" "is_active (Some (booting_route r sid ui apis))"
  by (simp_all add: is_active_def booting_route_def terminal_def)

lemma terminal_simps [simp]: "terminal Failed" "terminal Crashed" "\<not> terminal Booting" "\<not> terminal Live"
  by (simp_all add: terminal_def)

lemma local_ok_crashing: "local_ok rt stk leaked True ph \<Longrightarrow> ph = None \<and> rt = None \<and> \<not> stk"
  by (cases "(rt, stk, leaked, True, ph)" rule: local_ok.cases) auto

lemma local_ok_inactive: "local_ok rt stk leaked crashing ph \<Longrightarrow> \<not> is_active rt \<Longrightarrow> local_ok None stk leaked crashing ph"
  by (cases "(rt, stk, leaked, crashing, ph)" rule: local_ok.cases) auto

lemma sys_inv_local:
  assumes "sys_inv m s"
    and "\<And>k. k \<noteq> sid \<Longrightarrow> reg_distinct (sy_registry s) \<Longrightarrow> reg_get (sy_registry s') k = reg_get (sy_registry s) k \<and>
       (k \<in> sy_stacks s' \<longleftrightarrow> k \<in> sy_stacks s) \<and> (k \<in> sy_leaked s' \<longleftrightarrow> k \<in> sy_leaked s) \<and>
       (k \<in> sy_crashing s' \<longleftrightarrow> k \<in> sy_crashing s) \<and> sy_phase s' k = sy_phase s k"
    and "session_view s sid \<Longrightarrow> reg_distinct (sy_registry s) \<Longrightarrow> session_view s' sid"
    and "reg_ok (sy_registry s) \<Longrightarrow> reg_ok (sy_registry s')"
    and "session_view s sid \<Longrightarrow> reg_distinct (sy_registry s) \<Longrightarrow>
       active (sy_registry s') \<subseteq> active (sy_registry s)"
  shows "sys_inv m s'"
proof -
  from assms(1) have ok: "reg_ok (sy_registry s)" "reg_distinct (sy_registry s)" "session_view s sid"
    by (auto simp: sys_inv_def reg_ok_def)
  show ?thesis
    using sys_inv_step [OF assms(1), of sid s'] assms(2-5) ok by blast
qed

lemma sys_inv_preserved:
  assumes "sys_step m s s'" "sys_inv m s"
  shows "sys_inv m s'"
  using assms
proof (induction rule: sys_step.induct)
  case (sys_play sid pid s ms' sess)
  note play = play_Ok [OF sys_play(1)]
  from sys_play have ok: "reg_ok (sy_registry s)" "reg_distinct (sy_registry s)"
    by (auto simp: sys_inv_def reg_ok_def)
  show ?case
  proof (rule sys_inv_step [OF sys_play.prems, where sid = sid])
    let ?r = "fst (reg_add sid no_backend [] (sy_registry s))"
    have "reg_distinct ?r" using reg_ok_add [OF ok(1)] by (simp add: reg_ok_def)
    then have "card (active ?r) \<le> reg_len ?r" by (rule active_ops(6))
    also have "reg_len ?r \<le> Suc (reg_len (sy_registry s))"
      using reg_len_ops(1) [OF ok(2)] by (simp add: reg_add_def Let_def)
    finally have "0 < mg_max_sessions m \<Longrightarrow> int (card (active ?r)) \<le> mg_max_sessions m"
      using play(2) by fastforce
    then show "active (sy_registry (at_phase sid (Started pid) (s\<lparr>sy_ms := ms'\<rparr>))) \<subseteq> active (sy_registry s) \<or>
       (0 < mg_max_sessions m \<longrightarrow>
          int (card (active (sy_registry (at_phase sid (Started pid) (s\<lparr>sy_ms := ms'\<rparr>))))) \<le> mg_max_sessions m)"
      by (simp add: play(1))
  qed (use sys_play ok in \<open>auto simp: play(1) registry_frame session_view_def fresh_session_def wf_intros\<close>)
next
  case (sys_stage s sid pid ui apis)
  then show ?case
    by (intro sys_inv_local [OF sys_stage.prems, where sid = sid])
      (auto simp: session_view_def registry_frame active_is_active wf_intros)
next
  case (sys_promote s sid pid url)
  then show ?case
    by (intro sys_inv_local [OF sys_promote.prems, where sid = sid])
      (auto simp: session_view_def registry_frame wf_intros is_active_def active_ops(4) split: option.splits)
next
  case (sys_boot_done s sid pid res)
  then show ?case
    by (cases res; intro sys_inv_local [OF sys_boot_done.prems, where sid = sid])
      (auto simp: boot_done_registry session_view_def registry_frame reg_ok_fail reg_ok_remove)
next
  case (sys_crash_page sid s)
  then show ?case
    by (intro sys_inv_local [OF sys_crash_page.prems, where sid = sid])
      (auto simp: session_view_def registry_frame reg_ok_fail dest: local_ok_crashing)
next
  case (sys_expire s sid rt)
  then have "\<not> is_active (reg_get (sy_registry s) sid)" by (simp add: is_active_def)
  with sys_expire show ?case
    by (intro sys_inv_local [OF sys_expire.prems, where sid = sid])
      (auto simp: session_view_def registry_frame wf_intros intro: local_ok_inactive)
next
  case (sys_cancel s)
  then show ?case by (intro sys_inv_local [OF sys_cancel, where sid = undefined]) (auto simp: session_view_def)
qed (rule sys_inv_local, assumption, auto simp: session_view_def registry_frame wf_intros)+

lemma sys_inv_init: "sys_inv m (init_system domain)"
proof -
  have "reg_get (new_registry domain) k = None" for k by (simp add: reg_get_def new_registry_def)
  then show ?thesis
    using reg_ok_new
    by (auto simp: sys_inv_def init_system_def new_manager_state_def session_view_def active_def)
qed

lemma sys_reachable_inv: "sys_reachable m domain s \<Longrightarrow> sys_inv m s"
  by (induction rule: sys_reachable.induct) (auto intro: sys_inv_init sys_inv_preserved)

section \<open>Properties\<close>



text \<open>The scripts of two runs, one boot each: \<open>up\<close> fails and the cleanup works, or fails too.\<close>

lemma star_trans1: "(sys_step m)\<^sup>*\<^sup>* s t \<Longrightarrow> sys_step m t u \<Longrightarrow> (sys_step m)\<^sup>*\<^sup>* s u"
  by (rule rtranclp.rtrancl_into_rtrancl)

lemma star_first: "sys_step m s t \<Longrightarrow> (sys_step m)\<^sup>*\<^sup>* t u \<Longrightarrow> (sys_step m)\<^sup>*\<^sup>* s u"
  by (rule converse_rtranclp_into_rtranclp)

lemma sys_reachable_star: "(sys_step m)\<^sup>*\<^sup>* s t \<Longrightarrow> sys_reachable m domain s \<Longrightarrow> sys_reachable m domain t"
  by (induction rule: rtranclp_induct) (auto intro: sys_next)

lemma play_fresh:
  assumes "0 < mg_max_sessions m \<Longrightarrow> int (reg_len (sy_registry s)) < mg_max_sessions m" "fresh_session sid s"
  obtains ms' where "sys_step m s (at_phase sid (Started pid) (s\<lparr>sy_ms := ms'\<rparr>))"
    "ms_registry ms' = fst (reg_add sid no_backend [] (sy_registry s))" "ms_cancelled ms' = ms_cancelled (sy_ms s)"
proof -
  let ?reg = "fst (reg_add sid no_backend [] (sy_registry s))"
  let ?ms = "(sy_ms s)\<lparr>ms_registry := ?reg, ms_inflight := ms_inflight (sy_ms s) @ [(pid, sid)]\<rparr>"
  have "\<not> (0 < mg_max_sessions m \<and> mg_max_sessions m \<le> int (reg_len (sy_registry s)))"
    using assms(1) by linarith
  then have "play m (Some sid) pid (sy_ms s) =
      (?ms, Ok \<lparr>sn_id = sid, sn_url = mg_scheme m @ ''://'' @ reg_host ?reg sid\<rparr>)"
    by (simp add: play_def Let_def)
  from that [OF sys_play [OF this assms(2)]] show ?thesis by simp
qed

text \<open>A boot whose \<open>up\<close> fails, as far as its cleanup.\<close>

lemma run_to_cleanup:
  assumes "0 < mg_max_sessions m"
  obtains s where "(sys_step m)\<^sup>*\<^sup>* (init_system domain) s" "sy_phase s = [sid \<mapsto> Failing pid e]"
    "sy_stacks s = {sid}" "sy_leaked s = {}" "sy_crashing s = {}" "ms_cancelled (sy_ms s) = False"
    "reg_ids (sy_registry s) = [sid]"
proof -
  let ?s0 = "init_system domain"
  have "fresh_session sid ?s0"
    by (simp add: fresh_session_def init_system_def new_manager_state_def reg_get_def new_registry_def)
  moreover have "reg_len (sy_registry ?s0) = 0"
    by (simp add: init_system_def new_manager_state_def reg_len_def new_registry_def)
  ultimately obtain ms' where ms': "sys_step m ?s0 (at_phase sid (Started pid) (?s0\<lparr>sy_ms := ms'\<rparr>))"
    "ms_registry ms' = fst (reg_add sid no_backend [] (sy_registry ?s0))"
    "ms_cancelled ms' = ms_cancelled (sy_ms ?s0)"
    using play_fresh [of m ?s0 sid pid] assms by auto
  let ?s1 = "at_phase sid (Started pid) (?s0\<lparr>sy_ms := ms'\<rparr>)"
  let ?s2 = "at_phase sid (Staged pid) (with_registry (fst (reg_add sid no_backend [] (sy_registry ?s1))) ?s1)"
  let ?s3 = "at_phase sid (Failing pid e) (?s2\<lparr>sy_stacks := insert sid (sy_stacks ?s2)\<rparr>)"
  have steps: "sys_step m ?s1 ?s2" "sys_step m ?s2 ?s3"
    by (rule sys_stage [where sid = sid and pid = pid], simp)
      (rule sys_up_fails [where sid = sid and pid = pid], simp)
  have "(sys_step m)\<^sup>*\<^sup>* ?s0 ?s3"
    by (rule star_trans1 [OF star_trans1 [OF star_trans1 [OF rtranclp.rtrancl_refl ms'(1)] steps(1)] steps(2)])
  moreover have "reg_ids (sy_registry ?s3) = [sid]"
    using ms'(2) by (simp add: init_system_def new_manager_state_def new_registry_def reg_ids_def reg_add_def
        reg_put_def Let_def)
  ultimately show ?thesis
    using ms'(3) by (intro that [of ?s3]) (auto simp: init_system_def new_manager_state_def)
qed

text \<open>What the failure page costs. There is a run in which nothing boots, nothing lives and no Stack
  is left, and still the cap refuses every play: the lingering page of a failed boot holds the slot.\<close>

theorem failure_page_holds_slot:
  "\<exists>s. sys_reachable \<lparr>mg_scheme = scheme, mg_max_sessions = 1\<rparr> domain s \<and>
     active (sy_registry s) = {} \<and> sy_stacks s = {} \<and> sy_phase s = Map.empty \<and>
     (\<forall>minted pid. play \<lparr>mg_scheme = scheme, mg_max_sessions = 1\<rparr> minted pid (sy_ms s) = (sy_ms s, Err AtCapacity))"
proof -
  let ?m = "\<lparr>mg_scheme = scheme, mg_max_sessions = 1\<rparr>" and ?e = "ComposeUpFailed ''''"
  obtain s where s: "(sys_step ?m)\<^sup>*\<^sup>* (init_system domain) s" "sy_phase s = [''a'' \<mapsto> Failing ''p'' ?e]"
    "sy_stacks s = {''a''}" "ms_cancelled (sy_ms s) = False" "reg_ids (sy_registry s) = [''a'']"
  proof (rule run_to_cleanup [of ?m domain "''a''" "''p''" ?e])
    show "0 < mg_max_sessions ?m" by simp
  qed (rule that; assumption)
  let ?t = "at_phase ''a'' (Ended ''p'' (Err ?e))
      (with_registry (reg_remove ''a'' (sy_registry s)) (s\<lparr>sy_stacks := sy_stacks s - {''a''}\<rparr>))"
  let ?u = "?t\<lparr>sy_ms := boot_done ''p'' ''a'' (Err ?e) (sy_ms ?t), sy_phase := (sy_phase ?t)(''a'' := None)\<rparr>"
  have steps: "sys_step ?m s ?t" "sys_step ?m ?t ?u"
    by (rule sys_down [where sid = "''a''" and pid = "''p''"], simp add: s(2))
      (rule sys_boot_done [where sid = "''a''" and pid = "''p''" and res = "Err ?e"], simp)
  have "(sys_step ?m)\<^sup>*\<^sup>* (init_system domain) ?u"
    by (rule star_trans1 [OF star_trans1 [OF s(1) steps(1)] steps(2)])
  from sys_reachable_star [OF this sys_start] have reach: "sys_reachable ?m domain ?u" .
  obtain x where x: "rg_routes (sy_registry s) = [(''a'', x)]"
    using s(5) by (auto simp: reg_ids_def map_eq_Cons_conv)
  have reg: "sy_registry ?u = reg_fail ''a'' Failed (reg_remove ''a'' (sy_registry s))"
    using s(4) by (simp add: boot_done_registry)
  have routes: "rg_routes (sy_registry ?u) = [(''a'', \<lparr>rt_session = ''a'', rt_host = reg_host (sy_registry s) ''a'',
      rt_state = Failed, rt_ui = no_backend, rt_apis = []\<rparr>)]"
    unfolding reg by (simp add: x reg_fail_def reg_remove_def reg_get_def reg_put_def reg_host_def Let_def)
  have "active (sy_registry ?u) = {}"
    unfolding active_def reg_get_def routes by (auto split: if_splits)
  moreover have "play ?m minted pid (sy_ms ?u) = (sy_ms ?u, Err AtCapacity)" for minted pid
    using routes by (simp add: play_def reg_len_def)
  moreover have "sy_stacks ?u = {}" "sy_phase ?u = Map.empty" using s(2,3) by auto
  ultimately show ?thesis using reach by blast
qed

lemma leaked_step:
  assumes "sys_step m s s'" "sys_inv m s" "sid \<in> sy_stacks s" "sid \<in> sy_leaked s" "sy_phase s sid = None"
  shows "sid \<in> sy_stacks s' \<and> sid \<in> sy_leaked s' \<and> sy_phase s' sid = None"
proof -
  have "\<not> is_active (reg_get (sy_registry s) sid)"
    using assms(2-5) by (auto simp: sys_inv_def session_view_def dest: spec [of _ sid])
  with assms(1,3-5) show ?thesis
    by (induction rule: sys_step.induct) (auto simp: fresh_session_def is_active_def)
qed

lemma leaked_run:
  assumes "(sys_step m)\<^sup>*\<^sup>* s s'" "sys_inv m s" "sid \<in> sy_stacks s" "sid \<in> sy_leaked s" "sy_phase s sid = None"
  shows "sid \<in> sy_stacks s' \<and> sid \<in> sy_leaked s' \<and> sy_phase s' sid = None \<and> sys_inv m s'"
  using assms(1)
proof (induction rule: rtranclp_induct)
  case base
  show ?case using assms(2-5) by blast
next
  case (step t u)
  then show ?case using leaked_step [of m t u sid] sys_inv_preserved [of m t u] by blast
qed

text \<open>A Stack whose cleanup failed is lost for good: once its boot has ended, no step of the Manager,
  the Runner or the reaper ever takes its containers down.\<close>

theorem leaked_stack_stays:
  assumes "sys_reachable m domain s" "sid \<in> sy_stacks s" "sid \<in> sy_leaked s" "sy_phase s sid = None"
    "(sys_step m)\<^sup>*\<^sup>* s s'"
  shows "sid \<in> sy_stacks s'"
  using leaked_run [OF assms(5) sys_reachable_inv [OF assms(1)] assms(2-4)] by blast

lemma run_to_leak:
  obtains s where "sys_reachable sample_manager ''ex.dev'' s" "''a'' \<in> sy_stacks s" "''a'' \<in> sy_leaked s"
    "sy_phase s ''a'' = None" "reg_len (sy_registry s) = 0"
proof -
  let ?m = sample_manager and ?e = "ComposeUpFailed ''''"
  obtain s where s: "(sys_step ?m)\<^sup>*\<^sup>* (init_system ''ex.dev'') s" "sy_phase s = [''a'' \<mapsto> Failing ''p'' ?e]"
    "sy_stacks s = {''a''}" "ms_cancelled (sy_ms s) = False" "reg_ids (sy_registry s) = [''a'']"
  proof (rule run_to_cleanup [of ?m "''ex.dev''" "''a''" "''p''" ?e])
    show "0 < mg_max_sessions ?m" by (simp add: sample_manager_def)
  qed (rule that; assumption)
  let ?t = "at_phase ''a'' (Ended ''p'' (Err ?e)) (s\<lparr>sy_leaked := insert ''a'' (sy_leaked s)\<rparr>)"
  let ?u = "?t\<lparr>sy_ms := boot_done ''p'' ''a'' (Err ?e) (sy_ms ?t), sy_phase := (sy_phase ?t)(''a'' := None)\<rparr>"
  let ?v = "with_registry (reg_remove ''a'' (sy_registry ?u)) ?u"
  obtain x where x: "rg_routes (sy_registry s) = [(''a'', x)]"
    using s(5) by (auto simp: reg_ids_def map_eq_Cons_conv)
  have reg: "sy_registry ?u = reg_fail ''a'' Failed (sy_registry s)"
    using s(4) by (simp add: boot_done_registry)
  obtain rt where rt: "rg_routes (sy_registry ?u) = [(''a'', rt)]" "terminal (rt_state rt)"
    unfolding reg by (simp add: x reg_fail_def reg_get_def reg_put_def Let_def)
  then have get: "reg_get (sy_registry ?u) ''a'' = Some rt" by (simp add: reg_get_def)
  have steps: "sys_step ?m s ?t" "sys_step ?m ?t ?u" "sys_step ?m ?u ?v"
    by (rule sys_down_fails [where sid = "''a''" and pid = "''p''"], simp add: s(2))
      (rule sys_boot_done [where sid = "''a''" and pid = "''p''" and res = "Err ?e"], simp,
       rule sys_expire [OF get rt(2)])
  have "(sys_step ?m)\<^sup>*\<^sup>* (init_system ''ex.dev'') ?v"
    by (rule star_trans1 [OF star_trans1 [OF star_trans1 [OF s(1) steps(1)] steps(2)] steps(3)])
  from sys_reachable_star [OF this sys_start] have reach: "sys_reachable ?m ''ex.dev'' ?v" .
  show ?thesis
    by (rule that [OF reach]) (use rt(1) in \<open>simp_all add: s reg_len_def reg_remove_def\<close>)
qed

theorem leaked_stack_stays_witness:
  "\<exists>s. sys_reachable sample_manager ''ex.dev'' s \<and> ''a'' \<in> sy_stacks s \<and> reg_len (sy_registry s) = 0"
proof -
  obtain s where s: "sys_reachable sample_manager ''ex.dev'' s" "''a'' \<in> sy_stacks s" "''a'' \<in> sy_leaked s"
    "sy_phase s ''a'' = None" "reg_len (sy_registry s) = 0" by (rule run_to_leak)
  with leaked_stack_stays [OF s(1-4) rtranclp.rtrancl_refl] show ?thesis by blast
qed

lemma boot_stack_failed_registry:
  assumes "boot_stack pf c proj sid url secrets file w = (w', Err e)"
  obtains w2 where "w' = fst (teardown pf c sid w2)"
    "wd_registry w2 = map_option (\<lambda>r. fst (reg_add sid (fst (session_backends proj sid)) (snd (session_backends proj sid)) r))
       (wd_registry w)"
  using assms unfolding boot_stack_def
  by (auto simp: Let_def split: prod.splits if_splits option.splits dest!: compose_cmd_simps attach_proxy_registry)

text \<open>The two ends of a boot that fails after its \<open>up\<close>.\<close>

lemma failed_boot_paths:
  assumes "sy_phase s sid = Some (Staged pid)" "teardown pf c sid w = (w', tr)"
    "validate_session_id sid = Ok ()" "wd_registry w = Some (sy_registry s)"
  shows "\<exists>s'. (sys_step m)\<^sup>*\<^sup>* s s' \<and> sy_phase s' sid = Some (Ended pid (Err e)) \<and> wd_registry w' = Some (sy_registry s')"
proof -
  let ?t = "at_phase sid (Failing pid e) (s\<lparr>sy_stacks := insert sid (sy_stacks s)\<rparr>)"
  let ?down = "at_phase sid (Ended pid (Err e))
      (with_registry (reg_remove sid (sy_registry ?t)) (?t\<lparr>sy_stacks := sy_stacks ?t - {sid}\<rparr>))"
  let ?leak = "at_phase sid (Ended pid (Err e)) (?t\<lparr>sy_leaked := insert sid (sy_leaked ?t)\<rparr>)"
  have step: "sys_step m s ?t" by (rule sys_up_fails) (rule assms(1))
  have "sys_step m ?t ?down" by (rule sys_down) simp
  with step have down: "(sys_step m)\<^sup>*\<^sup>* s ?down" by (auto intro: star_trans1)
  have "sys_step m ?t ?leak" by (rule sys_down_fails) simp
  with step have leak: "(sys_step m)\<^sup>*\<^sup>* s ?leak" by (auto intro: star_trans1)
  show ?thesis
  proof (cases tr)
    case (Inl x)
    with teardown_cases(1) [OF assms(3,2)] assms(4) leak show ?thesis by (intro exI [of _ ?leak]) simp
  next
    case (Inr x)
    with teardown_cases(1) [OF assms(3,2)] assms(4) down show ?thesis by (intro exI [of _ ?down]) simp
  qed
qed

text \<open>C28: the phases are the code's. Whatever \<open>Provision\<close> does to the registry, the steps of one boot
  do: the run of the model's \<open>Provision\<close> from a started boot is a path of the step relation to the
  end of that boot, with the same result and the same registry.\<close>

theorem provision_refines_steps:
  assumes "provision u pf c src rnd pid sid w = (w', res)" "wd_registry w = Some (sy_registry s)"
    "sy_phase s sid = Some (Started pid)"
  shows "\<exists>s'. (sys_step m)\<^sup>*\<^sup>* s s' \<and> sy_phase s' sid = Some (Ended pid res) \<and>
    wd_registry w' = Some (sy_registry s')"
  using assms(1)
proof (cases rule: provision_cases)
  case (untouched e)
  have "sys_step m s (at_phase sid (Ended pid (Err e)) s)" by (rule sys_refuse) (rule assms(3))
  then show ?thesis
    using untouched assms(2) by (intro exI [of _ "at_phase sid (Ended pid (Err e)) s"]) auto
next
  case (booted proj p url secrets w0)
  obtain ui apis where be: "session_backends proj sid = (ui, apis)" by fastforce
  let ?s1 = "at_phase sid (Staged pid) (with_registry (fst (reg_add sid ui apis (sy_registry s))) s)"
  have stage: "sys_step m s ?s1" by (rule sys_stage) (rule assms(3))
  show ?thesis
  proof (cases res)
    case (Inr url')
    let ?s2 = "at_phase sid (Upped pid) (?s1\<lparr>sy_stacks := insert sid (sy_stacks ?s1)\<rparr>)"
    let ?s3 = "at_phase sid (Ended pid (Ok url')) (with_registry (fst (reg_promote sid (sy_registry ?s2))) ?s2)"
    have steps: "sys_step m ?s1 ?s2" "sys_step m ?s2 ?s3"
      by (rule sys_up [where pid = pid], simp) (rule sys_promote [where pid = pid], simp)
    have "(sys_step m)\<^sup>*\<^sup>* s ?s3"
      by (rule star_trans1 [OF star_trans1 [OF star_trans1 [OF rtranclp.rtrancl_refl stage] steps(1)] steps(2)])
    moreover from booted(6) Inr have "wd_registry w' = Some (sy_registry ?s3)"
      by (auto simp: be booted(4) assms(2) dest!: boot_stack_Ok)
    ultimately show ?thesis using Inr by (intro exI [of _ ?s3]) simp
  next
    case (Inl e)
    obtain w2 where w2: "w' = fst (teardown pf c sid w2)" "wd_registry w2 = Some (sy_registry ?s1)"
      by (rule boot_stack_failed_registry [OF booted(6) [unfolded Inl]]) (auto simp: be booted(4) assms(2))
    obtain tr where "teardown pf c sid w2 = (w', tr)" using w2(1) by (metis prod.collapse)
    moreover have "sy_phase ?s1 sid = Some (Staged pid)" by simp
    ultimately obtain s' where "(sys_step m)\<^sup>*\<^sup>* ?s1 s'" "sy_phase s' sid = Some (Ended pid (Err e))"
      "wd_registry w' = Some (sy_registry s')"
      using failed_boot_paths booted(1) w2(2) by metis
    moreover from this(1) have "(sys_step m)\<^sup>*\<^sup>* s s'" by (rule star_first [rotated]) (rule stage)
    ultimately show ?thesis using Inl by blast
  qed
qed

theorem provision_refines_steps_witness:
  "\<exists>s s' res. sy_registry s = new_registry ''ex.dev'' \<and> (sys_step sample_manager)\<^sup>*\<^sup>* s s' \<and>
     sy_phase s' ''a2'' = Some (Ended ''p'' res) \<and>
     wd_registry (fst (provision sample_unicode refusing_platform sample_runner (static_source sample_project) None
       ''p'' ''a2'' sample_world)) = Some (sy_registry s')"
proof -
  let ?s = "at_phase ''a2'' (Started ''p'') (init_system ''ex.dev'')"
  obtain w' res where p: "provision sample_unicode refusing_platform sample_runner (static_source sample_project) None
       ''p'' ''a2'' sample_world = (w', res)" by fastforce
  have reg: "sy_registry ?s = new_registry ''ex.dev''" by (simp add: init_system_def new_manager_state_def)
  then have "wd_registry sample_world = Some (sy_registry ?s)" "sy_phase ?s ''a2'' = Some (Started ''p'')"
    by (simp_all add: sample_world_def)
  from provision_refines_steps [OF p this] reg p show ?thesis by fastforce
qed


lemma run_to_cleanup_sample:
  obtains s where "sys_reachable sample_manager ''ex.dev'' s" "''a'' \<in> sy_stacks s" "''a'' \<notin> sy_leaked s"
proof (rule run_to_cleanup [of sample_manager "''ex.dev''" "''a''" "''p''" "ComposeUpFailed ''''"])
  show "0 < mg_max_sessions sample_manager" by (simp add: sample_manager_def)
  fix s assume run: "(sys_step sample_manager)\<^sup>*\<^sup>* (init_system ''ex.dev'') s"
    and st: "sy_stacks s = {''a''}" "sy_leaked s = {}"
  show thesis
  proof (rule that)
    show "sys_reachable sample_manager ''ex.dev'' s" using run sys_start by (rule sys_reachable_star)
    show "''a'' \<in> sy_stacks s" "''a'' \<notin> sy_leaked s" unfolding st by simp_all
  qed
qed


end
