(* ===== verification/ReaperRun.thy ===== *)
theory ReaperRun
  imports Reaper
begin

text \<open>
  \<open>Run\<close> of \<open>internal/session/reaper.go\<close>: the loop over the ticks, with what the rest of the process
  does to the registry between two of them. A scan carries the instant its \<open>tick\<close> reads, the registry
  operations since the scan before, the order of the visit and the answer of the scrape. Go's ticker
  drops the ticks a slow scan misses, so the instants are any whose gaps are bounded. What other
  goroutines do during a tick is placed before it or after it.
\<close>

record 'x scan =
  sc_now :: time
  sc_others :: "reg_op list"
  sc_world :: "'x \<Rightarrow> 'x"
  sc_visiting :: "route list \<Rightarrow> route list"
  sc_scraped :: "(metrics_err, counts) result"

definition meanwhile :: "'x scan \<Rightarrow> 'x reaper_state \<Rightarrow> 'x reaper_state" where
  "meanwhile sc s =
     s\<lparr>rs_registry := foldl (\<lambda>r oper. reg_apply oper r) (rs_registry s) (sc_others sc), rs_ext := sc_world sc (rs_ext s)\<rparr>"

definition next_scan ::
    "reaper_config \<Rightarrow> 'x teardown_fn \<Rightarrow> 'x health_fn option \<Rightarrow> 'x scan \<Rightarrow> 'x reaper_state \<Rightarrow> 'x reaper_state" where
  "next_scan cfg td hc sc s = tick cfg td hc (sc_visiting sc) (sc_scraped sc) (sc_now sc) (meanwhile sc s)"

fun reaper_run ::
    "reaper_config \<Rightarrow> 'x teardown_fn \<Rightarrow> 'x health_fn option \<Rightarrow> 'x scan list \<Rightarrow> 'x reaper_state \<Rightarrow> 'x reaper_state" where
  "reaper_run cfg td hc [] s = s"
| "reaper_run cfg td hc (sc # scs) s = reaper_run cfg td hc scs (next_scan cfg td hc sc s)"

text \<open>The order a scan visits in is one of its routes, each once.\<close>

definition scan_ok :: "'x scan \<Rightarrow> bool" where
  "scan_ok sc \<longleftrightarrow> (\<forall>rts. mset (sc_visiting sc rts) = mset rts)"

text \<open>A route that has ended is not brought back between two scans: a boot is promoted once, before it
  can fail or crash.\<close>

definition ended_in :: "string \<Rightarrow> registry \<Rightarrow> bool" where
  "ended_in sid r \<longleftrightarrow> (case reg_get r sid of None \<Rightarrow> True | Some rt \<Rightarrow> terminal (rt_state rt))"

abbreviation ended :: "string \<Rightarrow> 'x reaper_state \<Rightarrow> bool" where
  "ended sid s \<equiv> ended_in sid (rs_registry s)"

fun never_revived ::
    "reaper_config \<Rightarrow> 'x teardown_fn \<Rightarrow> 'x health_fn option \<Rightarrow> string \<Rightarrow> 'x scan list \<Rightarrow> 'x reaper_state \<Rightarrow> bool" where
  "never_revived cfg td hc sid [] s \<longleftrightarrow> True"
| "never_revived cfg td hc sid (sc # scs) s \<longleftrightarrow>
     (ended sid s \<longrightarrow> ended sid (meanwhile sc s)) \<and> never_revived cfg td hc sid scs (next_scan cfg td hc sc s)"

text \<open>The Session has left the registry by the end of some scan.\<close>

definition gone_within ::
    "reaper_config \<Rightarrow> 'x teardown_fn \<Rightarrow> 'x health_fn option \<Rightarrow> string \<Rightarrow> 'x scan list \<Rightarrow> 'x reaper_state \<Rightarrow> bool" where
  "gone_within cfg td hc sid scs s \<longleftrightarrow>
     (\<exists>n \<le> length scs. reg_get (rs_registry (reaper_run cfg td hc (take n scs) s)) sid = None)"

lemma gone_within_now: "reg_get (rs_registry s) sid = None \<Longrightarrow> gone_within cfg td hc sid scs s"
  unfolding gone_within_def by (intro exI [of _ 0]) simp

lemma gone_within_Cons: "gone_within cfg td hc sid scs (next_scan cfg td hc sc s) \<Longrightarrow> gone_within cfg td hc sid (sc # scs) s"
  unfolding gone_within_def by (elim exE conjE, rule_tac x = "Suc n" in exI) simp

lemma reg_ops_ok: "reg_ok r \<Longrightarrow> reg_ok (foldl (\<lambda>r oper. reg_apply oper r) r ops)"
proof (induction ops arbitrary: r)
  case (Cons oper ops)
  then show ?case by (cases oper) (auto intro: wf_intros)
qed simp

lemma meanwhile_ok: "reg_ok (rs_registry s) \<Longrightarrow> reg_ok (rs_registry (meanwhile sc s))"
  by (simp add: meanwhile_def reg_ops_ok)

lemma meanwhile_tracked [simp]: "rs_tracked (meanwhile sc s) = rs_tracked s"
  by (simp add: meanwhile_def)

lemma clock_of_meanwhile [simp]: "clock_of now (meanwhile sc s) = clock_of now s"
  by (simp add: clock_of_def fun_eq_iff)

section \<open>What a tick leaves of a clock\<close>

text \<open>The bookkeeping of a scan: the clock started no later than \<open>b\<close> and noted no end after \<open>limit\<close>.\<close>

definition clock_within :: "time \<Rightarrow> time \<Rightarrow> session_clock \<Rightarrow> bool" where
  "clock_within b limit c \<longleftrightarrow> ck_first_seen c \<le> b \<and> (\<forall>f. ck_failed_since c = Some f \<longrightarrow> f \<le> limit)"

context stack_teardown
begin

lemma after_verdict_ok: "reg_ok r \<Longrightarrow> reg_ok (after_verdict v ok sid r)"
  by (cases v) (auto simp: after_verdict_def intro!: wf_intros)

lemma visit_ok: "reg_ok (rs_registry s) \<Longrightarrow> reg_ok (rs_registry (visit cfg td hc counts now rt s))"
  using visit_effect(1) [of cfg hc counts now rt s] after_verdict_ok by fastforce

lemma tick_ok: "reg_ok (rs_registry s) \<Longrightarrow> reg_ok (rs_registry (tick cfg td hc visiting scraped now s))"
proof -
  have "reg_ok (rs_registry s) \<Longrightarrow> reg_ok (rs_registry (foldl (\<lambda>t rt. visit cfg td hc counts now rt t) s rts))" for counts rts s
    by (induction rts arbitrary: s) (simp_all add: visit_ok)
  then show "reg_ok (rs_registry s) \<Longrightarrow> ?thesis" by (simp add: tick_def Let_def prune_def)
qed

text \<open>A route that survives a visit is tracked, with the same start and, once it has ended, an instant
  of its end that no later visit moves.\<close>

lemma visit_keeps_clock:
  assumes "reg_distinct (rs_registry s)" "reg_get (rs_registry (visit cfg td hc counts now rt s)) (rt_session rt) \<noteq> None"
  obtains c where "rs_tracked (visit cfg td hc counts now rt s) (rt_session rt) = Some c"
    "ck_first_seen c = ck_first_seen (clock_of now s (rt_session rt))"
    "ck_failed_since c = (case ck_failed_since (clock_of now s (rt_session rt)) of Some f \<Rightarrow> Some f
       | None \<Rightarrow> if terminal (rt_state rt) then Some now else None)"
proof -
  let ?sid = "rt_session rt" and ?ck = "clock_of now s (rt_session rt)" and ?v = "visit cfg td hc counts now rt s"
  let ?s = "track ?sid ?ck s"
  have gone: "reg_get (rs_registry t) ?sid = None" if "rs_registry t = reg_remove ?sid (rs_registry s)" for t :: "'x reaper_state"
    using that assms(1) by (simp add: reg_get_ops(2))
  have idle: "\<exists>c. rs_tracked t ?sid = Some c \<and> ck_failed_since c = ck_failed_since ?ck"
    if "t = check_idle cfg td counts ?sid ck1 now s1" "rs_tracked s1 ?sid = Some ck1" "ck_failed_since ck1 = ck_failed_since ?ck"
      "rs_registry s1 = rs_registry s" "reg_get (rs_registry t) ?sid \<noteq> None" for t ck1 s1
    using that reap_effect [of ?sid s1] gone [of t]
    by (auto simp: check_idle_def Let_def split: option.splits if_splits)
  have live: "\<exists>c. rs_tracked ?v ?sid = Some c \<and> ck_failed_since c = ck_failed_since ?ck"
    if "?v = visit_live cfg td hc counts now ?sid ?ck ?s"
  proof -
    obtain s1 ck1 handled where d: "detect_crash cfg td hc ?sid ?ck now ?s = (s1, ck1, handled)" by (metis prod_cases3)
    note de = detect_crash_effect [OF d]
    have tr: "rs_tracked s1 ?sid = Some ck1" using de(5) by simp
    have fs: "ck_failed_since ck1 = ck_failed_since ?ck" using de(3) by auto
    show ?thesis
    proof (cases handled)
      case True
      then show ?thesis using that d tr fs by (simp add: visit_live_def)
    next
      case False
      then have "rs_registry s1 = rs_registry s" using de(2) by (simp add: after_verdict_def)
      with False show ?thesis using idle [OF _ tr fs, of ?v] that d assms(2) by (simp add: visit_live_def)
    qed
  qed
  have "\<exists>c. rs_tracked ?v ?sid = Some c \<and> ck_failed_since c = (case ck_failed_since ?ck of Some f \<Rightarrow> Some f
       | None \<Rightarrow> if terminal (rt_state rt) then Some now else None)"
  proof -
    have "?v = reap td ?sid ?s \<or> ?v = ?s \<or> ?v = visit_live cfg td hc counts now ?sid ?ck ?s" if "\<not> terminal (rt_state rt)"
      using that unfolding visit_def Let_def by (simp only: if_False split: if_split) simp
    then consider "terminal (rt_state rt)" | "\<not> terminal (rt_state rt)" "?v = reap td ?sid ?s"
      | "\<not> terminal (rt_state rt)" "?v = ?s" | "\<not> terminal (rt_state rt)" "?v = visit_live cfg td hc counts now ?sid ?ck ?s"
      by blast
    then show ?thesis
    proof cases
      case 1
      then show ?thesis
        using assms(2) gone [of ?v] by (auto simp: visit_def visit_terminal_def Let_def split: option.splits if_splits)
    next
      case 2
      then show ?thesis using assms(2) gone [of ?v] reap_effect [of ?sid ?s] by (auto split: if_splits option.split)
    next
      case 3
      then show ?thesis by (auto split: option.split)
    next
      case 4
      then show ?thesis using live by (auto split: option.split)
    qed
  qed
  with visit_effect(3) [of cfg hc counts now rt s] that show thesis by blast
qed

lemma tick_keeps_clock:
  assumes "reg_ok (rs_registry s)" "\<And>rts. mset (visiting rts) = mset rts" "reg_get (rs_registry s) sid = Some rt"
    "reg_get (rs_registry (tick cfg td hc visiting scraped now s)) sid \<noteq> None"
  obtains c where "rs_tracked (tick cfg td hc visiting scraped now s) sid = Some c"
    "ck_first_seen c = ck_first_seen (clock_of now s sid)"
    "ck_failed_since c = (case ck_failed_since (clock_of now s sid) of Some f \<Rightarrow> Some f
       | None \<Rightarrow> if terminal (rt_state rt) then Some now else None)"
proof -
  obtain t where t: "reg_distinct (rs_registry t)" "clock_of now t sid = clock_of now s sid" "rt_session rt = sid"
    "reg_get (rs_registry (tick cfg td hc visiting scraped now s)) sid =
       reg_get (rs_registry (visit cfg td hc (counts_of scraped) now rt t)) sid"
    "rs_tracked (tick cfg td hc visiting scraped now s) sid =
       rs_tracked (visit cfg td hc (counts_of scraped) now rt t) sid"
    by (rule tick_at [OF assms(1-3)]) blast
  with assms(4) show thesis
    by (metis visit_keeps_clock [of t cfg hc "counts_of scraped" now rt] that)
qed

lemma tick_ended:
  assumes "reg_ok (rs_registry s)" "\<And>rts. mset (visiting rts) = mset rts" "reg_get (rs_registry s) sid = Some rt"
    "terminal (rt_state rt)"
  shows "ended sid (tick cfg td hc visiting scraped now s)"
    and "elapsed (rc_failure_linger cfg) now (ck_failed_since (clock_of now s sid)) \<Longrightarrow>
      reg_get (rs_registry (tick cfg td hc visiting scraped now s)) sid = None"
proof -
  have "reg_distinct (rs_registry s)" using assms(1) by (simp add: reg_ok_def)
  note r = tick_verdict [OF assms(1-3), of cfg hc scraped now] reg_get_ops(2) [OF this]
  show "ended sid (tick cfg td hc visiting scraped now s)"
    using r assms(3,4) by (auto simp: decide_def after_verdict_def ended_in_def split: if_splits)
  show "elapsed (rc_failure_linger cfg) now (ck_failed_since (clock_of now s sid)) \<Longrightarrow>
      reg_get (rs_registry (tick cfg td hc visiting scraped now s)) sid = None"
    using r assms(4) by (auto simp: decide_def after_verdict_def)
qed

text \<open>An ended route goes at the first scan that finds its linger over.\<close>

lemma lingering_ends:
  assumes "reg_ok (rs_registry s)" "\<forall>sc \<in> set scs. scan_ok sc" "never_revived cfg td hc sid scs s" "ended sid s"
    "rs_tracked s sid = Some c" "ck_failed_since c = Some f"
    "\<exists>sc \<in> set scs. rc_failure_linger cfg \<le> time_sub (sc_now sc) f"
  shows "gone_within cfg td hc sid scs s"
  using assms
proof (induction scs arbitrary: s c)
  case (Cons sc scs)
  let ?m = "meanwhile sc s" and ?n = "next_scan cfg td hc sc s"
  have ok: "reg_ok (rs_registry ?m)" using Cons.prems(1) by (rule meanwhile_ok)
  have perm: "mset (sc_visiting sc rts) = mset rts" for rts using Cons.prems(2) by (simp add: scan_ok_def)
  show ?case
  proof (cases "reg_get (rs_registry ?n) sid")
    case None
    then show ?thesis by (intro gone_within_Cons gone_within_now)
  next
    case (Some rt')
    obtain rt where rt: "reg_get (rs_registry ?m) sid = Some rt"
      using Some tick_tracks_present(2) [OF ok perm] unfolding next_scan_def by fastforce
    then have t: "terminal (rt_state rt)" using Cons.prems(3,4) by (auto simp: ended_in_def)
    have ck: "clock_of (sc_now sc) ?m sid = c" using Cons.prems(5) by (simp add: clock_of_def)
    note e = tick_ended [OF ok perm rt t, where ?cfg = cfg and ?hc = hc and ?now = "sc_now sc" and ?scraped = "sc_scraped sc",
        folded next_scan_def]
    obtain c' where c': "rs_tracked ?n sid = Some c'" "ck_failed_since c' = Some f"
      using tick_keeps_clock [OF ok perm rt, of cfg hc "sc_scraped sc" "sc_now sc", folded next_scan_def] Some ck Cons.prems(6)
      by auto
    have "\<not> rc_failure_linger cfg \<le> time_sub (sc_now sc) f"
      using e(2) Some ck Cons.prems(6) by (auto simp: elapsed_def)
    moreover have "reg_ok (rs_registry ?n)" using tick_ok [OF ok] by (simp add: next_scan_def)
    ultimately have "gone_within cfg td hc sid scs ?n"
      using Cons.prems(2,3,7) by (intro Cons.IH [OF _ _ _ e(1) c']) auto
    then show ?thesis by (rule gone_within_Cons)
  qed
qed simp

lemma scan_step:
  assumes "reg_ok (rs_registry s)" "scan_ok sc" "sc_now sc \<le> limit" "clock_within b limit (clock_of (sc_now sc) s sid)"
    "reg_get (rs_registry (next_scan cfg td hc sc s)) sid \<noteq> None"
  obtains c where "rs_tracked (next_scan cfg td hc sc s) sid = Some c" "clock_within b limit c"
    "rc_max_runtime cfg \<le> time_sub (sc_now sc) b \<and> (\<forall>rx. snd (td sid rx)) \<Longrightarrow>
       ended sid (next_scan cfg td hc sc s) \<and> ck_failed_since c \<noteq> None"
proof -
  let ?m = "meanwhile sc s" and ?n = "next_scan cfg td hc sc s"
  have ok: "reg_ok (rs_registry ?m)" using assms(1) by (rule meanwhile_ok)
  have perm: "mset (sc_visiting sc rts) = mset rts" for rts using assms(2) by (simp add: scan_ok_def)
  obtain rt where rt: "reg_get (rs_registry ?m) sid = Some rt"
    using assms(5) tick_tracks_present(2) [OF ok perm] unfolding next_scan_def by fastforce
  obtain c where c: "rs_tracked ?n sid = Some c" "ck_first_seen c = ck_first_seen (clock_of (sc_now sc) s sid)"
    "ck_failed_since c = (case ck_failed_since (clock_of (sc_now sc) s sid) of Some f \<Rightarrow> Some f
       | None \<Rightarrow> if terminal (rt_state rt) then Some (sc_now sc) else None)"
    using tick_keeps_clock [OF ok perm rt, of cfg hc "sc_scraped sc" "sc_now sc", folded next_scan_def] assms(5)
    by auto
  show thesis
  proof (rule that [OF c(1)])
    show "clock_within b limit c"
      using assms(3,4) c(2,3) by (auto simp: clock_within_def split: option.splits if_splits)
    assume due: "rc_max_runtime cfg \<le> time_sub (sc_now sc) b \<and> (\<forall>rx. snd (td sid rx))"
    have "time_sub (sc_now sc) b \<le> time_sub (sc_now sc) (ck_first_seen (clock_of (sc_now sc) s sid))"
      using assms(4) by (simp add: clock_within_def time_sub_def Let_def)
    then have "terminal (rt_state rt)"
      using tick_expires(1) [OF ok perm rt, of cfg "sc_now sc" hc "sc_scraped sc", folded next_scan_def] due assms(5) by auto
    then show "ended sid ?n \<and> ck_failed_since c \<noteq> None"
      using tick_ended(1) [OF ok perm rt] c(3) by (simp add: next_scan_def split: option.split)
  qed
qed

lemma overdue_ends:
  assumes "reg_ok (rs_registry s)" "\<forall>sc \<in> set (pre @ k # post). scan_ok sc" "never_revived cfg td hc sid (pre @ k # post) s"
    "\<forall>sc \<in> set pre. sc_now sc \<le> sc_now k" "clock_within b (sc_now k) (clock_of (sc_now (hd (pre @ [k]))) s sid)"
    "rc_max_runtime cfg \<le> time_sub (sc_now k) b" "\<forall>rx. snd (td sid rx)"
    "\<exists>sc \<in> set post. rc_failure_linger cfg \<le> time_sub (sc_now sc) (sc_now k)"
  shows "gone_within cfg td hc sid (pre @ k # post) s"
  using assms
proof (induction pre arbitrary: s)
  case Nil
  let ?n = "next_scan cfg td hc k s"
  show ?case
  proof (cases "reg_get (rs_registry ?n) sid = None")
    case False
    have "scan_ok k" "clock_within b (sc_now k) (clock_of (sc_now k) s sid)" using Nil.prems(2,5) by simp_all
    from scan_step [OF Nil.prems(1) this(1) order.refl this(2) False] obtain c where
      c: "rs_tracked ?n sid = Some c" "clock_within b (sc_now k) c" "ended sid ?n \<and> ck_failed_since c \<noteq> None"
      using Nil.prems(6,7) by metis
    then obtain f where f: "ck_failed_since c = Some f" by blast
    obtain d where d: "d \<in> set post" "rc_failure_linger cfg \<le> time_sub (sc_now d) (sc_now k)" using Nil.prems(8) by blast
    from c(2) f have "time_sub (sc_now d) (sc_now k) \<le> time_sub (sc_now d) f"
      by (simp add: clock_within_def time_sub_def Let_def)
    with d have "\<exists>sc \<in> set post. rc_failure_linger cfg \<le> time_sub (sc_now sc) f" by force
    moreover have "reg_ok (rs_registry ?n)" using tick_ok [OF meanwhile_ok [OF Nil.prems(1)]] by (simp add: next_scan_def)
    ultimately have "gone_within cfg td hc sid post ?n"
      using lingering_ends [OF _ _ _ conjunct1 [OF c(3)] c(1) f] Nil.prems(2,3) by simp
    then show ?thesis by (simp add: gone_within_Cons)
  qed (simp add: gone_within_Cons gone_within_now)
next
  case (Cons sc pre)
  let ?n = "next_scan cfg td hc sc s"
  show ?case
  proof (cases "reg_get (rs_registry ?n) sid = None")
    case False
    have "scan_ok sc" "sc_now sc \<le> sc_now k" "clock_within b (sc_now k) (clock_of (sc_now sc) s sid)"
      using Cons.prems(2,4,5) by simp_all
    from scan_step [OF Cons.prems(1) this False] obtain c where
      c: "rs_tracked ?n sid = Some c" "clock_within b (sc_now k) c" by metis
    have "reg_ok (rs_registry ?n)" using tick_ok [OF meanwhile_ok [OF Cons.prems(1)]] by (simp add: next_scan_def)
    then have "gone_within cfg td hc sid (pre @ k # post) ?n"
      using Cons.prems c by (intro Cons.IH) (simp_all add: clock_of_def)
    then show ?thesis by (simp add: gone_within_Cons)
  qed (simp add: gone_within_Cons gone_within_now)
qed

end

section \<open>Operations that revive no route\<close>

definition spares :: "string \<Rightarrow> reg_op \<Rightarrow> bool" where
  "spares sid oper \<longleftrightarrow>
     (case oper of OpAdd k ui apis \<Rightarrow> k \<noteq> sid | OpPromote k \<Rightarrow> k \<noteq> sid | OpRemove k \<Rightarrow> True
      | OpFail k st \<Rightarrow> k = sid \<longrightarrow> terminal st)"

lemma spared_op:
  assumes "reg_ok r" "spares sid oper" "ended_in sid r"
  shows "ended_in sid (reg_apply oper r)"
proof -
  have d: "reg_distinct r" using assms(1) by (simp add: reg_ok_def)
  show ?thesis
  proof (cases oper)
    case (OpFail k st)
    then show ?thesis
      using assms(2,3) reg_get_ops(4) [OF d, of sid k st] reg_get_ops(5) [OF d, of sid st]
      by (cases "k = sid") (auto simp: spares_def ended_in_def)
  qed (use assms(2,3) in \<open>auto simp: spares_def ended_in_def reg_get_ops(1-3) [OF d]\<close>)
qed

lemma spared_ops:
  "reg_ok r \<Longrightarrow> \<forall>oper \<in> set ops. spares sid oper \<Longrightarrow> ended_in sid r \<Longrightarrow> ended_in sid (foldl (\<lambda>r oper. reg_apply oper r) r ops)"
proof (induction ops arbitrary: r)
  case (Cons oper ops)
  have "reg_ok (reg_apply oper r)" using reg_ops_ok [of r "[oper]"] Cons.prems(1) by simp
  with Cons spared_op [of r sid oper] show ?case by simp
qed simp

context stack_teardown
begin

lemma spared_never_revived:
  assumes "reg_ok (rs_registry s)" "\<forall>sc \<in> set scs. \<forall>oper \<in> set (sc_others sc). spares sid oper"
  shows "never_revived cfg td hc sid scs s"
  using assms
proof (induction scs arbitrary: s)
  case (Cons sc scs)
  have "reg_ok (rs_registry (next_scan cfg td hc sc s))"
    using tick_ok [OF meanwhile_ok [OF Cons.prems(1)]] by (simp add: next_scan_def)
  moreover have "ended sid s \<longrightarrow> ended sid (meanwhile sc s)"
    using spared_ops [OF Cons.prems(1), of "sc_others sc" sid] Cons.prems(2) by (simp add: meanwhile_def)
  ultimately show ?case using Cons by simp
qed simp

end

section \<open>Scans that come often enough\<close>

definition scans_within :: "duration \<Rightarrow> 'x scan list \<Rightarrow> bool" where
  "scans_within gap = successively (\<lambda>a b. sc_now a \<le> sc_now b \<and> sc_now b \<le> sc_now a + gap)"

lemma first_past:
  assumes "scans_within gap scs" "scs \<noteq> []" "sc_now (hd scs) \<le> limit + gap" "limit \<le> sc_now (last scs)"
  obtains pre k post where "scs = pre @ k # post" "\<forall>sc \<in> set pre. sc_now sc < limit" "limit \<le> sc_now k" "sc_now k \<le> limit + gap"
  using assms
proof (induction scs arbitrary: thesis)
  case (Cons sc scs)
  show ?case
  proof (cases "limit \<le> sc_now sc")
    case True
    with Cons.prems(4) show ?thesis by (intro Cons.prems(1) [of "[]" sc scs]) simp_all
  next
    case False
    with Cons.prems have ne: "scs \<noteq> []" by auto
    with Cons.prems(2) False have "scans_within gap scs" "sc_now (hd scs) \<le> limit + gap"
      by (auto simp: scans_within_def successively_Cons)
    then obtain pre k post where "scs = pre @ k # post" "\<forall>sc \<in> set pre. sc_now sc < limit" "limit \<le> sc_now k"
      "sc_now k \<le> limit + gap"
      using Cons.IH ne Cons.prems(5) by auto
    with False show ?thesis by (intro Cons.prems(1) [of "sc # pre" k post]) simp_all
  qed
qed simp

text \<open>C8: every demo ends and its slot is free again. Whatever the scrapes and the health checks answer, in whatever order
  the scans go, and whatever plays, boots and removals happen between them, a Session that the reaper has
  not seen before has left the registry once the scans of \<open>Run\<close> have gone on for its maximum runtime, the
  linger of its failure page and the longest gap between two scans, provided that its \<open>docker compose down\<close>
  works and that its route is not revived once it has ended.\<close>

theorem every_demo_ends:
  assumes "reg_ok (rs_registry s)" "rs_tracked s sid = None"
    and "scs \<noteq> []" "\<forall>sc \<in> set scs. scan_ok sc" "scans_within gap scs" "0 \<le> gap"
    and "never_revived cfg (compose_teardown pf c) hc sid scs s"
    and "validate_session_id sid = Ok ()"
    and "\<forall>d. fst (snd (pf_docker pf d ([''compose'', ''-p'', project_name sid] @ [''down'', ''-v'', ''--remove-orphans''])))"
    and "0 \<le> rc_max_runtime cfg" "rc_max_runtime cfg < 2 ^ 63" "0 \<le> rc_failure_linger cfg" "rc_failure_linger cfg < 2 ^ 63"
    and "sc_now (hd scs) + rc_max_runtime cfg + rc_failure_linger cfg + gap < sc_now (last scs)"
  shows "gone_within cfg (compose_teardown pf c) hc sid scs s"
proof -
  let ?b = "sc_now (hd scs)" and ?limit = "sc_now (hd scs) + rc_max_runtime cfg"
  obtain pre k post where k: "scs = pre @ k # post" "\<forall>sc \<in> set pre. sc_now sc < ?limit" "?limit \<le> sc_now k" "sc_now k \<le> ?limit + gap"
    by (rule first_past [OF assms(5,3), of ?limit]) (use assms(6,10,12,14) in simp_all)
  have "post \<noteq> []" using k(1,4) assms(12,14) by auto
  then have "last scs \<in> set post" using k(1) by simp
  moreover have "rc_failure_linger cfg \<le> time_sub (sc_now (last scs)) (sc_now k)"
    using k(4) assms(13,14) by (simp add: time_sub_def Let_def)
  ultimately have d: "\<exists>sc \<in> set post. rc_failure_linger cfg \<le> time_sub (sc_now sc) (sc_now k)" by blast
  have "hd (pre @ [k]) = hd scs" using k(1) by (cases pre) simp_all
  then have "clock_within ?b (sc_now k) (clock_of (sc_now (hd (pre @ [k]))) s sid)"
    using assms(2) by (simp add: clock_within_def clock_of_def new_clock_def)
  moreover have "rc_max_runtime cfg \<le> time_sub (sc_now k) ?b"
    using k(3) assms(10,11) by (simp add: time_sub_def Let_def)
  moreover have "\<forall>rx. snd (compose_teardown pf c sid rx)" using compose_teardown_succeeds [OF assms(8)] assms(9) by blast
  ultimately show ?thesis
    using compose_td.overdue_ends [OF assms(1), of pre k post cfg pf c hc sid ?b] assms(4,7) k(1,2,3) d by force
qed

definition scan_at :: "time \<Rightarrow> reg_op list \<Rightarrow> 'x scan" where
  "scan_at now ops = \<lparr>sc_now = now, sc_others = ops, sc_world = (\<lambda>x. x), sc_visiting = (\<lambda>rts. rts), sc_scraped = Err ScrapeFailed\<rparr>"

text \<open>A demo that went live, ignored by a scrape that always fails, beside another one that starts meanwhile.\<close>

theorem every_demo_ends_witness:
  "gone_within sample_reaper (compose_teardown willing_platform sample_runner) None ''a2''
     [scan_at 0 [OpPromote ''a2''], scan_at (1000 * second) [OpAdd ''b3'' no_backend []],
      scan_at (2000 * second) [], scan_at (3000 * second) []]
     (sample_reaped\<lparr>rs_tracked := Map.empty\<rparr>)"
  (is "gone_within ?cfg ?td None _ ?scs ?s")
proof (rule every_demo_ends [where ?gap = "1000 * second"])
  show "reg_ok (rs_registry ?s)" using sample_reaped(1) by simp
  have "\<not> ended ''a2'' ?s" using sample_reaped(2) by (simp add: ended_in_def sample_route_def booting_route_def terminal_def)
  moreover have "reg_ok (rs_registry (next_scan ?cfg ?td None (scan_at 0 [OpPromote ''a2'']) ?s))"
    unfolding next_scan_def by (intro compose_td.tick_ok meanwhile_ok) (simp add: sample_reaped(1))
  ultimately show "never_revived ?cfg ?td None ''a2'' ?scs ?s"
    by (subst never_revived.simps(2), intro conjI compose_td.spared_never_revived) (simp_all add: scan_at_def spares_def)
  show "validate_session_id ''a2'' = Ok ()" by (simp add: validate_session_id_Ok char_class_defs)
qed (simp_all add: scan_at_def scan_ok_def scans_within_def second_def sample_reaper_def willing_platform_def)

end
