(* ===== verification/Builder.thy ===== *)
theory Builder
  imports Runner "HOL-Library.Word" "HOL-Library.AList"
begin

text \<open>
  Image builds (\<open>internal/builder/builder.go\<close>, \<open>sandbox.go\<close>, \<open>source.go\<close>): the cache of built
  images with its least-recently-used eviction, the sandboxed build, and the project source that builds
  every service of a Project. The docker command line, the file system and the random source act on an
  abstract environment \<open>'d\<close>; a cache is an association list whose order is the iteration order of
  the Go map. The recency counter is a 64-bit word, and the eviction loop, which would not end if every
  cached image carried the largest counter, is a partial function into \<open>option\<close>.
\<close>

unbundle bit_operations_syntax

section \<open>The sandbox\<close>

record sandbox =
  sb_image :: string
  sb_network :: string
  sb_memory_mb :: int
  sb_cpus :: rat
  sb_pids_limit :: int
  sb_timeout :: int

definition default_sandbox :: sandbox where
  "default_sandbox = \<lparr>sb_image = ''moby/buildkit:rootless'', sb_network = ''showcase-build'', sb_memory_mb = 2048,
     sb_cpus = 2, sb_pids_limit = 2048, sb_timeout = 300000000000\<rparr>"

definition with_defaults :: "sandbox \<Rightarrow> sandbox" where
  "with_defaults s =
     (let d = default_sandbox
      in \<lparr>sb_image = (if sb_image s = '''' then sb_image d else sb_image s),
          sb_network = (if sb_network s = '''' then sb_network d else sb_network s),
          sb_memory_mb = (if sb_memory_mb s \<le> 0 then sb_memory_mb d else sb_memory_mb s),
          sb_cpus = (if sb_cpus s \<le> 0 then sb_cpus d else sb_cpus s),
          sb_pids_limit = (if sb_pids_limit s \<le> 0 then sb_pids_limit d else sb_pids_limit s),
          sb_timeout = (if sb_timeout s \<le> 0 then sb_timeout d else sb_timeout s)\<rparr>)"

text \<open>The decimal rendering of the CPU share, \<open>strconv.FormatFloat\<close>, is an argument.\<close>

definition run_args :: "(rat \<Rightarrow> string) \<Rightarrow> sandbox \<Rightarrow> string \<Rightarrow> string \<Rightarrow> string \<Rightarrow> string \<Rightarrow> string list" where
  "run_args fmt s name tag dir dockerfile =
     [''run'', ''--name'', name, ''--network'', sb_network s,
      ''--security-opt'', ''seccomp=unconfined'', ''--security-opt'', ''apparmor=unconfined'',
      ''--security-opt'', ''systempaths=unconfined'', ''--device'', ''/dev/fuse'',
      ''-v'', dir @ '':/workspace:ro'', ''--entrypoint'', ''buildctl-daemonless.sh'']
     @ (if 0 < sb_memory_mb s then [''--memory'', itoa (sb_memory_mb s) @ ''m''] else [])
     @ (if 0 < sb_cpus s then [''--cpus'', fmt (sb_cpus s)] else [])
     @ (if 0 < sb_pids_limit s then [''--pids-limit'', itoa (sb_pids_limit s)] else [])
     @ [sb_image s, ''build'', ''--frontend'', ''dockerfile.v0'', ''--local'', ''context=/workspace'',
        ''--local'', ''dockerfile=/workspace'', ''--opt'', ''filename='' @ dockerfile,
        ''--output'', ''type=docker,name='' @ tag @ '',dest=-'']"

text \<open>One visit of the walk over the build context: the walk's own error, or an entry with its type and
  what its \<open>Info\<close> answers.\<close>

datatype file_kind = Symlink | Directory | Other

datatype walk_visit = WalkError | Visit string file_kind "32 word option"

datatype build_outcome = BuildRan | BuildFailed | BuildTimedOut

record 'd build_env =
  bv_run :: "'d \<Rightarrow> string list \<Rightarrow> 'd \<times> bool \<times> string"
  bv_walk :: "'d \<Rightarrow> string \<Rightarrow> walk_visit list"
  bv_chmod :: "'d \<Rightarrow> string \<Rightarrow> 32 word \<Rightarrow> 'd \<times> bool"
  bv_rand :: "'d \<Rightarrow> 'd \<times> string option"
  bv_tar :: "'d \<Rightarrow> 'd \<times> string option"
  bv_build :: "'d \<Rightarrow> string list \<Rightarrow> string \<Rightarrow> 'd \<times> build_outcome \<times> string"
  bv_remove :: "'d \<Rightarrow> string \<Rightarrow> 'd"
  bv_cpus :: "rat \<Rightarrow> string"

definition added_bits :: "file_kind \<Rightarrow> 32 word" where
  "added_bits k = (if k = Directory then 0x2D else 0x24)"

definition relax_visit :: "'d build_env \<Rightarrow> walk_visit \<Rightarrow> 'd \<Rightarrow> 'd \<times> bool" where
  "relax_visit bv v d =
     (case v of
        WalkError \<Rightarrow> (d, False)
      | Visit path k info \<Rightarrow>
          if k = Symlink then (d, True)
          else (case info of
                  None \<Rightarrow> (d, False)
                | Some m \<Rightarrow>
                    (let mode = m AND 0x1FF
                     in if mode OR added_bits k = mode then (d, True)
                        else bv_chmod bv d path (mode OR added_bits k))))"

primrec relax_context_perms :: "'d build_env \<Rightarrow> walk_visit list \<Rightarrow> 'd \<Rightarrow> 'd \<times> bool" where
  "relax_context_perms bv [] d = (d, True)"
| "relax_context_perms bv (v # vs) d =
     (case relax_visit bv v d of (d1, ok) \<Rightarrow> if \<not> ok then (d1, False) else relax_context_perms bv vs d1)"

section \<open>The cache\<close>

record entry =
  en_version :: string
  en_tag :: string
  en_used :: "64 word"

type_synonym cache = "(string \<times> entry) list"

record builder =
  bd_sandbox :: sandbox
  bd_max :: int
  bd_cache :: cache
  bd_tick :: "64 word"
  bd_net_ready :: bool

definition new_builder :: "int \<Rightarrow> sandbox option \<Rightarrow> builder" where
  "new_builder cap with_sandbox =
     \<lparr>bd_sandbox = (case with_sandbox of None \<Rightarrow> default_sandbox | Some s \<Rightarrow> with_defaults s),
      bd_max = (if cap < 1 then 1 else cap), bd_cache = [], bd_tick = 0, bd_net_ready = False\<rparr>"

record 'd build_spec =
  bs_image :: string
  bs_version :: string
  bs_dockerfile :: string
  bs_context :: "'d \<Rightarrow> 'd \<times> (string \<times> ('d \<Rightarrow> 'd)) option"

datatype build_err =
    ContextFailed
  | NetworkFailed string
  | PrepareFailed
  | BuildRandFailed
  | TarFailed
  | LimitsExceeded string
  | SandboxFailed string
  | LoadFailed string
  | SpecFailed string

definition short_version :: "string \<Rightarrow> string" where
  "short_version v = (if 12 < length v then take 12 v else v)"

definition rand_hex :: "string option \<Rightarrow> string option" where
  "rand_hex bytes = map_option hex_encode bytes"

definition ensure_network :: "'d build_env \<Rightarrow> builder \<Rightarrow> 'd \<Rightarrow> builder \<times> 'd \<times> (build_err, unit) result" where
  "ensure_network bv b d =
     (let net = sb_network (bd_sandbox b)
      in if net = '''' \<or> bd_net_ready b then (b, d, Ok ())
         else (case bv_run bv d [''network'', ''inspect'', net] of
                 (d1, True, out) \<Rightarrow> (b\<lparr>bd_net_ready := True\<rparr>, d1, Ok ())
               | (d1, False, out) \<Rightarrow>
                   (case bv_run bv d1 [''network'', ''create'', net] of
                      (d2, ok, out2) \<Rightarrow>
                        if \<not> ok \<and> \<not> contains_str out2 ''already exists'' then (b, d2, Err (NetworkFailed out2))
                        else (b\<lparr>bd_net_ready := True\<rparr>, d2, Ok ()))))"

text \<open>The production build function. The deferred removals, of the build container and then of the image file, run on
  every path after the file has been created.\<close>

definition sandbox_build ::
    "'d build_env \<Rightarrow> builder \<Rightarrow> string \<Rightarrow> string \<Rightarrow> string \<Rightarrow> 'd \<Rightarrow> builder \<times> 'd \<times> (build_err, unit) result" where
  "sandbox_build bv b tag dir dockerfile d =
     (case ensure_network bv b d of
        (b1, d1, Inl e) \<Rightarrow> (b1, d1, Err e)
      | (b1, d1, Inr _) \<Rightarrow>
          (case relax_context_perms bv (bv_walk bv d1 dir) d1 of
             (d2, False) \<Rightarrow> (b1, d2, Err PrepareFailed)
           | (d2, True) \<Rightarrow>
               (case bv_rand bv d2 of
                  (d3, bytes) \<Rightarrow>
                    (case rand_hex bytes of
                       None \<Rightarrow> (b1, d3, Err BuildRandFailed)
                     | Some hex \<Rightarrow>
                         (let name = ''showcase-build-'' @ hex
                          in case bv_tar bv d3 of
                               (d4, None) \<Rightarrow> (b1, d4, Err TarFailed)
                             | (d4, Some tar) \<Rightarrow>
                                 (case bv_build bv d4 (run_args (bv_cpus bv) (bd_sandbox b1) name tag dir dockerfile) tar of
                                    (d5, outcome, stderr) \<Rightarrow>
                                      (case (case outcome of
                                               BuildTimedOut \<Rightarrow> (d5, Err (LimitsExceeded stderr))
                                             | BuildFailed \<Rightarrow> (d5, Err (SandboxFailed stderr))
                                             | BuildRan \<Rightarrow>
                                                 (case bv_run bv d5 [''load'', ''-i'', tar] of
                                                    (d6, ok, out) \<Rightarrow>
                                                      (d6, if ok then Ok () else Err (LoadFailed (stderr @ out))))) of
                                         (d7, res) \<Rightarrow>
                                           (b1, bv_remove bv (fst (bv_run bv d7 [''rm'', ''-f'', name])) tar, res))))))))"

section \<open>Eviction\<close>

definition cache_get :: "cache \<Rightarrow> string \<Rightarrow> entry option" where
  "cache_get c k = map_of c k"

definition cache_put :: "string \<Rightarrow> entry \<Rightarrow> cache \<Rightarrow> cache" where
  "cache_put k e c = AList.update k e c"

definition cache_remove :: "string \<Rightarrow> cache \<Rightarrow> cache" where
  "cache_remove k c = AList.delete k c"

definition remove_image :: "'d build_env \<Rightarrow> string \<Rightarrow> 'd \<Rightarrow> 'd" where
  "remove_image bv tag d = fst (bv_run bv d [''image'', ''rm'', ''-f'', tag])"

text \<open>The scan for the coldest image: the key stays empty when no counter is below the largest word.\<close>

fun lru_scan :: "cache \<Rightarrow> string \<Rightarrow> 64 word \<Rightarrow> string" where
  "lru_scan [] key used = key"
| "lru_scan ((k, e) # c) key used =
     (if en_used e < used then lru_scan c k (en_used e) else lru_scan c key used)"

definition lru_key :: "cache \<Rightarrow> string" where
  "lru_key c = lru_scan c '''' (NOT 0)"

definition tag_of :: "cache \<Rightarrow> string \<Rightarrow> string" where
  "tag_of c k = (case cache_get c k of Some e \<Rightarrow> en_tag e | None \<Rightarrow> '''')"

partial_function (option) evict :: "'d build_env \<Rightarrow> int \<Rightarrow> cache \<Rightarrow> 'd \<Rightarrow> (cache \<times> 'd) option" where
  "evict bv cap c d =
     (if cap < int (length c)
      then evict bv cap (cache_remove (lru_key c) c) (remove_image bv (tag_of c (lru_key c)) d)
      else Some (c, d))"

text \<open>\<open>Build\<close>, past the cache hit; \<open>None\<close> is a call that does not return. The deferred cleanup of the build context
  runs on every path behind it.\<close>

definition build_miss ::
    "'d build_env \<Rightarrow> 'd build_spec \<Rightarrow> builder \<Rightarrow> 'd \<Rightarrow> (builder \<times> 'd \<times> (build_err, string) result) option" where
  "build_miss bv sp b d =
     (case bs_context sp d of
        (d1, None) \<Rightarrow> Some (b, d1, Err ContextFailed)
      | (d1, Some (dir, cleanup)) \<Rightarrow>
          (let name = bs_image sp; tag = name @ '':'' @ short_version (bs_version sp)
           in case sandbox_build bv b tag dir (bs_dockerfile sp) d1 of
                (b1, d2, Inl e) \<Rightarrow> Some (b1, cleanup d2, Err e)
              | (b1, d2, Inr _) \<Rightarrow>
                  (let d3 = (case cache_get (bd_cache b1) name of
                               Some prev \<Rightarrow> if en_tag prev \<noteq> tag then remove_image bv (en_tag prev) d2 else d2
                             | None \<Rightarrow> d2);
                       c = cache_put name \<lparr>en_version = bs_version sp, en_tag = tag, en_used = bd_tick b1\<rparr> (bd_cache b1)
                   in map_option (\<lambda>(c', d'). (b1\<lparr>bd_cache := c'\<rparr>, cleanup d', Ok tag)) (evict bv (bd_max b1) c d3))))"

definition build ::
    "'d build_env \<Rightarrow> 'd build_spec \<Rightarrow> builder \<Rightarrow> 'd \<Rightarrow> (builder \<times> 'd \<times> (build_err, string) result) option" where
  "build bv sp b0 d =
     (let b = b0\<lparr>bd_tick := bd_tick b0 + 1\<rparr>; name = bs_image sp
      in case cache_get (bd_cache b) name of
           Some e \<Rightarrow>
             if en_version e = bs_version sp
             then Some (b\<lparr>bd_cache := cache_put name (e\<lparr>en_used := bd_tick b\<rparr>) (bd_cache b)\<rparr>, d, Ok (en_tag e))
             else build_miss bv sp b d
         | None \<Rightarrow> build_miss bv sp b d)"

section \<open>The building source\<close>

type_synonym 'd spec_func = "'d \<Rightarrow> string \<Rightarrow> service \<Rightarrow> string \<Rightarrow> 'd \<times> 'd build_spec option"

datatype building_err = BaseFailed source_err | SpecUnresolved string | BuildBroken string build_err

definition commit_for :: "project \<Rightarrow> service \<Rightarrow> string" where
  "commit_for p svc =
     (case pj_commits p (svc_name svc) of
        Some c \<Rightarrow> if c \<noteq> '''' then c else pj_commit p
      | None \<Rightarrow> pj_commit p)"

fun build_services ::
    "'d build_env \<Rightarrow> 'd spec_func \<Rightarrow> string \<Rightarrow> project \<Rightarrow> service list \<Rightarrow> (string \<rightharpoonup> string) \<Rightarrow> builder \<Rightarrow> 'd
       \<Rightarrow> (builder \<times> 'd \<times> (building_err, string \<rightharpoonup> string) result) option" where
  "build_services bv spec pid p [] images b d = Some (b, d, Ok images)"
| "build_services bv spec pid p (svc # svcs) images b d =
     (case spec d pid svc (commit_for p svc) of
        (d1, None) \<Rightarrow> Some (b, d1, Err (SpecUnresolved (svc_name svc)))
      | (d1, Some sp) \<Rightarrow>
          (case build bv sp b d1 of
             None \<Rightarrow> None
           | Some (b1, d2, Inl e) \<Rightarrow> Some (b1, d2, Err (BuildBroken (svc_name svc) e))
           | Some (b1, d2, Inr tag) \<Rightarrow>
               build_services bv spec pid p svcs (images(svc_name svc \<mapsto> tag)) b1 d2))"

definition building_source ::
    "'d build_env \<Rightarrow> 'd spec_func \<Rightarrow> project_source \<Rightarrow> string \<Rightarrow> builder \<Rightarrow> 'd
       \<Rightarrow> (builder \<times> 'd \<times> (building_err, project) result) option" where
  "building_source bv spec base pid b d =
     (case base pid of
        Inl e \<Rightarrow> Some (b, d, Err (BaseFailed e))
      | Inr p \<Rightarrow>
          map_option (\<lambda>(b', d', res). (b', d', case res of Inl e \<Rightarrow> Err e | Inr images \<Rightarrow> Ok (p\<lparr>pj_images := images\<rparr>)))
            (build_services bv spec pid p (m_services (pj_manifest p)) Map.empty b d))"

section \<open>The cache as a recency list\<close>

definition cache_keys :: "cache \<Rightarrow> string list" where
  "cache_keys c = map fst c"

definition keys_ok :: "cache \<Rightarrow> bool" where
  "keys_ok c \<longleftrightarrow> distinct (map fst c)"

interpretation images: keyed_store keys_ok cache_get cache_put cache_remove cache_keys
proof
  fix c :: cache and k k' :: string and e :: entry
  assume ok: "keys_ok c"
  show "keys_ok (cache_put k e c)" "keys_ok (cache_remove k c)"
    using ok by (simp_all add: keys_ok_def cache_put_def cache_remove_def distinct_update distinct_delete)
  show "cache_get (cache_put k e c) k' = (if k' = k then Some e else cache_get c k')"
    by (simp add: cache_get_def cache_put_def update_conv')
  show "cache_get (cache_remove k c) k' = (if k' = k then None else cache_get c k')"
    by (simp add: cache_get_def cache_remove_def delete_conv')
  show "set (cache_keys c) = {k. cache_get c k \<noteq> None}" "distinct (cache_keys c)"
    using ok by (auto simp: cache_keys_def cache_get_def keys_ok_def dom_map_of_conv_image_fst [symmetric])
qed

definition used_of :: "string \<times> entry \<Rightarrow> 64 word" where
  "used_of x = en_used (snd x)"

definition by_age :: "cache \<Rightarrow> cache" where
  "by_age c = sort_key used_of c"

text \<open>Counters that are distinct and below the largest word, as a scan needs them.\<close>

definition ages_ok :: "cache \<Rightarrow> bool" where
  "ages_ok c \<longleftrightarrow> distinct (map used_of c) \<and> (\<forall>x \<in> set c. used_of x < NOT 0)"

lemma lru_scan_keeps: "(\<And>x. x \<in> set c \<Longrightarrow> \<not> used_of x < u) \<Longrightarrow> lru_scan c key u = key"
proof (induction c key u rule: lru_scan.induct)
  case (2 k e c key u)
  have "\<not> en_used e < u" using "2.prems" [of "(k, e)"] by (simp add: used_of_def)
  with "2.IH"(2) "2.prems" show ?case by simp
qed simp

lemma lru_scan_min:
  "x \<in> set c \<Longrightarrow> used_of x < u \<Longrightarrow>
     \<exists>e. (lru_scan c key u, e) \<in> set c \<and> en_used e < u \<and> (\<forall>y \<in> set c. en_used e \<le> used_of y)"
proof (induction c key u arbitrary: x rule: lru_scan.induct)
  case (2 k e c key u)
  show ?case
  proof (cases "en_used e < u")
    case True
    show ?thesis
    proof (cases "\<exists>y \<in> set c. used_of y < en_used e")
      case True
      then obtain y where "y \<in> set c" "used_of y < en_used e" by blast
      from "2.IH"(1) [OF \<open>en_used e < u\<close> this] \<open>en_used e < u\<close> show ?thesis
        by (fastforce simp: used_of_def)
    next
      case False
      then have "lru_scan c k (en_used e) = k" by (intro lru_scan_keeps) auto
      with False \<open>en_used e < u\<close> show ?thesis by (force simp: used_of_def not_less)
    qed
  next
    case False
    with "2.prems" have "x \<in> set c" by (auto simp: used_of_def)
    from "2.IH"(2) [OF False this "2.prems"(2)] False show ?thesis
      by (fastforce simp: used_of_def not_less)
  qed
qed simp

lemma sort_key_filter: "sort_key f (filter P xs) = filter P (sort_key f xs)"
  by (rule filter_sort [symmetric])

lemma insort_key_last: "(\<And>y. y \<in> set ys \<Longrightarrow> f y < f x) \<Longrightarrow> insort_key f x ys = ys @ [x]"
  by (induction ys) (auto simp: not_le [symmetric])

lemma set_by_age [simp]: "set (by_age c) = set c" "length (by_age c) = length c"
  by (simp_all add: by_age_def)

lemma keys_by_age: "keys_ok c \<Longrightarrow> keys_ok (by_age c)"
  unfolding keys_ok_def by_age_def by (metis mset_sort mset_map mset_eq_imp_distinct_iff)

lemma by_age_remove: "by_age (cache_remove k c) = filter (\<lambda>x. fst x \<noteq> k) (by_age c)"
  by (simp add: by_age_def cache_remove_def AList.delete_eq sort_key_filter case_prod_unfold eq_commute)

text \<open>The eviction loop drops the oldest images, no more than it must.\<close>

lemma lru_key_oldest:
  assumes "keys_ok c" "ages_ok c" "c \<noteq> []"
  shows "\<exists>e rest. by_age c = (lru_key c, e) # rest \<and> (lru_key c) \<notin> fst ` set rest"
proof -
  obtain k e rest where L: "by_age c = (k, e) # rest"
    using assms(3) by (metis length_0_conv list.exhaust prod.exhaust set_by_age(2))
  have sorted: "sorted (map used_of (by_age c))" by (simp add: by_age_def)
  have "(k, e) \<in> set c" using set_by_age(1) [of c] L by auto
  moreover have "used_of (k, e) < NOT 0" using assms(2) calculation by (simp add: ages_ok_def)
  ultimately obtain e' where e': "(lru_key c, e') \<in> set c" "\<And>y. y \<in> set c \<Longrightarrow> en_used e' \<le> used_of y"
    using lru_scan_min [of "(k, e)" c "NOT 0" "''''"] by (auto simp: lru_key_def)
  have "(lru_key c, e') \<in> set ((k, e) # rest)" using e'(1) set_by_age(1) [of c] unfolding L by blast
  then have "used_of (k, e) \<le> used_of (lru_key c, e')" using sorted unfolding L by auto
  with e'(2) [OF \<open>(k, e) \<in> set c\<close>] have "used_of (lru_key c, e') = used_of (k, e)" by (simp add: used_of_def)
  moreover have "inj_on used_of (set c)" using assms(2) by (simp add: ages_ok_def distinct_map)
  ultimately have "(lru_key c, e') = (k, e)" using e'(1) \<open>(k, e) \<in> set c\<close> by (meson inj_onD)
  moreover have "k \<notin> fst ` set rest" using keys_by_age [OF assms(1)] by (simp add: keys_ok_def L)
  ultimately show ?thesis using L by auto
qed

lemma ages_ok_remove: "ages_ok c \<Longrightarrow> ages_ok (cache_remove k c)"
  by (auto simp: ages_ok_def cache_remove_def AList.delete_eq case_prod_unfold distinct_map_filter)

lemma length_remove_lru:
  assumes "keys_ok c" "ages_ok c" "c \<noteq> []"
  shows "by_age (cache_remove (lru_key c) c) = tl (by_age c)"
    and "length (cache_remove (lru_key c) c) = length c - 1"
proof -
  obtain e rest where *: "by_age c = (lru_key c, e) # rest" "lru_key c \<notin> fst ` set rest"
    using lru_key_oldest [OF assms] by blast
  then have "\<forall>x \<in> set rest. fst x \<noteq> lru_key c" by (metis imageI)
  then have "filter (\<lambda>x. fst x \<noteq> lru_key c) rest = rest" by (rule filter_True)
  with * show tl: "by_age (cache_remove (lru_key c) c) = tl (by_age c)" by (simp add: by_age_remove)
  show "length (cache_remove (lru_key c) c) = length c - 1"
    using arg_cong [OF tl, of length] by simp
qed

lemma evict_by_age:
  assumes "keys_ok c" "ages_ok c" "0 \<le> cap"
  shows "\<exists>c' d'. evict bv cap c d = Some (c', d') \<and> keys_ok c' \<and> ages_ok c' \<and> set c' \<subseteq> set c \<and>
     by_age c' = drop (length c - nat cap) (by_age c)"
  using assms
proof (induction "length c" arbitrary: c d)
  case 0
  then show ?case by (subst evict.simps) simp
next
  case (Suc n)
  show ?case
  proof (cases "cap < int (length c)")
    case False
    with Suc.prems show ?thesis by (subst evict.simps) auto
  next
    case True
    let ?c = "cache_remove (lru_key c) c"
    have ne: "c \<noteq> []" using Suc.hyps(2) by auto
    note rm = length_remove_lru [OF Suc.prems(1,2) ne]
    have "n = length ?c" using rm(2) Suc.hyps(2) by simp
    from Suc.hyps(1) [OF this images.inv_remove [OF Suc.prems(1)] ages_ok_remove [OF Suc.prems(2)] Suc.prems(3),
        of "remove_image bv (tag_of c (lru_key c)) d"]
    obtain c' d' where "evict bv cap ?c (remove_image bv (tag_of c (lru_key c)) d) = Some (c', d')"
      "keys_ok c'" "ages_ok c'" "set c' \<subseteq> set ?c" "by_age c' = drop (length ?c - nat cap) (tl (by_age c))"
      unfolding rm(1) by blast
    moreover have "set ?c \<subseteq> set c" by (auto simp: cache_remove_def AList.delete_eq)
    moreover have "drop (length ?c - nat cap) (tl (by_age c)) = drop (length c - nat cap) (by_age c)"
    proof -
      have "length c - nat cap = Suc (length ?c - nat cap)"
        using True Suc.prems(3) Suc.hyps(2) rm(2) by linarith
      then show ?thesis by (simp add: drop_Suc)
    qed
    ultimately show ?thesis using True by (subst evict.simps) auto
  qed
qed

section \<open>Properties\<close>

definition builder_ok :: "builder \<Rightarrow> bool" where
  "builder_ok b \<longleftrightarrow> keys_ok (bd_cache b) \<and> distinct (map used_of (bd_cache b)) \<and>
     (\<forall>(k, e) \<in> set (bd_cache b). en_used e \<le> bd_tick b \<and> en_tag e = k @ '':'' @ short_version (en_version e)) \<and>
     int (length (bd_cache b)) \<le> bd_max b \<and> 1 \<le> bd_max b"

text \<open>The image names from the last used to the first.\<close>

definition recent :: "builder \<Rightarrow> string list" where
  "recent b = rev (map fst (by_age (bd_cache b)))"

definition touch :: "string \<Rightarrow> string list \<Rightarrow> string list" where
  "touch k ks = k # removeAll k ks"

lemma builder_ok_new: "builder_ok (new_builder cap ws)"
  by (simp add: builder_ok_def new_builder_def keys_ok_def)

lemma tick_step:
  fixes t :: "64 word"
  assumes "unat t < 2 ^ 64 - 2"
  shows "t < t + 1" "t + 1 < NOT 0"
proof -
  have "unat (t + 1) = unat t + 1" using assms by (simp add: unat_word_ariths)
  moreover have "unat (NOT 0 :: 64 word) = 2 ^ 64 - 1"
    by (simp add: unsigned_minus_1_eq_mask mask_eq_exp_minus_1)
  ultimately show "t < t + 1" "t + 1 < NOT 0" using assms by (simp_all only: word_less_nat_alt)
qed

text \<open>Storing the entry just used puts its name in front.\<close>

lemma mset_put: "keys_ok c \<Longrightarrow> mset (cache_put k e c) = mset ((k, e) # cache_remove k c)"
proof (induction c)
  case (Cons x c)
  have "k \<notin> fst ` set c \<Longrightarrow> AList.delete k c = c" by (induction c) auto
  with Cons show ?case by (auto simp: keys_ok_def cache_put_def cache_remove_def)
qed (simp add: cache_put_def cache_remove_def)

lemma put_newest:
  assumes "keys_ok c" "distinct (map used_of c)" "\<And>x. x \<in> set c \<Longrightarrow> fst x \<noteq> k \<Longrightarrow> used_of x < en_used new"
  shows "by_age (cache_put k new c) = filter (\<lambda>x. fst x \<noteq> k) (by_age c) @ [(k, new)]"
    and "distinct (map used_of (cache_put k new c))"
    and "set (cache_put k new c) = insert (k, new) {x \<in> set c. fst x \<noteq> k}"
proof -
  let ?rest = "cache_remove k c"
  have rest: "set ?rest = {x \<in> set c. fst x \<noteq> k}"
    by (auto simp: cache_remove_def AList.delete_eq)
  then have less: "used_of y < used_of (k, new)" if "y \<in> set ?rest" for y
    using assms(3) that by (auto simp: used_of_def)
  note ms = mset_put [OF assms(1), of k new]
  have "used_of (k, new) \<notin> used_of ` set ?rest" using less by (metis imageE order.irrefl)
  then have dist: "distinct (map used_of ((k, new) # ?rest))"
    using assms(2) by (auto simp: cache_remove_def AList.delete_eq distinct_map_filter)
  then show "distinct (map used_of (cache_put k new c))"
    using ms by (metis mset_map mset_eq_imp_distinct_iff)
  show set: "set (cache_put k new c) = insert (k, new) {x \<in> set c. fst x \<noteq> k}"
    using mset_eq_setD [OF ms] rest by simp
  have "by_age ((k, new) # ?rest) = by_age ?rest @ [(k, new)]"
    unfolding by_age_def using insort_key_last [of "sort_key used_of ?rest" used_of "(k, new)"] less by simp
  moreover have "by_age (cache_put k new c) = by_age ((k, new) # ?rest)"
    unfolding by_age_def
  proof (rule sort_key_inj_key_eq)
    show "mset (cache_put k new c) = mset (sort_key used_of ((k, new) # ?rest))" using ms by simp
    show "inj_on used_of (set (cache_put k new c))"
      unfolding mset_eq_setD [OF ms] using dist distinct_map by blast
  qed (rule sorted_sort_key)
  ultimately show "by_age (cache_put k new c) = filter (\<lambda>x. fst x \<noteq> k) (by_age c) @ [(k, new)]"
    by (simp add: by_age_remove)
qed

lemma sandbox_build_net:
  assumes "sandbox_build bv b tag dir df d = (b1, d1, res)"
  shows "b1 = b\<lparr>bd_net_ready := bd_net_ready b1\<rparr>"
proof -
  have "fst (ensure_network bv b d) = b\<lparr>bd_net_ready := bd_net_ready (fst (ensure_network bv b d))\<rparr>"
    by (auto simp: ensure_network_def Let_def split: prod.split bool.split)
  moreover have "b1 = fst (ensure_network bv b d)"
    using assms by (auto simp: sandbox_build_def Let_def split: prod.splits sum.splits bool.splits option.splits)
  ultimately show ?thesis by simp
qed

lemma sandbox_build_frame:
  assumes "sandbox_build bv b tag dir df d = (b1, d1, res)"
  shows "bd_cache b1 = bd_cache b" "bd_tick b1 = bd_tick b" "bd_max b1 = bd_max b"
  by (subst sandbox_build_net [OF assms], simp)+

lemma builder_ok_ages:
  assumes "builder_ok b" "unat (bd_tick b) < 2 ^ 64 - 2" "x \<in> set (bd_cache b)"
  shows "used_of x < bd_tick b + 1"
proof -
  have "used_of x \<le> bd_tick b" using assms(1,3) by (auto simp: builder_ok_def used_of_def)
  with tick_step(1) [OF assms(2)] show ?thesis by order
qed

lemma filter_rev_removeAll: "rev (map fst (filter (\<lambda>x. fst x \<noteq> k) xs)) = removeAll k (rev (map fst xs))"
  by (induction xs) auto

text \<open>The two stores of a build: on a hit, and after a build, when the eviction follows.\<close>

lemma build_hit_ok:
  assumes "builder_ok b" "unat (bd_tick b) < 2 ^ 64 - 2" "cache_get (bd_cache b) k = Some e"
    "b' = b\<lparr>bd_tick := bd_tick b + 1, bd_cache := cache_put k (e\<lparr>en_used := bd_tick b + 1\<rparr>) (bd_cache b)\<rparr>"
  shows "builder_ok b'" "recent b' = touch k (recent b)"
proof -
  note ok = assms(1) [unfolded builder_ok_def]
  let ?e = "e\<lparr>en_used := bd_tick b + 1\<rparr>"
  have mem: "(k, e) \<in> set (bd_cache b)" using assms(3) by (simp add: cache_get_def map_of_SomeD)
  have "used_of x < en_used ?e" if "x \<in> set (bd_cache b)" for x
    using builder_ok_ages [OF assms(1,2) that] by simp
  note put = put_newest [of "bd_cache b" k ?e, OF _ _ this, simplified]
  show "recent b' = touch k (recent b)"
    using ok put(1) by (simp add: recent_def assms(4) touch_def filter_rev_removeAll)
  have "length (cache_put k ?e (bd_cache b)) = length (bd_cache b)"
    using images.length_put [of "bd_cache b" k ?e] ok assms(3) by (simp add: cache_keys_def)
  moreover have "en_used x \<le> bd_tick b + 1" if "(k', x) \<in> set (bd_cache b)" for k' x
    using builder_ok_ages [OF assms(1,2) that] by (simp add: used_of_def)
  ultimately show "builder_ok b'"
    using ok put(2,3) images.inv_put [of "bd_cache b" k ?e] mem
    by (auto simp: builder_ok_def assms(4))
qed

lemma put_evicted:
  assumes "builder_ok b" "unat (bd_tick b) < 2 ^ 64 - 2" "en_used new = bd_tick b + 1"
  obtains c' d' where "evict bv (bd_max b) (cache_put k new (bd_cache b)) d = Some (c', d')"
    "keys_ok c'" "ages_ok c'" "\<And>x. x \<in> set c' \<Longrightarrow> x = (k, new) \<or> x \<in> set (bd_cache b)"
    "length c' \<le> nat (bd_max b)" "cache_get c' k = Some new"
    "rev (map fst (by_age c')) = take (nat (bd_max b)) (touch k (recent b))"
proof -
  note ok = assms(1) [unfolded builder_ok_def]
  let ?c = "cache_put k new (bd_cache b)"
  have age: "used_of x < en_used new" if "x \<in> set (bd_cache b)" for x
    using builder_ok_ages [OF assms(1,2) that] assms(3) by simp
  note put = put_newest [of "bd_cache b" k new, OF _ _ age, simplified]
  have "used_of x \<le> bd_tick b + 1" if "x \<in> set ?c" for x
    using that put(3) ok order.strict_implies_order [OF age] assms(3) by (auto simp: used_of_def)
  then have ages: "ages_ok ?c"
    using put(2) ok tick_step(2) [OF assms(2)] by (fastforce simp: ages_ok_def)
  have keys: "keys_ok ?c" using ok by (simp add: images.inv_put)
  obtain c' d' where ev: "evict bv (bd_max b) ?c d = Some (c', d')" "keys_ok c'" "ages_ok c'" "set c' \<subseteq> set ?c"
    "by_age c' = drop (length ?c - nat (bd_max b)) (by_age ?c)"
    using evict_by_age [OF keys ages, of "bd_max b" bv d] ok by auto
  have last: "by_age ?c = filter (\<lambda>x. fst x \<noteq> k) (by_age (bd_cache b)) @ [(k, new)]" using put(1) ok by simp
  have len: "length c' \<le> nat (bd_max b)" using arg_cong [OF ev(5), of length] by simp
  have "(k, new) \<in> set ?c" using put(3) ok by simp
  then have pos: "length ?c - nat (bd_max b) < length ?c" using ok by (cases ?c) auto
  have "(k, new) \<in> set (by_age c')"
    unfolding ev(5) last using pos arg_cong [OF last, of length] by (simp add: drop_append)
  then have get: "cache_get c' k = Some new" using ev(2) by (simp add: keys_ok_def cache_get_def)
  have "rev (map fst (by_age c')) = take (nat (bd_max b)) (rev (map fst (by_age ?c)))"
    unfolding ev(5) using arg_cong [OF last, of length] by (simp add: take_rev rev_map [symmetric] drop_map)
  also have "rev (map fst (by_age ?c)) = touch k (recent b)"
    by (simp add: last recent_def touch_def filter_rev_removeAll)
  finally have lru: "rev (map fst (by_age c')) = take (nat (bd_max b)) (touch k (recent b))" .
  have "x = (k, new) \<or> x \<in> set (bd_cache b)" if "x \<in> set c'" for x using that ev(4) put(3) ok by auto
  then show thesis by (rule that [OF ev(1-3) _ len get lru])
qed

lemma build_store_ok:
  assumes "builder_ok b" "unat (bd_tick b) < 2 ^ 64 - 2" "en_used new = bd_tick b + 1"
    "en_tag new = k @ '':'' @ short_version (en_version new)"
  obtains c' d' where "evict bv (bd_max b) (cache_put k new (bd_cache b)) d = Some (c', d')"
    "\<And>n. builder_ok (b\<lparr>bd_tick := bd_tick b + 1, bd_cache := c', bd_net_ready := n\<rparr>)"
    "rev (map fst (by_age c')) = take (nat (bd_max b)) (touch k (recent b))"
    "cache_get c' k = Some new"
    "\<And>k' e. k' \<noteq> k \<Longrightarrow> cache_get c' k' = Some e \<Longrightarrow> cache_get (bd_cache b) k' = Some e"
proof -
  note ok = assms(1) [unfolded builder_ok_def]
  have age: "used_of x < en_used new" if "x \<in> set (bd_cache b)" for x
    using builder_ok_ages [OF assms(1,2) that] assms(3) by simp
  obtain c' d' where ev: "evict bv (bd_max b) (cache_put k new (bd_cache b)) d = Some (c', d')"
    "keys_ok c'" "ages_ok c'" "\<And>x. x \<in> set c' \<Longrightarrow> x = (k, new) \<or> x \<in> set (bd_cache b)"
    "length c' \<le> nat (bd_max b)" "cache_get c' k = Some new"
    "rev (map fst (by_age c')) = take (nat (bd_max b)) (touch k (recent b))"
    using put_evicted [OF assms(1-3), of bv k d] by blast
  have "builder_ok (b\<lparr>bd_tick := bd_tick b + 1, bd_cache := c', bd_net_ready := n\<rparr>)" for n
  proof -
    have "en_used x \<le> bd_tick b + 1 \<and> en_tag x = k' @ '':'' @ short_version (en_version x)"
      if "(k', x) \<in> set c'" for k' x
      using ev(4) [OF that] age [of "(k', x)"] assms(3,4) ok by (auto simp: used_of_def)
    moreover from ev(5) have "int (length c') \<le> bd_max b" using ok by linarith
    ultimately show ?thesis using ok ev(2,3) by (auto simp: builder_ok_def ages_ok_def)
  qed
  moreover have "cache_get (bd_cache b) k' = Some e" if "k' \<noteq> k" "cache_get c' k' = Some e" for k' e
  proof -
    have "(k', e) \<in> set (bd_cache b)"
      using that ev(4) [of "(k', e)"] by (auto simp: cache_get_def dest!: map_of_SomeD)
    then show ?thesis using ok by (simp add: cache_get_def keys_ok_def)
  qed
  ultimately show thesis using that ev(1,6,7) by blast
qed

definition is_hit :: "'d build_spec \<Rightarrow> builder \<Rightarrow> bool" where
  "is_hit sp b = (case cache_get (bd_cache b) (bs_image sp) of Some e \<Rightarrow> en_version e = bs_version sp | None \<Rightarrow> False)"

lemma build_cases:
  assumes "builder_ok b" "unat (bd_tick b) < 2 ^ 64 - 2"
  obtains
    (hit) e b' where "is_hit sp b" "cache_get (bd_cache b) (bs_image sp) = Some e" "en_version e = bs_version sp"
      "build bv sp b d = Some (b', d, Ok (en_tag e))"
      "b' = b\<lparr>bd_tick := bd_tick b + 1,
         bd_cache := cache_put (bs_image sp) (e\<lparr>en_used := bd_tick b + 1\<rparr>) (bd_cache b)\<rparr>"
  | (failed) b' d' e where "\<not> is_hit sp b" "build bv sp b d = Some (b', d', Err e)"
      "\<exists>n. b' = b\<lparr>bd_tick := bd_tick b + 1, bd_net_ready := n\<rparr>"
  | (built) b' d' c' n where "\<not> is_hit sp b"
      "build bv sp b d = Some (b', d', Ok (bs_image sp @ '':'' @ short_version (bs_version sp)))"
      "b' = b\<lparr>bd_tick := bd_tick b + 1, bd_cache := c', bd_net_ready := n\<rparr>" "builder_ok b'"
      "recent b' = take (nat (bd_max b)) (touch (bs_image sp) (recent b))"
      "\<exists>e. cache_get c' (bs_image sp) = Some e \<and> en_version e = bs_version sp"
      "\<And>k' e. k' \<noteq> bs_image sp \<Longrightarrow> cache_get c' k' = Some e \<Longrightarrow> cache_get (bd_cache b) k' = Some e"
proof (cases "is_hit sp b")
  case True
  then obtain e where e: "cache_get (bd_cache b) (bs_image sp) = Some e" "en_version e = bs_version sp"
    by (auto simp: is_hit_def split: option.splits)
  then show thesis by (intro hit [OF True e]) (simp_all add: build_def Let_def)
next
  case False
  let ?b = "b\<lparr>bd_tick := bd_tick b + 1\<rparr>" and ?k = "bs_image sp"
  let ?tag = "?k @ '':'' @ short_version (bs_version sp)"
  let ?new = "\<lparr>en_version = bs_version sp, en_tag = ?tag, en_used = bd_tick b + 1\<rparr>"
  have run: "build bv sp b d = build_miss bv sp ?b d"
    using False by (auto simp: build_def is_hit_def Let_def split: option.split)
  obtain d1 dir where ctx: "bs_context sp d = (d1, dir)" by fastforce
  show thesis
  proof (cases dir)
    case None
    then show thesis using ctx run False
      by (intro failed [of ?b d1 ContextFailed]) (auto simp: build_miss_def intro: exI [of _ "bd_net_ready b"])
  next
    case (Some dc)
    obtain p cleanup where dc: "dc = (p, cleanup)" by (cases dc)
    note Some = Some [unfolded dc]
    obtain b1 d2 res where sb: "sandbox_build bv ?b ?tag p (bs_dockerfile sp) d1 = (b1, d2, res)"
      by (metis prod_cases3)
    have b1: "b1 = ?b\<lparr>bd_net_ready := bd_net_ready b1\<rparr>" by (rule sandbox_build_net [OF sb])
    show thesis
    proof (cases res)
      case (Inl e)
      then show thesis using ctx Some run sb b1 False
        by (intro failed [of b1 "cleanup d2" e]) (auto simp: build_miss_def Let_def)
    next
      case (Inr _)
      obtain d3 where "build bv sp b d =
          map_option (\<lambda>(c', d'). (b1\<lparr>bd_cache := c'\<rparr>, cleanup d', Ok ?tag)) (evict bv (bd_max b) (cache_put ?k ?new (bd_cache b)) d3)"
        using ctx Some run sb Inr sandbox_build_frame [OF sb] by (simp add: build_miss_def Let_def)
      moreover obtain c' d' where "evict bv (bd_max b) (cache_put ?k ?new (bd_cache b)) d3 = Some (c', d')"
        "builder_ok (b\<lparr>bd_tick := bd_tick b + 1, bd_cache := c', bd_net_ready := bd_net_ready b1\<rparr>)"
        "rev (map fst (by_age c')) = take (nat (bd_max b)) (touch ?k (recent b))" "cache_get c' ?k = Some ?new"
        "\<And>k' e. k' \<noteq> ?k \<Longrightarrow> cache_get c' k' = Some e \<Longrightarrow> cache_get (bd_cache b) k' = Some e"
        by (rule build_store_ok [OF assms, of ?new ?k bv d3]) simp_all
      moreover have "b1\<lparr>bd_cache := c'\<rparr> = b\<lparr>bd_tick := bd_tick b + 1, bd_cache := c', bd_net_ready := bd_net_ready b1\<rparr>"
        by (subst b1) simp
      ultimately show thesis using False
        by (intro built [where b' = "b1\<lparr>bd_cache := c'\<rparr>" and d' = "cleanup d'" and c' = c' and n = "bd_net_ready b1"])
            (simp_all add: recent_def)
    qed
  qed
qed

lemma build_sound:
  assumes "builder_ok b" "unat (bd_tick b) < 2 ^ 64 - 2"
  shows "\<exists>b' d' res. build bv sp b d = Some (b', d', res) \<and> builder_ok b' \<and> bd_tick b' = bd_tick b + 1 \<and>
    bd_max b' = bd_max b"
proof (cases rule: build_cases [OF assms, of sp bv d, case_names hit failed built])
  case (hit e b')
  from build_hit_ok(1) [OF assms hit(2,5)] hit show ?thesis by (auto simp: builder_ok_def)
next
  case (failed b' d' e)
  have "en_used x \<le> bd_tick b + 1" if "(k, x) \<in> set (bd_cache b)" for k x
    using order.strict_implies_order [OF builder_ok_ages [OF assms that]] by (simp add: used_of_def)
  with failed assms(1) show ?thesis by (auto simp: builder_ok_def)
next
  case (built b' d' c' n)
  then show ?thesis by (auto simp: builder_ok_def)
qed

lemma build_tag:
  assumes "builder_ok b" "unat (bd_tick b) < 2 ^ 64 - 2" "build bv sp b d = Some (b', d', Ok tag)"
  shows "tag = bs_image sp @ '':'' @ short_version (bs_version sp)"
proof (cases rule: build_cases [OF assms(1,2), of sp bv d, case_names hit failed built])
  case (hit e b'')
  have "(bs_image sp, e) \<in> set (bd_cache b)" using hit(2) by (simp add: cache_get_def map_of_SomeD)
  then show ?thesis using assms(1,3) hit(3,4) by (auto simp: builder_ok_def)
qed (use assms(3) in auto)

text \<open>C21: a build returns. From a sound builder, with fewer than 2 to the 64 builds behind it, \<open>Build\<close>
  ends whatever the docker daemon does, its eviction loop included, and leaves a sound builder: no more
  images than the cap, each tagged with its own version, no two with one recency.\<close>

theorem build_terminates:
  assumes "builder_ok b" "unat (bd_tick b) < 2 ^ 64 - 2"
  shows "\<exists>b' d' res. build bv sp b d = Some (b', d', res) \<and> builder_ok b' \<and> bd_tick b' = bd_tick b + 1 \<and>
    int (length (bd_cache b')) \<le> bd_max b"
  using build_sound [OF assms, of bv sp d] by (auto simp: builder_ok_def)

definition sample_build_env :: "unit build_env" where
  "sample_build_env = \<lparr>bv_run = (\<lambda>d args. (d, True, '''')), bv_walk = (\<lambda>d dir. []), bv_chmod = (\<lambda>d p m. (d, True)),
     bv_rand = (\<lambda>d. (d, Some ''abcdefgh'')), bv_tar = (\<lambda>d. (d, Some ''/tmp/t.tar'')),
     bv_build = (\<lambda>d args tar. (d, BuildRan, '''')), bv_remove = (\<lambda>d p. d), bv_cpus = (\<lambda>_. ''2'')\<rparr>"

definition sample_spec :: "string \<Rightarrow> string \<Rightarrow> unit build_spec" where
  "sample_spec img version = \<lparr>bs_image = img, bs_version = version, bs_dockerfile = ''Dockerfile'',
     bs_context = (\<lambda>d. (d, Some (''/tmp/ctx'', \<lambda>d. d)))\<rparr>"

theorem build_terminates_witness:
  "\<exists>b'. build sample_build_env (sample_spec ''img'' ''v1'') (new_builder 0 None) () = Some b'"
  using build_terminates [OF builder_ok_new, of 0 None sample_build_env "sample_spec ''img'' ''v1''" "()"]
  by (auto simp: new_builder_def)

text \<open>C22: the cache is least-recently-used. Seen as the list of image names from the last used to the
  first, a \<open>Build\<close> that succeeds moves its image to the front and cuts the list at the cap; it answers
  the tag of the version asked for, and that version is cached. A cached version is answered without
  touching docker or the file system, and a build that fails leaves the cached images alone.\<close>

theorem build_is_lru:
  assumes "builder_ok b" "unat (bd_tick b) < 2 ^ 64 - 2" "build bv sp b d = Some (b', d', res)"
  shows "case res of
      Inr tag \<Rightarrow>
        tag = bs_image sp @ '':'' @ short_version (bs_version sp) \<and>
        recent b' = take (nat (bd_max b)) (touch (bs_image sp) (recent b)) \<and> is_hit sp b' \<and>
        (is_hit sp b \<longrightarrow> d' = d)
    | Inl e \<Rightarrow> \<not> is_hit sp b \<and> bd_cache b' = bd_cache b"
proof (cases rule: build_cases [OF assms(1,2), of sp bv d, case_names hit failed built])
  case (hit e b'')
  let ?e = "e\<lparr>en_used := bd_tick b + 1\<rparr>"
  have b': "b' = b\<lparr>bd_tick := bd_tick b + 1, bd_cache := cache_put (bs_image sp) ?e (bd_cache b)\<rparr>"
    and res: "res = Ok (en_tag e)" "d' = d"
    using hit(4,5) assms(3) by auto
  have rec: "recent b' = touch (bs_image sp) (recent b)" and ok: "builder_ok b'"
    using build_hit_ok [OF assms(1,2) hit(2) b'] by blast+
  have "length (recent b') \<le> nat (bd_max b)" using ok b' by (auto simp: builder_ok_def recent_def)
  then have "recent b' = take (nat (bd_max b)) (touch (bs_image sp) (recent b))" using rec by simp
  moreover have "(bs_image sp, e) \<in> set (bd_cache b)" using hit(2) by (simp add: cache_get_def map_of_SomeD)
  then have "en_tag e = bs_image sp @ '':'' @ short_version (bs_version sp)"
    using assms(1) hit(3) by (auto simp: builder_ok_def)
  moreover have "is_hit sp b'"
    using hit(3) by (simp add: is_hit_def b' cache_get_def cache_put_def update_conv')
  ultimately show ?thesis by (simp add: res)
next
  case (failed b'' d'' e)
  then show ?thesis using assms(3) by auto
next
  case (built b'' d'' c' n)
  then show ?thesis using assms(3) by (auto simp: is_hit_def)
qed

lemma sample_build_any:
  assumes "b = new_builder 1 None" "snd (bs_context sp ()) = Some (dir, cleanup)"
  shows "\<exists>b'. build sample_build_env sp b () = Some (b', (), Ok (bs_image sp @ '':'' @ short_version (bs_version sp)))"
proof -
  have ctx: "bs_context sp () = ((), Some (dir, cleanup))" using assms(2) by (cases "bs_context sp ()") simp
  have sb: "sandbox_build sample_build_env (b\<lparr>bd_tick := 1\<rparr>) tag dir df () =
      (b\<lparr>bd_tick := 1, bd_net_ready := True\<rparr>, (), Ok ())" for tag dir df
    by (simp add: assms(1) sandbox_build_def ensure_network_def sample_build_env_def new_builder_def default_sandbox_def
        rand_hex_def Let_def)
  have "evict bv 1 [x] () = Some ([x], ())" for bv :: "unit build_env" and x
    by (subst evict.simps) simp
  then show ?thesis
    using sb by (simp add: assms(1) ctx build_def build_miss_def new_builder_def cache_get_def cache_put_def Let_def)
qed

lemma sample_build:
  assumes "b = new_builder 1 None"
  shows "\<exists>b'. build sample_build_env (sample_spec img v) b () = Some (b', (), Ok (img @ '':'' @ short_version v))"
  using sample_build_any [OF assms, of "sample_spec img v"] by (simp add: sample_spec_def)

theorem build_is_lru_witness:
  "\<exists>b' d'. build sample_build_env (sample_spec ''img'' ''v1'') (new_builder 1 None) () = Some (b', d', Ok ''img:v1'') \<and>
     recent b' = [''img'']"
proof -
  let ?b = "new_builder 1 None" and ?sp = "sample_spec ''img'' ''v1''"
  obtain b' d' where r: "build sample_build_env ?sp ?b () = Some (b', d', Ok ''img:v1'')"
    using sample_build [OF refl, of "''img''" "''v1''"] by (auto simp: short_version_def)
  have "recent ?b = []" by (simp add: recent_def new_builder_def by_age_def)
  with build_is_lru [OF builder_ok_new _ r] have "recent b' = [''img'']"
    by (simp add: new_builder_def sample_spec_def touch_def)
  with r show ?thesis by blast
qed

section \<open>Properties of the sandbox\<close>

text \<open>The arguments of \<open>docker run\<close> before the image, read as flags with their values.\<close>

fun flags :: "string list \<Rightarrow> (string \<times> string) list" where
  "flags (f # v # xs) = (f, v) # flags xs"
| "flags xs = []"

definition run_flags :: "(rat \<Rightarrow> string) \<Rightarrow> sandbox \<Rightarrow> string \<Rightarrow> string \<Rightarrow> (string \<times> string) list" where
  "run_flags fmt s name dir =
     [(''--name'', name), (''--network'', sb_network s), (''--security-opt'', ''seccomp=unconfined''),
      (''--security-opt'', ''apparmor=unconfined''), (''--security-opt'', ''systempaths=unconfined''),
      (''--device'', ''/dev/fuse''), (''-v'', dir @ '':/workspace:ro''), (''--entrypoint'', ''buildctl-daemonless.sh''),
      (''--memory'', itoa (sb_memory_mb s) @ ''m''), (''--cpus'', fmt (sb_cpus s)),
      (''--pids-limit'', itoa (sb_pids_limit s))]"

text \<open>C23: the lockdown of a build. Whatever part of the sandbox is configured, the container gets exactly
  eleven flags, the caps on memory, CPU and processes among them, whose only mount is the build context,
  read-only; then the image and the build command, in which what the Owner chose appears as one argument
  of the builder and never as a docker flag. The time limit is never off.\<close>

theorem sandbox_lockdown:
  "\<exists>cmd. run_args fmt (with_defaults s) name tag dir df =
      ''run'' # concat (map (\<lambda>(f, v). [f, v]) (run_flags fmt (with_defaults s) name dir)) @ sb_image (with_defaults s) # cmd \<and>
    [v. (f, v) \<leftarrow> run_flags fmt (with_defaults s) name dir, f = ''-v''] = [dir @ '':/workspace:ro''] \<and>
    ''--privileged'' \<notin> fst ` set (run_flags fmt (with_defaults s) name dir) \<and>
    cmd = ''build'' # drop 1 cmd \<and> ''filename='' @ df \<in> set cmd \<and> sb_network (with_defaults s) \<noteq> '''' \<and>
    0 < sb_memory_mb (with_defaults s) \<and> 0 < sb_cpus (with_defaults s) \<and> 0 < sb_pids_limit (with_defaults s) \<and>
    0 < sb_timeout (with_defaults s)"
proof -
  let ?s = "with_defaults s"
  have pos: "0 < sb_memory_mb ?s" "0 < sb_cpus ?s" "0 < sb_pids_limit ?s" "0 < sb_timeout ?s" "sb_network ?s \<noteq> ''''"
    by (auto simp: with_defaults_def default_sandbox_def Let_def)
  let ?cmd = "[''build'', ''--frontend'', ''dockerfile.v0'', ''--local'', ''context=/workspace'',
        ''--local'', ''dockerfile=/workspace'', ''--opt'', ''filename='' @ df,
        ''--output'', ''type=docker,name='' @ tag @ '',dest=-'']"
  show ?thesis
    using pos by (intro exI [of _ ?cmd]) (simp add: run_args_def run_flags_def)
qed

text \<open>The build container is always removed. Once the container has been started, whether the build
  ends, fails, exceeds its limits or its image does not load, the last thing the sandbox does to docker is
  to remove it by force, before it removes the image file.\<close>

theorem build_container_removed:
  assumes "sandbox_build bv b tag dir df d = (b', d', res)"
    "res \<notin> {Err PrepareFailed, Err BuildRandFailed, Err TarFailed}" "\<And>out. res \<noteq> Err (NetworkFailed out)"
  shows "\<exists>d0 d1 hex tar. rand_hex (snd (bv_rand bv d0)) = Some hex \<and>
    d' = bv_remove bv (fst (bv_run bv d1 [''rm'', ''-f'', ''showcase-build-'' @ hex])) tar"
proof -
  obtain b1 d1 r1 where en: "ensure_network bv b d = (b1, d1, r1)" by (metis prod_cases3)
  have "r1 = Inl e \<Longrightarrow> \<exists>out. e = NetworkFailed out" for e
    using en by (auto simp: ensure_network_def Let_def split: prod.splits bool.splits if_splits)
  with assms(1,3) en have r1: "r1 = Ok ()" by (cases r1) (auto simp: sandbox_build_def)
  obtain d2 where rl: "relax_context_perms bv (bv_walk bv d1 dir) d1 = (d2, True)"
    using assms(1,2) en r1 by (cases "relax_context_perms bv (bv_walk bv d1 dir) d1")
      (auto simp: sandbox_build_def split: bool.splits)
  obtain d3 bytes where rnd: "bv_rand bv d2 = (d3, bytes)" by fastforce
  obtain hex where hex: "rand_hex bytes = Some hex"
    using assms(1,2) en r1 rl rnd by (cases "rand_hex bytes") (auto simp: sandbox_build_def)
  obtain d4 tar where tar: "bv_tar bv d3 = (d4, Some tar)"
    using assms(1,2) en r1 rl rnd hex by (cases "bv_tar bv d3") (auto simp: sandbox_build_def Let_def split: option.splits)
  have "\<exists>d7. d' = bv_remove bv (fst (bv_run bv d7 [''rm'', ''-f'', ''showcase-build-'' @ hex])) tar"
    using assms(1) en r1 rl rnd hex tar by (auto simp: sandbox_build_def Let_def split: prod.splits)
  with rnd hex show ?thesis by (metis snd_conv)
qed

text \<open>Making the context readable only widens. A visit of the walk changes at most one file's mode,
  never through a symbolic link; every permission the file had it keeps, and group and others can read
  it, and enter it when it is a directory.\<close>

theorem relax_only_widens:
  assumes "relax_visit bv v d = (d', ok)" "d' \<noteq> d"
  shows "\<exists>path k m new. v = Visit path k (Some m) \<and> k \<noteq> Symlink \<and> (d', ok) = bv_chmod bv d path new \<and>
    (\<forall>n < 9. bit m n \<longrightarrow> bit new n) \<and> bit new 5 \<and> bit new 2 \<and> (k = Directory \<longrightarrow> bit new 3 \<and> bit new 0) \<and>
    (\<forall>n. bit new n \<and> \<not> bit m n \<longrightarrow> n \<in> {0, 2, 3, 5})"
proof -
  obtain path k m where v: "v = Visit path k (Some m)" "k \<noteq> Symlink"
    "(d', ok) = bv_chmod bv d path ((m AND 0x1FF) OR added_bits k)"
    using assms by (auto simp: relax_visit_def Let_def split: walk_visit.splits if_splits option.splits)
  have mask: "(0x1FF :: 32 word) = mask 9" by (simp add: mask_eq_exp_minus_1)
  have bits: "bit (0x2D :: 32 word) n \<longleftrightarrow> n \<in> {0, 2, 3, 5}" "bit (0x24 :: 32 word) n \<longleftrightarrow> n \<in> {2, 5}" for n
  proof -
    have eqs: "(0x2D :: 32 word) = 1 OR push_bit 2 1 OR push_bit 3 1 OR push_bit 5 1"
      "(0x24 :: 32 word) = push_bit 2 1 OR push_bit 5 1"
      by simp_all
    show "bit (0x2D :: 32 word) n \<longleftrightarrow> n \<in> {0, 2, 3, 5}" "bit (0x24 :: 32 word) n \<longleftrightarrow> n \<in> {2, 5}"
      unfolding eqs by (simp_all only: bit_or_iff bit_push_bit_iff bit_1_iff) auto
  qed
  define new where "new = (m AND 0x1FF) OR added_bits k"
  have "bit new n \<longleftrightarrow> n < 9 \<and> bit m n \<or> n \<in> (if k = Directory then {0, 2, 3, 5} else {2, 5})" for n
  proof -
    have "bit new n \<longleftrightarrow> bit m n \<and> possible_bit TYPE(32 word) n \<and> n < 9 \<or> bit (added_bits k) n"
      unfolding new_def mask by (simp only: bit_or_iff bit_and_iff bit_mask_iff)
    moreover have "bit (added_bits k) n \<longleftrightarrow> n \<in> (if k = Directory then {0, 2, 3, 5} else {2, 5})"
      unfolding added_bits_def using bits by (cases "k = Directory") (simp_all only: if_True if_False simp_thms)
    moreover have "n < 9 \<Longrightarrow> possible_bit TYPE(32 word) n" by simp
    ultimately show ?thesis by blast
  qed
  then show ?thesis using v
    by (intro exI [of _ path] exI [of _ k] exI [of _ m] exI [of _ new]) (auto simp: new_def [symmetric])
qed

text \<open>An environment that counts the files whose mode it changed.\<close>

definition counting_env :: "nat build_env" where
  "counting_env = \<lparr>bv_run = (\<lambda>d args. (d, True, '''')), bv_walk = (\<lambda>d dir. []), bv_chmod = (\<lambda>d p m. (Suc d, True)),
     bv_rand = (\<lambda>d. (d, None)), bv_tar = (\<lambda>d. (d, None)), bv_build = (\<lambda>d args tar. (d, BuildRan, '''')),
     bv_remove = (\<lambda>d p. d), bv_cpus = (\<lambda>_. ''2'')\<rparr>"

theorem relax_only_widens_witness:
  "\<exists>new. (1, True) = bv_chmod counting_env 0 ''f'' new \<and> bit new 5 \<and> bit new 2"
proof -
  have "relax_visit counting_env (Visit ''f'' Other (Some 0x180)) 0 = (1, True)"
    by (simp add: relax_visit_def counting_env_def added_bits_def)
  from relax_only_widens [OF this] show ?thesis by auto
qed

theorem build_container_removed_witness:
  "\<exists>d0 d1 hex. rand_hex (snd (bv_rand sample_build_env d0)) = Some hex \<and>
    () = fst (bv_run sample_build_env d1 [''rm'', ''-f'', ''showcase-build-'' @ hex])"
proof -
  obtain b' where "sandbox_build sample_build_env (new_builder 1 None) ''t'' ''/c'' ''Dockerfile'' () = (b', (), Ok ())"
    by (simp add: sandbox_build_def ensure_network_def sample_build_env_def new_builder_def default_sandbox_def
        rand_hex_def Let_def)
  from build_container_removed [OF this] show ?thesis by simp
qed

section \<open>Properties of the building source\<close>

lemma build_services_Ok:
  assumes "build_services bv spec pid p svcs images b d = Some (b', d', Ok images')"
    "builder_ok b" "unat (bd_tick b) + length svcs < 2 ^ 64 - 1"
  shows "dom images' = dom images \<union> svc_name ` set svcs \<and>
    (\<forall>n. n \<notin> svc_name ` set svcs \<longrightarrow> images' n = images n) \<and>
    (distinct (map svc_name svcs) \<longrightarrow>
      (\<forall>svc \<in> set svcs. \<exists>d0 sp. snd (spec d0 pid svc (commit_for p svc)) = Some sp \<and>
         images' (svc_name svc) = Some (bs_image sp @ '':'' @ short_version (bs_version sp))))"
  using assms
proof (induction svcs arbitrary: images b d)
  case (Cons svc svcs)
  obtain d1 sp where sp: "spec d pid svc (commit_for p svc) = (d1, Some sp)"
    using Cons.prems(1) by (cases "spec d pid svc (commit_for p svc)") (auto split: option.splits)
  obtain b1 d2 tag where bd: "build bv sp b d1 = Some (b1, d2, Ok tag)"
    and rest: "build_services bv spec pid p svcs (images(svc_name svc \<mapsto> tag)) b1 d2 = Some (b', d', Ok images')"
    using Cons.prems(1) sp by (auto split: option.splits prod.splits sum.splits simp del: fun_upd_apply)
  have small: "unat (bd_tick b) < 2 ^ 64 - 2" using Cons.prems(3) by simp
  obtain b'' d'' res where "build bv sp b d1 = Some (b'', d'', res)" "builder_ok b''" "bd_tick b'' = bd_tick b + 1"
    using build_sound [OF Cons.prems(2) small, of bv sp d1] by blast
  with bd have ok: "builder_ok b1" "bd_tick b1 = bd_tick b + 1" by auto
  have "unat (bd_tick b1) = unat (bd_tick b) + 1" using small by (simp add: ok(2) unat_word_ariths)
  then have "unat (bd_tick b1) + length svcs < 2 ^ 64 - 1" using Cons.prems(3) by simp
  note IH = Cons.IH [OF rest ok(1) this]
  have tag: "tag = bs_image sp @ '':'' @ short_version (bs_version sp)"
    using build_tag [OF Cons.prems(2) small bd] .
  show ?case
  proof (intro conjI impI ballI allI)
    show "dom images' = dom images \<union> svc_name ` set (svc # svcs)" using IH by auto
    show "images' n = images n" if "n \<notin> svc_name ` set (svc # svcs)" for n using IH that by auto
    fix s assume "distinct (map svc_name (svc # svcs))" "s \<in> set (svc # svcs)"
    then show "\<exists>d0 sp. snd (spec d0 pid s (commit_for p s)) = Some sp \<and>
        images' (svc_name s) = Some (bs_image sp @ '':'' @ short_version (bs_version sp))"
      using IH sp tag by (cases "s = svc") (auto intro!: exI [of _ d] exI [of _ sp])
  qed
qed auto

text \<open>A published Project runs what was published. When the building source answers a Project,
  every service has an image, built from the specification of the service at its own pinned commit, and
  at the Project's commit when it has none; the rest of the Project is the base source's.\<close>

theorem building_source_pins_commits:
  assumes "building_source bv spec base pid b d = Some (b', d', Ok q)" "builder_ok b"
    "base pid = Ok p" "distinct (map svc_name (m_services (pj_manifest p)))"
    "unat (bd_tick b) + length (m_services (pj_manifest p)) < 2 ^ 64 - 1"
  shows "pj_manifest q = pj_manifest p \<and> dom (pj_images q) = svc_name ` set (m_services (pj_manifest p)) \<and>
    (\<forall>svc \<in> set (m_services (pj_manifest p)). \<exists>d0 sp.
       snd (spec d0 pid svc (case pj_commits p (svc_name svc) of
           Some c \<Rightarrow> if c = '''' then pj_commit p else c | None \<Rightarrow> pj_commit p)) = Some sp \<and>
       pj_images q (svc_name svc) = Some (bs_image sp @ '':'' @ short_version (bs_version sp)))"
proof -
  obtain images where run: "build_services bv spec pid p (m_services (pj_manifest p)) Map.empty b d = Some (b', d', Ok images)"
    and q: "q = p\<lparr>pj_images := images\<rparr>"
  proof -
    obtain res where "build_services bv spec pid p (m_services (pj_manifest p)) Map.empty b d = Some (b', d', res)"
      "Ok q = (case res of Inl e \<Rightarrow> Err e | Inr images \<Rightarrow> Ok (p\<lparr>pj_images := images\<rparr>))"
      using assms(1,3) by (auto simp: building_source_def)
    then show thesis using that by (auto split: sum.splits)
  qed
  have "commit_for p svc = (case pj_commits p (svc_name svc) of
      Some c \<Rightarrow> if c = '''' then pj_commit p else c | None \<Rightarrow> pj_commit p)" for svc
    by (simp add: commit_for_def split: option.split)
  with build_services_Ok [OF run assms(2,5)] assms(4) q show ?thesis by simp
qed

theorem building_source_pins_commits_witness:
  "\<exists>b' d' q. building_source sample_build_env (\<lambda>d pid svc c. (d, Some (sample_spec (svc_name svc) c)))
      (static_source (fixture_project\<lparr>pj_commit := ''v1''\<rparr>)) ''p'' (new_builder 1 None) () = Some (b', d', Ok q) \<and>
     pj_images q ''web'' = Some ''web:v1''"
proof -
  let ?p = "fixture_project\<lparr>pj_commit := ''v1''\<rparr>" and ?b = "new_builder 1 None"
  let ?spec = "\<lambda>d pid svc c. (d, Some (sample_spec (svc_name svc) c))"
  have svcs: "map svc_name (m_services (pj_manifest ?p)) = [''web'']" "pj_commits ?p = Map.empty" "pj_commit ?p = ''v1''"
    by (simp_all add: fixture_project_def)
  obtain b' where bd: "build sample_build_env (sample_spec ''web'' ''v1'') ?b () = Some (b', (), Ok ''web:v1'')"
    using sample_build [of ?b "''web''" "''v1''"] by (auto simp: short_version_def)
  then obtain q where run: "building_source sample_build_env ?spec (static_source ?p) ''p'' ?b () = Some (b', (), Ok q)"
    by (simp add: building_source_def static_source_def fixture_project_def commit_for_def)
  have "\<exists>d0 sp. snd (?spec d0 ''p'' svc ''v1'') = Some sp \<and>
      pj_images q (svc_name svc) = Some (bs_image sp @ '':'' @ short_version (bs_version sp))"
    if "svc \<in> set (m_services (pj_manifest ?p))" for svc
    using building_source_pins_commits [OF run builder_ok_new, of ?p] that svcs
    by (simp add: static_source_def fixture_project_def new_builder_def)
  then have "pj_images q ''web'' = Some ''web:v1''"
    by (simp add: fixture_project_def sample_spec_def short_version_def)
  with run show ?thesis by blast
qed

section \<open>Builds in sequence\<close>

definition version_of :: "builder \<Rightarrow> string \<Rightarrow> string option" where
  "version_of b k = map_option en_version (cache_get (bd_cache b) k)"

lemma is_hit_version: "is_hit sp b \<longleftrightarrow> version_of b (bs_image sp) = Some (bs_version sp)"
  by (auto simp: is_hit_def version_of_def split: option.split)

lemma recent_cached: "k \<in> set (recent b) \<longleftrightarrow> cache_get (bd_cache b) k \<noteq> None"
  by (auto simp: recent_def by_age_def cache_get_def map_of_eq_None_iff)

lemma recent_distinct: "builder_ok b \<Longrightarrow> distinct (recent b)"
proof -
  assume "builder_ok b"
  then have "distinct (map fst (bd_cache b))" by (simp add: builder_ok_def keys_ok_def)
  moreover have "mset (map fst (by_age (bd_cache b))) = mset (map fst (bd_cache b))" by (simp add: by_age_def)
  ultimately show ?thesis unfolding recent_def by (metis distinct_rev mset_eq_imp_distinct_iff)
qed

lemma recent_length: "builder_ok b \<Longrightarrow> length (recent b) \<le> nat (bd_max b)"
  by (auto simp: builder_ok_def recent_def)

lemma build_hit_versions:
  assumes "is_hit sp b" "build bv sp b d = Some (b', d', res)"
  shows "version_of b' k = version_of b k" "d' = d"
proof -
  obtain e where e: "cache_get (bd_cache b) (bs_image sp) = Some e" "en_version e = bs_version sp"
    using assms(1) by (auto simp: is_hit_def split: option.splits)
  then show "version_of b' k = version_of b k" "d' = d"
    using assms(2) by (auto simp: build_def Let_def version_of_def cache_get_def cache_put_def update_conv')
qed

lemma build_others:
  assumes "builder_ok b" "unat (bd_tick b) < 2 ^ 64 - 2" "build bv sp b d = Some (b', d', Ok tag)"
    "k \<noteq> bs_image sp" "k \<in> set (recent b')"
  shows "version_of b' k = version_of b k"
proof (cases rule: build_cases [OF assms(1,2), of sp bv d, case_names hit failed built])
  case (hit e b'')
  then show ?thesis using build_hit_versions(1) [OF hit(1) assms(3)] by simp
next
  case (failed b'' d'' e)
  then show ?thesis using assms(3) by simp
next
  case (built b'' d'' c' n)
  have c: "bd_cache b' = c'" using assms(3) built(2,3) by auto
  obtain e where e: "cache_get c' k = Some e" using assms(5) by (auto simp: recent_cached c)
  from built(7) [OF assms(4) e] e show ?thesis by (simp add: version_of_def c)
qed

lemma build_is_cached:
  assumes "builder_ok b" "unat (bd_tick b) < 2 ^ 64 - 2" "build bv sp b d = Some (b', d', Ok tag)"
  shows "is_hit sp b'"
proof (cases rule: build_cases [OF assms(1,2), of sp bv d, case_names hit failed built])
  case (hit e b'')
  then show ?thesis using assms(3) build_hit_versions(1) [OF hit(1) assms(3)] by (simp add: is_hit_version)
next
  case (failed b'' d'' e)
  then show ?thesis using assms(3) by simp
next
  case (built b'' d'' c' n)
  then show ?thesis using assms(3) by (auto simp: is_hit_def)
qed

lemma build_front:
  assumes "builder_ok b" "unat (bd_tick b) < 2 ^ 64 - 2" "build bv sp b d = Some (b', d', Ok tag)"
    "recent b = ks @ rest" "bs_image sp \<notin> set ks" "length ks < nat (bd_max b)"
  shows "\<exists>rest'. recent b' = bs_image sp # ks @ rest'"
proof -
  have "recent b' = take (nat (bd_max b)) (touch (bs_image sp) (recent b))"
  proof (cases rule: build_cases [OF assms(1,2), of sp bv d, case_names hit failed built])
    case (hit e b'')
    have "recent b'' = touch (bs_image sp) (recent b)" "builder_ok b''"
      using build_hit_ok [OF assms(1,2) hit(2,5)] by simp_all
    moreover have "bd_max b'' = bd_max b" by (simp add: hit(5))
    moreover note recent_length [OF calculation(2)]
    ultimately show ?thesis using hit(4) assms(3) by simp
  next
    case (failed b'' d'' e)
    then show ?thesis using assms(3) by simp
  next
    case (built b'' d'' c' n)
    then show ?thesis using assms(3) by simp
  qed
  also have "touch (bs_image sp) (recent b) = bs_image sp # ks @ removeAll (bs_image sp) rest"
    using assms(4,5) by (simp add: touch_def)
  also have "take (nat (bd_max b)) \<dots> = bs_image sp # ks @ take (nat (bd_max b) - Suc (length ks)) (removeAll (bs_image sp) rest)"
    using assms(6) by (cases "nat (bd_max b)") auto
  finally show ?thesis by blast
qed

text \<open>Services whose images fit the cache are all cached once they are built, each at its version.\<close>

lemma build_services_cached:
  assumes "build_services bv spec pid p svcs images b d = Some (b', d', Ok images')" "builder_ok b"
    "unat (bd_tick b) + length svcs < 2 ^ 64 - 1"
    "\<And>svc d0 d1 sp. svc \<in> set svcs \<Longrightarrow> spec d0 pid svc (commit_for p svc) = (d1, Some sp) \<Longrightarrow>
       bs_image sp = img svc \<and> bs_version sp = ver svc"
    "distinct (map img svcs)" "recent b = ks @ rest" "set ks \<inter> img ` set svcs = {}"
    "length ks + length svcs \<le> nat (bd_max b)"
  shows "builder_ok b' \<and> (\<forall>svc \<in> set svcs. version_of b' (img svc) = Some (ver svc)) \<and>
    (\<forall>k \<in> set ks. version_of b' k = version_of b k)"
  using assms
proof (induction svcs arbitrary: images b d ks rest)
  case (Cons svc svcs)
  obtain d1 sp b1 d2 tag where sp: "spec d pid svc (commit_for p svc) = (d1, Some sp)"
    and bd: "build bv sp b d1 = Some (b1, d2, Ok tag)"
    and more: "build_services bv spec pid p svcs (images(svc_name svc \<mapsto> tag)) b1 d2 = Some (b', d', Ok images')"
    using Cons.prems(1) by (auto split: option.splits prod.splits sum.splits simp del: fun_upd_apply)
  have small: "unat (bd_tick b) < 2 ^ 64 - 2" using Cons.prems(3) by simp
  have named: "bs_image sp = img svc" "bs_version sp = ver svc" using Cons.prems(4) [OF _ sp] by simp_all
  have ok: "builder_ok b1" "bd_tick b1 = bd_tick b + 1" "bd_max b1 = bd_max b"
    using build_sound [OF Cons.prems(2) small, of bv sp d1] bd by auto
  have tick: "unat (bd_tick b1) + length svcs < 2 ^ 64 - 1"
    using small Cons.prems(3) by (simp add: ok(2) unat_word_ariths)
  obtain rest' where front: "recent b1 = (img svc # ks) @ rest'"
    using build_front [OF Cons.prems(2) small bd Cons.prems(6)] Cons.prems(7,8) named by auto
  have "is_hit sp b1" using build_is_cached [OF Cons.prems(2) small bd] .
  then have here: "version_of b1 (img svc) = Some (ver svc)" by (simp add: is_hit_version named)
  have old: "version_of b1 k = version_of b k" if "k \<in> set ks" for k
    using build_others [OF Cons.prems(2) small bd, of k] that front named Cons.prems(7) by auto
  have "builder_ok b' \<and> (\<forall>svc \<in> set svcs. version_of b' (img svc) = Some (ver svc)) \<and>
      (\<forall>k \<in> set (img svc # ks). version_of b' k = version_of b1 k)"
    using Cons.prems(4,5,7,8) ok by (intro Cons.IH [OF more ok(1) tick _ _ front]) auto
  then show ?case using here old by auto
qed simp

text \<open>And services that are all cached are answered without leaving the builder.\<close>

definition tags_ok :: "builder \<Rightarrow> bool" where
  "tags_ok b \<longleftrightarrow> (\<forall>k e. cache_get (bd_cache b) k = Some e \<longrightarrow> en_tag e = k @ '':'' @ short_version (en_version e))"

lemma builder_ok_tags: "builder_ok b \<Longrightarrow> tags_ok b"
  by (auto simp: builder_ok_def tags_ok_def cache_get_def dest: map_of_SomeD)

lemma build_warm:
  assumes "is_hit sp b" "tags_ok b"
  obtains b1 where "build bv sp b d = Some (b1, d, Ok (bs_image sp @ '':'' @ short_version (bs_version sp)))"
    "tags_ok b1"
proof -
  obtain e where e: "cache_get (bd_cache b) (bs_image sp) = Some e" "en_version e = bs_version sp"
    using assms(1) by (auto simp: is_hit_def split: option.splits)
  let ?b = "b\<lparr>bd_tick := bd_tick b + 1, bd_cache := cache_put (bs_image sp) (e\<lparr>en_used := bd_tick b + 1\<rparr>) (bd_cache b)\<rparr>"
  have "en_tag e = bs_image sp @ '':'' @ short_version (bs_version sp)" using assms(2) e by (auto simp: tags_ok_def)
  then have "build bv sp b d = Some (?b, d, Ok (bs_image sp @ '':'' @ short_version (bs_version sp)))"
    using e by (simp add: build_def Let_def)
  moreover have "tags_ok ?b" using assms(2) e by (auto simp: tags_ok_def cache_get_def cache_put_def update_conv')
  ultimately show thesis using that by blast
qed

lemma build_services_warm:
  assumes "\<And>svc. svc \<in> set svcs \<Longrightarrow> \<exists>sp. (\<forall>d. spec d pid svc (commit_for p svc) = (d, Some sp)) \<and> is_hit sp b
      \<and> bs_image sp = img svc \<and> bs_version sp = ver svc"
    and "tags_ok b" "distinct (map svc_name svcs)"
  shows "\<exists>b' images'. build_services bv spec pid p svcs images b d = Some (b', d, Ok images') \<and>
    (\<forall>svc \<in> set svcs. images' (svc_name svc) = Some (img svc @ '':'' @ short_version (ver svc))) \<and>
    (\<forall>n. n \<notin> svc_name ` set svcs \<longrightarrow> images' n = images n)"
  using assms
proof (induction svcs arbitrary: images b)
  case (Cons svc svcs)
  obtain sp where sp: "spec d pid svc (commit_for p svc) = (d, Some sp)" "is_hit sp b"
    "bs_image sp = img svc" "bs_version sp = ver svc" using Cons.prems(1) [of svc] by auto
  obtain b1 where bd: "build bv sp b d = Some (b1, d, Ok (img svc @ '':'' @ short_version (ver svc)))" and ok: "tags_ok b1"
    using build_warm [OF sp(2) Cons.prems(2)] sp(3,4) by metis
  have hits: "\<exists>sp. (\<forall>d. spec d pid s (commit_for p s) = (d, Some sp)) \<and> is_hit sp b1
      \<and> bs_image sp = img s \<and> bs_version sp = ver s" if "s \<in> set svcs" for s
    using Cons.prems(1) [of s] that build_hit_versions(1) [OF sp(2) bd] by (auto simp: is_hit_version)
  have dist: "distinct (map svc_name svcs)" "svc_name svc \<notin> svc_name ` set svcs" using Cons.prems(3) by simp_all
  obtain b' images' where more: "build_services bv spec pid p svcs
        (images(svc_name svc \<mapsto> img svc @ '':'' @ short_version (ver svc))) b1 d = Some (b', d, Ok images')"
      "\<forall>s \<in> set svcs. images' (svc_name s) = Some (img s @ '':'' @ short_version (ver s))"
      "\<forall>n. n \<notin> svc_name ` set svcs \<longrightarrow> images' n = (images(svc_name svc \<mapsto> img svc @ '':'' @ short_version (ver svc))) n"
    using Cons.IH [OF hits ok dist(1)] by blast
  have "build_services bv spec pid p (svc # svcs) images b d = Some (b', d, Ok images')"
    using more(1) by (simp add: sp(1) bd del: fun_upd_apply)
  then show ?case using more(2,3) dist(2) by auto
qed simp

text \<open>Together: whatever was built on a cache with room for it is afterwards built from the cache alone, by any
  specification that names the same images at the same versions without acting on the world.\<close>

lemma build_services_specs:
  "build_services bv spec pid p svcs images b d = Some (b', d', Ok images') \<Longrightarrow> svc \<in> set svcs \<Longrightarrow>
   \<exists>d0 d1 sp. spec d0 pid svc (commit_for p svc) = (d1, Some sp)"
proof (induction svcs arbitrary: images b d)
  case (Cons s svcs)
  then show ?case by (fastforce split: prod.splits option.splits sum.splits)
qed simp

lemma built_services_warm:
  assumes "build_services bv spec pid p svcs images b d = Some (b', d', Ok images')" "builder_ok b"
    "unat (bd_tick b) + length svcs < 2 ^ 64 - 1" "length svcs \<le> nat (bd_max b)"
    "distinct (map img svcs)" "distinct (map svc_name svcs)"
    and named: "\<And>svc d0 d1 sp. svc \<in> set svcs \<Longrightarrow> spec d0 pid svc (commit_for p svc) = (d1, Some sp) \<Longrightarrow>
       bs_image sp = img svc \<and> bs_version sp = ver svc"
    and pure: "\<And>svc. svc \<in> set svcs \<Longrightarrow> \<exists>sp. (\<forall>d. spec' d pid svc (commit_for q svc) = (d, Some sp))
      \<and> bs_image sp = img svc \<and> bs_version sp = ver svc"
  shows "\<exists>b'' images''. build_services bv spec' pid q svcs Map.empty b' world = Some (b'', world, Ok images'') \<and>
    (\<forall>svc \<in> set svcs. images'' (svc_name svc) = Some (img svc @ '':'' @ short_version (ver svc)))"
proof -
  have "length [] + length svcs \<le> nat (bd_max b)" using assms(4) by simp
  then have cached: "builder_ok b' \<and> (\<forall>svc \<in> set svcs. version_of b' (img svc) = Some (ver svc))"
    using build_services_cached [OF assms(1-3), of img ver "[]" "recent b"] named assms(5) by simp
  have "\<exists>sp. (\<forall>d. spec' d pid svc (commit_for q svc) = (d, Some sp)) \<and> is_hit sp b'
      \<and> bs_image sp = img svc \<and> bs_version sp = ver svc" if "svc \<in> set svcs" for svc
    using pure [OF that] that cached by (auto simp: is_hit_version)
  then obtain b'' images'' where
    "build_services bv spec' pid q svcs Map.empty b' world = Some (b'', world, Ok images'')"
    "\<forall>svc \<in> set svcs. images'' (svc_name svc) = Some (img svc @ '':'' @ short_version (ver svc))"
    using build_services_warm [where svcs = svcs and spec = spec' and pid = pid and p = q and b = b'
        and img = img and ver = ver and bv = bv and images = Map.empty and d = world]
      builder_ok_tags cached assms(6) by blast
  then show ?thesis by blast
qed

end
