(* ===== verification/Fixture.thy ===== *)
theory Fixture
  imports Builder
begin

text \<open>
  The build contexts of the demo, \<open>internal/fixture/fixture.go\<close>: the files of a service in the
  embedded tree, the content hash that stands in for a commit, and the extraction into a fresh
  directory. The embedded tree, SHA-256 and the operations on the file system are parameters.
\<close>

section \<open>The embedded tree\<close>

text \<open>\<open>fs.WalkDir\<close> with a callback that stops at the first error: the paths under a root with whether each is
  a directory, nothing when the walk failed.\<close>

record 'd embedded =
  em_walk :: "string \<Rightarrow> (string \<times> bool) list option"
  em_read :: "string \<Rightarrow> string option"
  em_sha256 :: "string \<Rightarrow> string"
  em_mkdir_temp :: "string \<Rightarrow> 'd \<Rightarrow> 'd \<times> string option"
  em_mkdir_all :: "string \<Rightarrow> 'd \<Rightarrow> 'd \<times> bool"
  em_write :: "string \<Rightarrow> string \<Rightarrow> 'd \<Rightarrow> 'd \<times> bool"
  em_remove_all :: "string \<Rightarrow> 'd \<Rightarrow> 'd"

datatype fixture_err =
    WalkFailed string
  | NoContext string
  | ReadFailed string
  | FixtureTempDir
  | FixtureMkdir
  | FixtureWrite string

definition context_files :: "'d embedded \<Rightarrow> string \<Rightarrow> (fixture_err, string list) result" where
  "context_files em service =
     (case em_walk em service of
        None \<Rightarrow> Err (WalkFailed service)
      | Some entries \<Rightarrow>
          (let names = map fst (filter (\<lambda>e. \<not> snd e) entries)
           in if names = [] then Err (NoContext service) else Ok (sort names)))"

section \<open>The version\<close>

text \<open>What is written to the hash, up to the first file that cannot be read.\<close>

fun hash_input :: "'d embedded \<Rightarrow> string list \<Rightarrow> (fixture_err, string) result" where
  "hash_input em [] = Ok ''''"
| "hash_input em (name # names) =
     (case em_read em name of
        None \<Rightarrow> Err (ReadFailed name)
      | Some contents \<Rightarrow>
          (case hash_input em names of
             Inl e \<Rightarrow> Err e
           | Inr rest \<Rightarrow> Ok (name @ [CHR 0x00] @ contents @ [CHR 0x00] @ rest)))"

definition fixture_version :: "'d embedded \<Rightarrow> string \<Rightarrow> (fixture_err, string) result" where
  "fixture_version em service =
     (case context_files em service of
        Inl e \<Rightarrow> Err e
      | Inr names \<Rightarrow>
          (case hash_input em names of
             Inl e \<Rightarrow> Err e
           | Inr bytes \<Rightarrow> Ok (hex_encode (em_sha256 em bytes))))"

section \<open>The extraction\<close>

text \<open>\<open>filepath.Dir\<close>, and \<open>filepath.Rel\<close> for a path under its
  base, the only one asked for.\<close>

definition path_dir :: "string \<Rightarrow> string" where
  "path_dir p = path_clean (rev (dropWhile (\<lambda>c. c \<noteq> CHR ''/'') (rev p)))"

definition path_rel :: "string \<Rightarrow> string \<Rightarrow> string" where
  "path_rel base target = (if target = base then ''.'' else trim_prefix target (base @ ''/''))"

fun extract_files :: "'d embedded \<Rightarrow> string \<Rightarrow> string \<Rightarrow> string list \<Rightarrow> 'd \<Rightarrow> 'd \<times> fixture_err option" where
  "extract_files em service dir [] d = (d, None)"
| "extract_files em service dir (name # names) d =
     (case em_read em name of
        None \<Rightarrow> (d, Some (ReadFailed name))
      | Some contents \<Rightarrow>
          (let rel = path_rel service name; dst = path_join dir rel
           in case em_mkdir_all em (path_dir dst) d of
                (d1, False) \<Rightarrow> (d1, Some FixtureMkdir)
              | (d1, True) \<Rightarrow>
                  (case em_write em dst contents d1 of
                     (d2, False) \<Rightarrow> (d2, Some (FixtureWrite rel))
                   | (d2, True) \<Rightarrow> extract_files em service dir names d2)))"

text \<open>The directory and the cleanup that removes it; a failure after the directory exists removes it at once.\<close>

definition fixture_extract :: "'d embedded \<Rightarrow> string \<Rightarrow> 'd \<Rightarrow> 'd \<times> (fixture_err, string \<times> ('d \<Rightarrow> 'd)) result" where
  "fixture_extract em service d =
     (case em_mkdir_temp em (''showcase-fixture-'' @ service @ ''-*'') d of
        (d1, None) \<Rightarrow> (d1, Err FixtureTempDir)
      | (d1, Some dir) \<Rightarrow>
          (case context_files em service of
             Inl e \<Rightarrow> (em_remove_all em dir d1, Err e)
           | Inr names \<Rightarrow>
               (case extract_files em service dir names d1 of
                  (d2, Some e) \<Rightarrow> (em_remove_all em dir d2, Err e)
                | (d2, None) \<Rightarrow> (d2, Ok (dir, em_remove_all em dir)))))"

section \<open>A version tells build contexts apart\<close>

text \<open>A context: its files with their contents, in the order of the paths.\<close>

definition context_of :: "'d embedded \<Rightarrow> string \<Rightarrow> (fixture_err, (string \<times> string option) list) result" where
  "context_of em service =
     (case context_files em service of Inl e \<Rightarrow> Err e | Inr names \<Rightarrow> Ok (map (\<lambda>n. (n, em_read em n)) names))"

definition no_nul :: "string \<Rightarrow> bool" where
  "no_nul s \<longleftrightarrow> CHR 0x00 \<notin> set s"

lemma nul_split: "no_nul a \<Longrightarrow> no_nul b \<Longrightarrow> a @ CHR 0x00 # x = b @ CHR 0x00 # y \<Longrightarrow> a = b \<and> x = y"
proof (induction a arbitrary: b)
  case Nil
  then show ?case by (cases b) (auto simp: no_nul_def)
next
  case (Cons c a)
  then show ?case by (cases b) (auto simp: no_nul_def)
qed

text \<open>No path and no content of a context holds a zero byte.\<close>

definition plain_context :: "(string \<times> string option) list \<Rightarrow> bool" where
  "plain_context cs \<longleftrightarrow> list_all (\<lambda>(n, c). no_nul n \<and> (case c of None \<Rightarrow> True | Some t \<Rightarrow> no_nul t)) cs"

lemma hash_input_faithful:
  assumes "hash_input em ns = Ok v" "hash_input em' ms = Ok v"
    "plain_context (map (\<lambda>n. (n, em_read em n)) ns)" "plain_context (map (\<lambda>n. (n, em_read em' n)) ms)"
  shows "map (\<lambda>n. (n, em_read em n)) ns = map (\<lambda>n. (n, em_read em' n)) ms"
  using assms
proof (induction ns arbitrary: ms v)
  case Nil
  then show ?case by (cases ms) (auto split: option.splits sum.splits)
next
  case (Cons n ns)
  obtain t r where n: "em_read em n = Some t" "hash_input em ns = Ok r" "v = n @ CHR 0x00 # t @ CHR 0x00 # r"
    using Cons.prems(1) by (auto split: option.splits sum.splits)
  then obtain m ms' where ms: "ms = m # ms'" using Cons.prems(2) by (cases ms) auto
  obtain t' r' where m: "em_read em' m = Some t'" "hash_input em' ms' = Ok r'" "v = m @ CHR 0x00 # t' @ CHR 0x00 # r'"
    using Cons.prems(2) by (auto simp: ms split: option.splits sum.splits)
  have plain: "no_nul n" "no_nul t" "no_nul m" "no_nul t'"
    "plain_context (map (\<lambda>n. (n, em_read em n)) ns)" "plain_context (map (\<lambda>n. (n, em_read em' n)) ms')"
    using Cons.prems(3,4) n(1) m(1) by (simp_all add: plain_context_def ms)
  have "n = m \<and> t @ CHR 0x00 # r = t' @ CHR 0x00 # r'"
    using n(3) m(3) plain(1,3) by (intro nul_split) simp_all
  moreover from this have "t = t' \<and> r = r'" using plain(2,4) by (intro nul_split) simp_all
  ultimately show ?case using Cons.IH [OF n(2) _ plain(5,6)] m(1,2) n(1) by (simp add: ms)
qed

lemma hex_digit_inj: "m < 16 \<Longrightarrow> n < 16 \<Longrightarrow> hex_digit m = hex_digit n \<Longrightarrow> m = n"
proof -
  have "distinct ''0123456789abcdef''" by simp
  then show "m < 16 \<Longrightarrow> n < 16 \<Longrightarrow> hex_digit m = hex_digit n \<Longrightarrow> m = n"
    unfolding hex_digit_def by (subst (asm) nth_eq_iff_index_eq) simp_all
qed

lemma byte_inj: "byte c = byte d \<Longrightarrow> c = d"
  by (simp add: byte_def)

lemma hex_encode_inj: "hex_encode s = hex_encode t \<Longrightarrow> s = t"
proof (induction s arbitrary: t)
  case Nil
  then show ?case by (cases t) (simp_all add: hex_encode_def)
next
  case (Cons c s)
  then obtain d t' where t: "t = d # t'" by (cases t) (simp_all add: hex_encode_def)
  have "byte x div 16 < 16" for x using byte_less_256 [of x] by (simp add: div_less_iff_less_mult)
  with Cons.prems have "byte c div 16 = byte d div 16" "byte c mod 16 = byte d mod 16"
    by (auto simp: t hex_encode_def intro: hex_digit_inj)
  then have "byte c = byte d" by (metis div_mult_mod_eq)
  with Cons show ?case by (simp add: t hex_encode_def byte_inj)
qed

text \<open>The version of a build context is its content. With a hash that does not collide, two embedded trees
  give a service the same version only when the service has the same files with the same contents in
  both, for files without zero bytes: a cached image is never one of other sources.\<close>

theorem fixture_version_faithful:
  assumes "fixture_version em service = Ok v" "fixture_version em' service = Ok v"
    "em_sha256 em' = em_sha256 em" "inj (em_sha256 em)"
    "context_of em service = Ok cs" "context_of em' service = Ok cs'" "plain_context cs" "plain_context cs'"
  shows "cs = cs'"
proof -
  obtain ns ms where files: "context_files em service = Ok ns" "context_files em' service = Ok ms"
    and cs: "cs = map (\<lambda>n. (n, em_read em n)) ns" "cs' = map (\<lambda>n. (n, em_read em' n)) ms"
    using assms(5,6) by (auto simp: context_of_def split: sum.splits)
  obtain b b' where h: "hash_input em ns = Ok b" "hash_input em' ms = Ok b'"
    "hex_encode (em_sha256 em b) = v" "hex_encode (em_sha256 em' b') = v"
    using assms(1,2) files by (auto simp: fixture_version_def split: sum.splits)
  then have "b = b'" using assms(3,4) hex_encode_inj by (metis injD)
  then show ?thesis using hash_input_faithful [OF h(1)] h(2) assms(7,8) cs by simp
qed

definition sample_tree :: "unit embedded" where
  "sample_tree =
     \<lparr>em_walk = (\<lambda>s. Some [(s, True), (s @ ''/index.html'', False), (s @ ''/Dockerfile'', False)]),
      em_read = (\<lambda>p. Some p), em_sha256 = (\<lambda>s. s), em_mkdir_temp = (\<lambda>p d. (d, None)),
      em_mkdir_all = (\<lambda>p d. (d, False)), em_write = (\<lambda>p c d. (d, False)), em_remove_all = (\<lambda>p d. d)\<rparr>"

lemma fixture_version_faithful_witness:
  "\<exists>v. fixture_version sample_tree ''web'' = Ok v
     \<and> context_of sample_tree ''web'' = Ok [(''web/Dockerfile'', Some ''web/Dockerfile''), (''web/index.html'', Some ''web/index.html'')]
     \<and> fixture_version (sample_tree\<lparr>em_read := (\<lambda>p. Some '''')\<rparr>) ''web'' \<noteq> Ok v"
proof -
  have files: "context_files sample_tree ''web'' = Ok [''web/Dockerfile'', ''web/index.html'']"
    "context_files (sample_tree\<lparr>em_read := (\<lambda>p. Some '''')\<rparr>) ''web'' = Ok [''web/Dockerfile'', ''web/index.html'']"
    by (simp_all add: context_files_def sample_tree_def insort_key_def less_eq_list_code less_list_code)
  have "\<exists>v. fixture_version sample_tree ''web'' = Ok v"
    unfolding fixture_version_def files(1) by (simp add: sample_tree_def)
  then obtain v where v: "fixture_version sample_tree ''web'' = Ok v" ..
  let ?e = "sample_tree\<lparr>em_read := (\<lambda>p. Some '''')\<rparr>"
  have cs: "context_of sample_tree ''web'' = Ok [(''web/Dockerfile'', Some ''web/Dockerfile''), (''web/index.html'', Some ''web/index.html'')]"
    "context_of ?e ''web'' = Ok [(''web/Dockerfile'', Some ''''), (''web/index.html'', Some '''')]"
    by (simp_all add: context_of_def files) (simp_all add: sample_tree_def)
  have "fixture_version ?e ''web'' \<noteq> Ok v"
  proof
    assume "fixture_version ?e ''web'' = Ok v"
    from fixture_version_faithful [OF v this _ _ cs] show False
      by (simp add: sample_tree_def plain_context_def no_nul_def inj_def)
  qed
  with v cs show ?thesis by blast
qed

end
