(* ===== verification/ProjectForm.thy ===== *)
theory ProjectForm
  imports Manifest
begin

text \<open>
  Names and forms: \<open>CanonicalSlug\<close> (\<open>internal/project/slug.go\<close>), \<open>CanonicalUsername\<close>
  (\<open>internal/auth/username.go\<close>) and the mapping between the public form and the run contract
  (\<open>internal/project/form.go\<close>).
\<close>

section \<open>Canonical names\<close>

datatype name_err = BadNameFormat | ReservedName string

definition slug_re :: rx where
  "slug_re = hyphen_rx lower_alnum 1 38"

definition reserved_slugs :: "string set" where
  "reserved_slugs = {''edit'', ''new'', ''settings'', ''delete'', ''admin''}"

definition canonical_slug :: "unicode \<Rightarrow> string \<Rightarrow> (name_err, string) result" where
  "canonical_slug u raw =
     (let s = to_lower u (trim_space raw)
      in if \<not> match_string slug_re s then Err BadNameFormat
         else if s \<in> reserved_slugs then Err (ReservedName s)
         else Ok s)"

definition username_re :: rx where
  "username_re = hyphen_rx lower_alnum 1 38"

definition reserved_usernames :: "string set" where
  "reserved_usernames =
     {''about'', ''admin'', ''api'', ''assets'', ''auth'',
      ''blog'', ''contact'', ''dashboard'', ''demo'', ''docs'',
      ''explore'', ''healthz'', ''help'',
      ''login'', ''logout'', ''me'', ''new'', ''owner'',
      ''pricing'', ''privacy'', ''readyz'',
      ''run'', ''search'', ''settings'', ''signin'', ''signup'',
      ''static'', ''status'', ''support'', ''terms'', ''www''}"

definition canonical_username :: "unicode \<Rightarrow> string \<Rightarrow> (name_err, string) result" where
  "canonical_username u raw =
     (let s = to_lower u (trim_space raw)
      in if \<not> match_string username_re s then Err BadNameFormat
         else if s \<in> reserved_usernames then Err (ReservedName s)
         else Ok s)"

text \<open>Both are the same function over a set of reserved names.\<close>

definition canonical_name :: "string set \<Rightarrow> unicode \<Rightarrow> string \<Rightarrow> (name_err, string) result" where
  "canonical_name reserved u raw =
     (let s = to_lower u (trim_space raw)
      in if \<not> match_string (hyphen_rx lower_alnum 1 38) s then Err BadNameFormat
         else if s \<in> reserved then Err (ReservedName s)
         else Ok s)"

lemma canonical_slug_name: "canonical_slug = canonical_name reserved_slugs"
  by (auto simp: fun_eq_iff canonical_slug_def canonical_name_def slug_re_def)

lemma canonical_username_name: "canonical_username = canonical_name reserved_usernames"
  by (auto simp: fun_eq_iff canonical_username_def canonical_name_def username_re_def)

lemma lower_alnum_ascii:
  assumes "lower_alnum c \<or> c = CHR ''-''"
  shows "is_ascii c" "\<not> is_upper c" "solid c"
  using assms by (auto simp: lower_alnum_def char_class_defs solid_def)

lemma canonical_name_fixed:
  assumes "in_rx (hyphen_rx lower_alnum 1 38) s"
  shows "to_lower u (trim_space s) = s"
proof -
  note s = in_hyphen_rx_imp [OF assms]
  then have c: "lower_alnum c \<or> c = CHR ''-''" if "c \<in> set s" for c using that by auto
  have "solid (hd s)" "solid (last s)"
    using s(1,2) lower_alnum_ascii(3) by simp_all
  then have "trim_space s = s" by (simp add: trim_space_id)
  moreover have "to_lower u s = s"
    using lower_alnum_ascii(1,2) [OF c] by (intro to_lower_id) (simp add: list_all_iff)
  ultimately show ?thesis by simp
qed

lemma canonical_name_Ok:
  "canonical_name reserved u raw = Ok s \<longleftrightarrow>
     s = to_lower u (trim_space raw) \<and> in_rx (hyphen_rx lower_alnum 1 38) s \<and> s \<notin> reserved"
  by (auto simp: canonical_name_def Let_def match_string_iff)

lemma canonical_name_again:
  assumes "canonical_name reserved u raw = Ok s"
  shows "canonical_name reserved v s = Ok s"
  using assms canonical_name_fixed [of s v] unfolding canonical_name_Ok by metis

text \<open>The lengths the expression admits: hyphens do not count against the repetition.\<close>

definition padded_name :: "nat \<Rightarrow> nat \<Rightarrow> string" where
  "padded_name a b = CHR ''0'' # concat (replicate a [CHR ''-'', CHR ''0''] @ replicate b [CHR ''0''])"

lemma padded_name_in:
  assumes "1 \<le> a + b" "a + b \<le> 38"
  shows "in_rx (hyphen_rx lower_alnum 1 38) (padded_name a b)"
proof -
  have "lower_alnum (CHR ''0'')" by (simp add: lower_alnum_def is_digit_def byte_def)
  moreover have "list_all (in_rx (RSeq (ROpt (RChr (CHR ''-''))) (RCls lower_alnum)))
      (replicate a [CHR ''-'', CHR ''0''] @ replicate b [CHR ''0''])"
    using calculation by (auto simp: list_all_iff in_hyphen_item)
  ultimately show ?thesis
    using assms by (auto simp: hyphen_rx_def padded_name_def in_RRep
        intro!: exI [of _ "replicate a [CHR ''-'', CHR ''0''] @ replicate b [CHR ''0'']"])
qed

lemma length_padded_name: "length (padded_name a b) = Suc (2 * a + b)"
  by (simp add: padded_name_def length_concat sum_list_replicate)

lemma hd_padded_name: "hd (padded_name a b) = CHR ''0''"
  by (simp add: padded_name_def)

lemma canonical_name_lengths:
  assumes "\<And>s. s \<in> reserved \<Longrightarrow> hd s \<noteq> CHR ''0''"
  shows "(\<exists>raw s. canonical_name reserved u raw = Ok s \<and> length s = n) \<longleftrightarrow> 2 \<le> n \<and> n \<le> 77"
proof
  assume "\<exists>raw s. canonical_name reserved u raw = Ok s \<and> length s = n"
  then show "2 \<le> n \<and> n \<le> 77"
    using in_hyphen_rx_imp(5,6) [of lower_alnum 1 38] by (fastforce simp: canonical_name_Ok)
next
  assume n: "2 \<le> n \<and> n \<le> 77"
  obtain a b where ab: "1 \<le> a + b" "a + b \<le> 38" "n = Suc (2 * a + b)"
  proof (cases "n \<le> 39")
    case True
    with n that [of 0 "n - 1"] show ?thesis by simp
  next
    case False
    with n that [of "n - 39" "77 - n"] show ?thesis by simp
  qed
  let ?s = "padded_name a b"
  have "?s \<notin> reserved" using assms hd_padded_name by blast
  then have "canonical_name reserved u ?s = Ok ?s"
    using padded_name_in [OF ab(1,2)] canonical_name_fixed [of ?s u] by (simp add: canonical_name_Ok)
  with ab(3) show "\<exists>raw s. canonical_name reserved u raw = Ok s \<and> length s = n"
    using length_padded_name by blast
qed

section \<open>Forms\<close>

record form_service =
  fs_name :: string
  fs_repo :: string
  fs_dockerfile :: string
  fs_port :: int
  fs_role :: string
  fs_prefix :: string
  fs_healthcheck :: "string list"

record form_db =
  fd_engine :: string
  fd_version :: string

record form_env =
  fe_name :: string
  fe_source :: string
  fe_value :: string
  fe_secret :: bool

record form_seed =
  fse_service :: string
  fse_command :: "string list"

record form_egress =
  fg_host :: string
  fg_port :: int

record form =
  fm_name :: string
  fm_services :: "form_service list"
  fm_db :: "form_db option"
  fm_env :: "form_env list"
  fm_seed :: "form_seed option"
  fm_egress :: "form_egress list"

text \<open>The only error of the mapping names the variable whose source is not supported.\<close>

datatype form_err = EnvSourceUnsupported string

definition service_of :: "form_service \<Rightarrow> service" where
  "service_of s =
     \<lparr>svc_name = fs_name s, svc_repo = fs_repo s, svc_dockerfile = fs_dockerfile s, svc_port = fs_port s,
      svc_role = fs_role s, svc_prefix = fs_prefix s, svc_healthcheck = fs_healthcheck s\<rparr>"

definition env_of :: "form_env \<Rightarrow> (form_err, env_var) result" where
  "env_of e =
     (if fe_source e = env_platform \<or> fe_source e = env_static
      then Ok \<lparr>ev_name = fe_name e, ev_source = fe_source e, ev_value = fe_value e, ev_secret = fe_secret e\<rparr>
      else Err (EnvSourceUnsupported (fe_name e)))"

definition to_manifest :: "form \<Rightarrow> (form_err, manifest) result" where
  "to_manifest f =
     bind_res (traverse env_of (fm_env f)) (\<lambda>env.
       Ok \<lparr>m_services = map service_of (fm_services f),
           m_db = map_option (\<lambda>d. \<lparr>db_engine = fd_engine d, db_version = fd_version d\<rparr>) (fm_db f),
           m_env = env,
           m_seed = map_option (\<lambda>s. \<lparr>seed_service = fse_service s, seed_command = fse_command s\<rparr>) (fm_seed f),
           m_egress = map (\<lambda>g. \<lparr>eg_host = fg_host g, eg_port = fg_port g\<rparr>) (fm_egress f)\<rparr>)"

definition form_service_of :: "service \<Rightarrow> form_service" where
  "form_service_of s =
     \<lparr>fs_name = svc_name s, fs_repo = svc_repo s, fs_dockerfile = svc_dockerfile s, fs_port = svc_port s,
      fs_role = svc_role s, fs_prefix = svc_prefix s, fs_healthcheck = svc_healthcheck s\<rparr>"

definition form_env_of :: "env_var \<Rightarrow> form_env" where
  "form_env_of e =
     \<lparr>fe_name = ev_name e, fe_source = ev_source e, fe_value = ev_value e, fe_secret = ev_secret e\<rparr>"

text \<open>The name of the result is empty: the caller sets it.\<close>

definition form_from_manifest :: "manifest \<Rightarrow> form" where
  "form_from_manifest m =
     \<lparr>fm_name = '''',
      fm_services = map form_service_of (m_services m),
      fm_db = map_option (\<lambda>d. \<lparr>fd_engine = db_engine d, fd_version = db_version d\<rparr>) (m_db m),
      fm_env = map form_env_of (m_env m),
      fm_seed = map_option (\<lambda>s. \<lparr>fse_service = seed_service s, fse_command = seed_command s\<rparr>) (m_seed m),
      fm_egress = map (\<lambda>g. \<lparr>fg_host = eg_host g, fg_port = eg_port g\<rparr>) (m_egress m)\<rparr>"

definition env_source_ok :: "env_var \<Rightarrow> bool" where
  "env_source_ok e \<longleftrightarrow> ev_source e = env_platform \<or> ev_source e = env_static"

lemma env_of_Ok: "env_of e = Ok v \<longleftrightarrow> env_source_ok v \<and> e = form_env_of v"
  by (auto simp: env_of_def env_source_ok_def form_env_of_def)

lemma env_of_form: "env_source_ok v \<Longrightarrow> env_of (form_env_of v) = Ok v"
  by (simp add: env_of_Ok)

lemma service_of_form [simp]: "service_of (form_service_of s) = s"
  by (simp add: service_of_def form_service_of_def)

lemma form_of_service [simp]: "form_service_of (service_of s) = s"
  by (simp add: service_of_def form_service_of_def)

lemma envs_of_Ok: "traverse env_of es = Ok vs \<longleftrightarrow> list_all env_source_ok vs \<and> es = map form_env_of vs"
proof -
  have "traverse env_of es = Ok vs \<longleftrightarrow> list_all2 (\<lambda>e v. env_of e = Ok v) es vs"
    by (rule traverse_Ok_iff)
  also have "\<dots> \<longleftrightarrow> list_all2 (\<lambda>e v. env_source_ok v \<and> e = form_env_of v) es vs"
    by (simp only: env_of_Ok)
  also have "\<dots> \<longleftrightarrow> list_all env_source_ok vs \<and> es = map form_env_of vs"
    by (induction vs arbitrary: es) (auto simp: list_all2_Cons2)
  finally show ?thesis .
qed

lemma record_etas [simp]:
  "\<lparr>fd_engine = fd_engine a, fd_version = fd_version a\<rparr> = a"
  "\<lparr>fse_service = fse_service b, fse_command = fse_command b\<rparr> = b"
  "\<lparr>fg_host = fg_host c, fg_port = fg_port c\<rparr> = c"
  "\<lparr>db_engine = db_engine d, db_version = db_version d\<rparr> = d"
  "\<lparr>seed_service = seed_service e, seed_command = seed_command e\<rparr> = e"
  "\<lparr>eg_host = eg_host g, eg_port = eg_port g\<rparr> = g"
  by (simp_all add: form_db.equality form_seed.equality form_egress.equality db_decl.equality
      seed.equality egress_rule.equality)

lemma to_manifest_iff:
  "to_manifest f = Ok m \<longleftrightarrow>
     list_all env_source_ok (m_env m) \<and> f = (form_from_manifest m)\<lparr>fm_name := fm_name f\<rparr>"
proof
  assume "to_manifest f = Ok m"
  then show "list_all env_source_ok (m_env m) \<and> f = (form_from_manifest m)\<lparr>fm_name := fm_name f\<rparr>"
    by (cases f)
      (auto simp: to_manifest_def bind_res_Ok_iff envs_of_Ok form_from_manifest_def option.map_comp o_def
        option.map_ident)
next
  assume *: "list_all env_source_ok (m_env m) \<and> f = (form_from_manifest m)\<lparr>fm_name := fm_name f\<rparr>"
  then obtain name where f: "f = (form_from_manifest m)\<lparr>fm_name := name\<rparr>" by blast
  have "traverse env_of (map form_env_of (m_env m)) = Ok (m_env m)"
    using * by (simp add: envs_of_Ok)
  with f show "to_manifest f = Ok m"
    by (cases m) (auto simp: to_manifest_def form_from_manifest_def option.map_comp o_def option.map_ident)
qed

section \<open>Properties\<close>

text \<open>C32: the form and the run contract are two spellings of one thing. A form maps to a manifest exactly
  when every environment source of the manifest is one the platform supports and the form is the
  manifest's own form under the form's name, so that what the API echoes can be edited and sent
  back without a change.\<close>

theorem form_roundtrip:
  "to_manifest f = Ok m \<longleftrightarrow>
     list_all env_source_ok (m_env m) \<and> f = (form_from_manifest m)\<lparr>fm_name := fm_name f\<rparr>"
  by (rule to_manifest_iff)

text \<open>Canonical names are URL segments: a name that \<open>CanonicalSlug\<close> or
  \<open>CanonicalUsername\<close> accepts starts and ends with a lower-case letter or a digit, holds only these and
  hyphens, is not reserved, and is a fixed point of the function, whatever the letter case and white
  space of the request.\<close>

theorem canonical_names_fixed:
  assumes "canonical_slug u raw = Ok s" "canonical_username u raw' = Ok t"
  shows "canonical_slug v s = Ok s \<and> s \<notin> reserved_slugs \<and> lower_alnum (hd s) \<and> lower_alnum (last s)
      \<and> set s \<subseteq> {c. lower_alnum c} \<union> {CHR ''-''}
    \<and> canonical_username v t = Ok t \<and> t \<notin> reserved_usernames \<and> lower_alnum (hd t) \<and> lower_alnum (last t)
      \<and> set t \<subseteq> {c. lower_alnum c} \<union> {CHR ''-''}"
proof -
  have *: "canonical_name r v x = Ok x \<and> x \<notin> r \<and> lower_alnum (hd x) \<and> lower_alnum (last x)
      \<and> set x \<subseteq> {c. lower_alnum c} \<union> {CHR ''-''}" if "canonical_name r u y = Ok x" for r x y
    using canonical_name_again [OF that, of v] that in_hyphen_rx_imp(1-3) [of lower_alnum 1 38 x]
    by (simp add: canonical_name_Ok)
  from * [of reserved_slugs raw s] * [of reserved_usernames raw' t] assms show ?thesis
    unfolding canonical_slug_name canonical_username_name by blast
qed

text \<open>C33: the lengths of accepted slugs and usernames are exactly 2 to 77 bytes: the repetition of
  the expression counts letters and digits, not the hyphens before them, so the documented bound of 39 is
  not the one the code enforces.\<close>

theorem canonical_name_bounds:
  "((\<exists>raw s. canonical_slug u raw = Ok s \<and> length s = n) \<longleftrightarrow> 2 \<le> n \<and> n \<le> 77)
   \<and> ((\<exists>raw s. canonical_username u raw = Ok s \<and> length s = n) \<longleftrightarrow> 2 \<le> n \<and> n \<le> 77)"
proof
  have "hd s \<noteq> CHR ''0''" if "s \<in> reserved_slugs" for s
    using that by (auto simp: reserved_slugs_def)
  then show "(\<exists>raw s. canonical_slug u raw = Ok s \<and> length s = n) \<longleftrightarrow> 2 \<le> n \<and> n \<le> 77"
    unfolding canonical_slug_name by (rule canonical_name_lengths)
  have "hd s \<noteq> CHR ''0''" if "s \<in> reserved_usernames" for s
    using that by (auto simp: reserved_usernames_def)
  then show "(\<exists>raw s. canonical_username u raw = Ok s \<and> length s = n) \<longleftrightarrow> 2 \<le> n \<and> n \<le> 77"
    unfolding canonical_username_name by (rule canonical_name_lengths)
qed

lemma sample_names:
  "canonical_slug sample_unicode (padded_name 1 1) = Ok (padded_name 1 1)"
  "canonical_username sample_unicode (padded_name 1 1) = Ok (padded_name 1 1)"
proof -
  have in_rx: "in_rx (hyphen_rx lower_alnum 1 38) (padded_name 1 1)" by (rule padded_name_in) simp_all
  have name: "padded_name 1 1 = ''0-00''" by (simp add: padded_name_def)
  have "''0-00'' \<notin> reserved_slugs" "''0-00'' \<notin> reserved_usernames"
    by (simp_all add: reserved_slugs_def reserved_usernames_def)
  then show "canonical_slug sample_unicode (padded_name 1 1) = Ok (padded_name 1 1)"
    "canonical_username sample_unicode (padded_name 1 1) = Ok (padded_name 1 1)"
    using in_rx canonical_name_fixed [OF in_rx]
    unfolding canonical_slug_name canonical_username_name canonical_name_Ok name by simp_all
qed

lemma canonical_names_fixed_witness:
  "canonical_slug sample_unicode (padded_name 1 1) = Ok (padded_name 1 1)
   \<and> padded_name 1 1 = ''0-00'' \<and> lower_alnum (hd (padded_name 1 1))"
  using canonical_names_fixed [OF sample_names] by (simp add: padded_name_def)

end
