(* ===== verification/GitHubRepo.thy ===== *)
theory GitHubRepo
  imports Manifest
begin

text \<open>
  Repository references and host-side git: \<open>internal/githubapp/repo.go\<close> and
  \<open>internal/githubapp/git.go\<close>. The git executable, the temporary directory and the removal of a
  tree are parameters that act on a world of any type.
\<close>

section \<open>Repository references\<close>

definition owner_re :: rx where
  "owner_re = hyphen_rx alnum 0 38"

definition repo_head :: "char \<Rightarrow> bool" where
  "repo_head c \<longleftrightarrow> alnum c \<or> c = CHR ''_'' \<or> c = CHR ''.''"

definition repo_char :: "char \<Rightarrow> bool" where
  "repo_char c \<longleftrightarrow> alnum c \<or> c = CHR ''.'' \<or> c = CHR ''_'' \<or> c = CHR ''-''"

definition repo_re :: rx where
  "repo_re = RSeq (RCls repo_head) (RRep (RCls repo_char) 0 99)"

datatype repo_err =
    RepoWhitespace string
  | RepoNotGitHub string
  | RepoNotPair string
  | RepoBadOwner string
  | RepoBadName string

definition has_whitespace :: "string \<Rightarrow> bool" where
  "has_whitespace s \<longleftrightarrow> contains_any s [CHR '' '', CHR 0x09, CHR 0x0D, CHR 0x0A] \<or> CHR 0x00 \<in> set s"

text \<open>The switch on the lower-cased reference: the reference without its github.com prefix,
  nothing when it names another host.\<close>

definition strip_host :: "unicode \<Rightarrow> string \<Rightarrow> string option" where
  "strip_host u s =
     (let low = to_lower u s in
      if has_prefix low ''https://github.com/'' then Some (drop (length ''https://github.com/'') s)
      else if has_prefix low ''http://github.com/'' then Some (drop (length ''http://github.com/'') s)
      else if has_prefix low ''github.com/'' then Some (drop (length ''github.com/'') s)
      else if contains_str s ''://'' \<or> contains_any s ''@:'' then None
      else Some s)"

definition parse_repo :: "unicode \<Rightarrow> string \<Rightarrow> (repo_err, string \<times> string) result" where
  "parse_repo u raw =
     (let s = trim_space raw in
      if has_whitespace s then Err (RepoWhitespace raw)
      else case strip_host u s of
             None \<Rightarrow> Err (RepoNotGitHub raw)
           | Some path \<Rightarrow>
               (case cut (trim_suffix (trim_suffix path ''/'') ''.git'') CHR ''/'' of
                  None \<Rightarrow> Err (RepoNotPair raw)
                | Some (owner, repo) \<Rightarrow>
                    if CHR ''/'' \<in> set repo then Err (RepoNotPair raw)
                    else if \<not> match_string owner_re owner then Err (RepoBadOwner raw)
                    else if repo = ''.'' \<or> repo = ''..'' \<or> \<not> match_string repo_re repo
                      then Err (RepoBadName raw)
                    else Ok (owner, repo)))"

definition clone_url :: "string \<Rightarrow> string \<Rightarrow> string" where
  "clone_url owner repo = ''https://github.com/'' @ owner @ ''/'' @ repo @ ''.git''"

text \<open>What the two expressions say of an accepted pair.\<close>

definition valid_owner :: "string \<Rightarrow> bool" where
  "valid_owner s \<longleftrightarrow> match_string owner_re s"

definition valid_repo :: "string \<Rightarrow> bool" where
  "valid_repo s \<longleftrightarrow> match_string repo_re s \<and> s \<noteq> ''.'' \<and> s \<noteq> ''..''"

lemma valid_owner_chars:
  assumes "valid_owner s"
  shows "s \<noteq> []" "length s \<le> 77" "alnum (hd s)" "alnum (last s)"
    "set s \<subseteq> {c. alnum c} \<union> {CHR ''-''}"
  using in_hyphen_rx_imp [of alnum 0 38 s] assms
  by (simp_all add: valid_owner_def match_string_iff owner_re_def)

lemma in_RRep_cls_upto:
  "in_rx (RRep (RCls P) 0 n) s \<longleftrightarrow> length s \<le> n \<and> list_all P s"
proof
  assume "in_rx (RRep (RCls P) 0 n) s"
  then obtain ws where ws: "length ws \<le> n" "s = concat ws" "list_all (in_rx (RCls P)) ws"
    by (auto simp: in_RRep)
  from ws(3) have "length (concat ws) = length ws \<and> list_all P (concat ws)"
    by (induction ws) auto
  with ws show "length s \<le> n \<and> list_all P s" by auto
next
  assume *: "length s \<le> n \<and> list_all P s"
  have "s = concat (map (\<lambda>c. [c]) s)" by simp
  moreover from * have "list_all (in_rx (RCls P)) (map (\<lambda>c. [c]) s)" by (simp add: list_all_iff)
  ultimately show "in_rx (RRep (RCls P) 0 n) s"
    using * by (auto simp: in_RRep intro!: exI [of _ "map (\<lambda>c. [c]) s"])
qed

lemma valid_repo_chars:
  assumes "valid_repo s"
  shows "s \<noteq> []" "length s \<le> 100" "repo_head (hd s)" "set s \<subseteq> {c. repo_char c}"
    "s \<noteq> ''.''" "s \<noteq> ''..''"
proof -
  from assms obtain c t where s: "s = c # t" "repo_head c" "in_rx (RRep (RCls repo_char) 0 99) t"
    by (auto simp: valid_repo_def match_string_iff repo_re_def)
  then show "s \<noteq> []" "length s \<le> 100" "repo_head (hd s)" "set s \<subseteq> {c. repo_char c}"
    by (auto simp: in_RRep_cls_upto list_all_iff repo_head_def repo_char_def)
  show "s \<noteq> ''.''" "s \<noteq> ''..''" using assms by (simp_all add: valid_repo_def)
qed

lemma parse_repo_Ok:
  "parse_repo u raw = Ok (owner, repo) \<Longrightarrow> valid_owner owner \<and> valid_repo repo"
  by (auto simp: parse_repo_def Let_def valid_owner_def valid_repo_def
      split: if_splits option.splits)

lemma repo_char_facts:
  assumes "repo_char c"
  shows "solid c" "is_ascii c" "c \<notin> {CHR '' '', CHR 0x09, CHR 0x0D, CHR 0x0A, CHR 0x00, CHR ''/'', CHR ''@'', CHR '':''}"
  using assms
  by (auto simp: repo_char_def alnum_def char_class_defs solid_def)

lemma valid_owner_repo_char: "valid_owner s \<Longrightarrow> set s \<subseteq> {c. repo_char c}"
  using valid_owner_chars(5) [of s] by (auto simp: repo_char_def)

section \<open>Accepted references\<close>

text \<open>The shapes the comment on \<open>ParseRepo\<close> lists: an optional github.com prefix in any case, the
  pair, an optional \<open>.git\<close> and an optional final slash.\<close>

definition reference :: "string \<Rightarrow> string \<Rightarrow> string \<Rightarrow> string \<Rightarrow> string" where
  "reference pre owner repo ext = pre @ owner @ ''/'' @ repo @ ext"

definition github_prefix :: "string \<Rightarrow> bool" where
  "github_prefix pre \<longleftrightarrow>
     map lower_byte pre \<in> {'''', ''github.com/'', ''http://github.com/'', ''https://github.com/''}"

definition github_ext :: "string \<Rightarrow> string \<Rightarrow> bool" where
  "github_ext repo ext \<longleftrightarrow>
     ext \<in> {''.git'', ''.git/''} \<or> ext \<in> {'''', ''/''} \<and> \<not> has_suffix repo ''.git''"

lemma lower_byte_solid: "solid (lower_byte c) \<Longrightarrow> solid c \<and> is_ascii c"
  by (auto simp: solid_def lower_byte_def is_upper_def is_ascii_def byte_def split: if_splits)

lemma lower_byte_plain: "lower_byte c = d \<Longrightarrow> \<not> is_lower d \<Longrightarrow> c = d"
  by (cases "is_upper c") (auto simp: lower_byte_def is_upper_def is_lower_def byte_def)

lemma github_prefix_chars:
  assumes "github_prefix pre" "c \<in> set pre"
  shows "solid c" "is_ascii c"
proof -
  have "list_all solid (map lower_byte pre)"
    using assms(1) unfolding github_prefix_def
    by (elim insertE emptyE; simp only:) (simp_all add: solid_def byte_def)
  with assms(2) have "solid (lower_byte c)" by (simp add: list_all_iff)
  then show "solid c" "is_ascii c" using lower_byte_solid by blast+
qed

lemma first_slash_unique:
  assumes "has_prefix (a @ CHR ''/'' # x) (b @ CHR ''/'' # y)" "CHR ''/'' \<notin> set a" "CHR ''/'' \<notin> set b"
  shows "a = b"
proof -
  from assms(1) obtain z where z: "a @ CHR ''/'' # x = b @ CHR ''/'' # (y @ z)"
    by (auto simp: has_prefix_iff)
  have "cut (a @ CHR ''/'' # x) (CHR ''/'') = Some (a, x)" using assms(2) cut_Some by blast
  moreover have "cut (b @ CHR ''/'' # (y @ z)) (CHR ''/'') = Some (b, y @ z)"
    using assms(3) cut_Some by blast
  ultimately have "Some (a, x) = Some (b, y @ z)" using z by argo
  then show ?thesis by blast
qed

lemma pair_not_prefix:
  assumes "valid_owner owner" "set x \<subseteq> {c. repo_char c} \<union> {CHR ''/''}" "b \<noteq> []" "CHR ''/'' \<notin> set b"
    "CHR ''.'' \<in> set b \<or> CHR '':'' \<in> set b"
  shows "\<not> has_prefix (map lower_byte (owner @ ''/'' @ x)) (b @ CHR ''/'' # y)"
proof
  assume *: "has_prefix (map lower_byte (owner @ ''/'' @ x)) (b @ CHR ''/'' # y)"
  have o: "c \<in> set owner \<Longrightarrow> alnum c \<or> c = CHR ''-''" for c
    using valid_owner_chars(5) [OF assms(1)] by auto
  have low: "c \<in> set owner \<Longrightarrow> lower_byte c = d \<Longrightarrow> d \<in> {CHR ''/'', CHR ''.'', CHR '':''} \<Longrightarrow> False" for c d
    using o [of c] lower_byte_plain [of c d]
    by (auto simp: alnum_def is_lower_def is_upper_def is_digit_def byte_def)
  have "lower_byte (CHR ''/'') = CHR ''/''" by (simp add: lower_byte_def is_upper_def byte_def)
  with * have "has_prefix (map lower_byte owner @ CHR ''/'' # map lower_byte x) (b @ CHR ''/'' # y)"
    by simp
  from first_slash_unique [OF this] low assms(4) have "map lower_byte owner = b" by fastforce
  with assms(5) low show False by fastforce
qed

lemma repo_char_examples:
  "repo_char CHR ''.''" "repo_char CHR ''g''" "repo_char CHR ''i''" "repo_char CHR ''t''"
  "\<not> repo_char CHR ''@''" "\<not> repo_char CHR '':''"
  by (simp_all add: repo_char_def alnum_def char_class_defs)

lemma github_ext_chars: "github_ext repo ext \<Longrightarrow> set ext \<subseteq> {c. repo_char c} \<union> {CHR ''/''}"
  by (auto simp: github_ext_def repo_char_examples)

lemma tail_chars:
  assumes "valid_owner owner" "valid_repo repo" "github_ext repo ext"
  shows "set (owner @ ''/'' @ repo @ ext) \<subseteq> {c. repo_char c} \<union> {CHR ''/''}"
  using valid_owner_repo_char [OF assms(1)] valid_repo_chars(4) [OF assms(2)]
    github_ext_chars [OF assms(3)]
  by auto

lemma tail_plain:
  assumes "set t \<subseteq> {c. repo_char c} \<union> {CHR ''/''}"
  shows "\<not> contains_any t ''@:''" "\<not> contains_str t ''://''"
proof -
  have no: "CHR ''@'' \<notin> set t" "CHR '':'' \<notin> set t"
    using assms repo_char_examples(5,6) by (auto simp only: subset_iff Un_iff mem_Collect_eq char.inject singleton_iff)
  then have "\<not> (c = CHR ''@'' \<or> c = CHR '':'')" if "c \<in> set t" for c using that by metis
  then show "\<not> contains_any t ''@:''" unfolding contains_any_def list_ex_iff by force
  show "\<not> contains_str t ''://''"
  proof
    assume "contains_str t ''://''"
    then obtain a b where "t = a @ ''://'' @ b" unfolding contains_str_iff by blast
    then have "CHR '':'' \<in> set t" by (metis Un_iff list.set_intros(1) set_append append_Cons)
    with no(2) show False ..
  qed
qed

lemma strip_host_reference:
  assumes "valid_owner owner" "valid_repo repo" "github_ext repo ext" "github_prefix pre"
  shows "strip_host u (reference pre owner repo ext) = Some (owner @ ''/'' @ repo @ ext)"
proof -
  let ?t = "owner @ ''/'' @ repo @ ext"
  have chars: "set ?t \<subseteq> {c. repo_char c} \<union> {CHR ''/''}" by (rule tail_chars [OF assms(1-3)])
  then have "list_all is_ascii (pre @ ?t)"
    using github_prefix_chars(2) [OF assms(4)] repo_char_facts(2)
    by (auto simp: list_all_iff is_ascii_def byte_def)
  then have low: "to_lower u (pre @ ?t) = map lower_byte pre @ map lower_byte ?t"
    by (simp add: to_lower_ascii)
  have none: "\<not> has_prefix (map lower_byte ?t) (b @ CHR ''/'' # y)"
    if "b \<noteq> []" "CHR ''/'' \<notin> set b" "CHR ''.'' \<in> set b \<or> CHR '':'' \<in> set b" for b y
  proof -
    have "set (repo @ ext) \<subseteq> {c. repo_char c} \<union> {CHR ''/''}" using chars by simp
    from pair_not_prefix [OF assms(1) this that] show ?thesis .
  qed
  have n1: "\<not> has_prefix (map lower_byte ?t) ''https://github.com/''"
    using none [of "''https:''" "''/github.com/''"] by simp
  have n2: "\<not> has_prefix (map lower_byte ?t) ''http://github.com/''"
    using none [of "''http:''" "''/github.com/''"] by simp
  have n3: "\<not> has_prefix (map lower_byte ?t) ''github.com/''"
    using none [of "''github.com''" "''''"] by simp
  note plain = tail_plain [OF chars]
  have len: "length pre = length (map lower_byte pre)" by simp
  consider "map lower_byte pre = []" | "map lower_byte pre = ''github.com/''"
    | "map lower_byte pre = ''http://github.com/''" | "map lower_byte pre = ''https://github.com/''"
    using assms(4) by (auto simp: github_prefix_def)
  then show ?thesis
  proof cases
    case 1
    with n1 n2 n3 plain low show ?thesis
      by (simp add: strip_host_def reference_def Let_def)
  next
    case 2
    with len low show ?thesis by (simp add: strip_host_def reference_def Let_def has_prefix_def)
  next
    case 3
    with len low show ?thesis by (simp add: strip_host_def reference_def Let_def has_prefix_def)
  next
    case 4
    with len low show ?thesis by (simp add: strip_host_def reference_def Let_def has_prefix_def)
  qed
qed

lemma trim_suffix_append [simp]: "trim_suffix (r @ p) p = r"
  by (simp add: trim_suffix_def)

lemma trim_suffix_none: "\<not> has_suffix s p \<Longrightarrow> trim_suffix s p = s"
  using cut_suffix_Some [of s p] by (auto simp: trim_suffix_def has_suffix_iff split: option.splits)

lemma no_slash_suffix:
  assumes "s \<noteq> []" "last s \<noteq> CHR ''/''"
  shows "\<not> has_suffix s ''/''"
  using assms by (auto simp: has_suffix_iff)

lemma git_suffix_of_last_segment:
  assumes "has_suffix (a @ CHR ''/'' # repo) ''.git''"
  shows "has_suffix repo ''.git''"
proof -
  from assms(1) obtain r where r: "a @ CHR ''/'' # repo = r @ ''.git''"
    unfolding has_suffix_iff by blast
  then obtain us where "a @ us = r \<and> CHR ''/'' # repo = us @ ''.git'' \<or> a = r @ us \<and> us @ CHR ''/'' # repo = ''.git''"
    unfolding append_eq_append_conv2 by blast
  then consider "CHR ''/'' # repo = us @ ''.git''" | "us @ CHR ''/'' # repo = ''.git''"
    by blast
  then show ?thesis
  proof cases
    case 1
    then show ?thesis
    proof (cases us)
      case (Cons u us')
      with 1 have "repo = us' @ ''.git''" by simp
      then show ?thesis by (auto simp: has_suffix_iff)
    qed simp
  next
    case 2
    then have "CHR ''/'' \<in> set ''.git''" by (metis in_set_conv_decomp)
    then show ?thesis by simp
  qed
qed

lemma trim_ext_reference:
  assumes "valid_repo repo" "github_ext repo ext"
  shows "trim_suffix (trim_suffix (a @ ''/'' @ repo @ ext) ''/'') ''.git'' = a @ ''/'' @ repo"
proof -
  have slash: "CHR ''/'' \<notin> set repo" and "repo \<noteq> []"
    using valid_repo_chars(1,4) [OF assms(1)] repo_char_facts(3) [of "CHR ''/''"] by auto
  then have no: "\<not> has_suffix (a @ ''/'' @ repo) ''/''"
    by (intro no_slash_suffix) (auto dest!: last_in_set)
  have no': "\<not> has_suffix (a @ ''/'' @ repo @ ''.git'') ''/''"
    by (rule no_slash_suffix) simp_all
  have plain: "trim_suffix (a @ ''/'' @ repo) ''.git'' = a @ ''/'' @ repo"
    if "\<not> has_suffix repo ''.git''"
    using that git_suffix_of_last_segment [of a repo] by (auto intro: trim_suffix_none)
  consider "ext = ''''" "\<not> has_suffix repo ''.git''" | "ext = ''/''" "\<not> has_suffix repo ''.git''"
    | "ext = ''.git''" | "ext = ''.git/''"
    using assms(2) by (auto simp: github_ext_def)
  then show ?thesis
  proof cases
    case 1
    with no plain show ?thesis by (simp add: trim_suffix_none)
  next
    case 2
    with plain trim_suffix_append [of "a @ ''/'' @ repo" "''/''"] show ?thesis by simp
  next
    case 3
    with no' trim_suffix_append [of "a @ ''/'' @ repo" "''.git''"] show ?thesis
      by (simp add: trim_suffix_none)
  next
    case 4
    with trim_suffix_append [of "a @ ''/'' @ repo @ ''.git''" "''/''"]
      trim_suffix_append [of "a @ ''/'' @ repo" "''.git''"]
    show ?thesis by simp
  qed
qed

lemma reference_solid:
  assumes "valid_owner owner" "valid_repo repo" "github_ext repo ext" "github_prefix pre"
    "c \<in> set (reference pre owner repo ext)"
  shows "solid c"
proof -
  have "c \<in> set pre \<or> repo_char c \<or> c = CHR ''/''"
    using tail_chars [OF assms(1-3)] assms(5) unfolding reference_def by auto
  then show ?thesis
    using github_prefix_chars(1) [OF assms(4)] repo_char_facts(1)
    by (auto simp: solid_def byte_def)
qed

lemma parse_repo_reference:
  assumes "valid_owner owner" "valid_repo repo" "github_ext repo ext" "github_prefix pre"
  shows "parse_repo u (reference pre owner repo ext) = Ok (owner, repo)"
proof -
  let ?s = "reference pre owner repo ext"
  note solid = reference_solid [OF assms]
  have "?s \<noteq> []" by (simp add: reference_def)
  with solid have trim: "trim_space ?s = ?s" by (intro trim_space_id) simp
  have "\<not> has_whitespace ?s"
    using solid by (force simp: has_whitespace_def contains_any_def list_ex_iff solid_def byte_def)
  moreover have "cut (trim_suffix (trim_suffix (owner @ ''/'' @ repo @ ext) ''/'') ''.git'') CHR ''/'' = Some (owner, repo)"
  proof -
    have "CHR ''/'' \<notin> set owner"
      using valid_owner_repo_char [OF assms(1)] repo_char_facts(3) [of "CHR ''/''"] by auto
    then show ?thesis by (simp add: trim_ext_reference [OF assms(2,3), simplified] cut_Some)
  qed
  moreover have "CHR ''/'' \<notin> set repo"
    using valid_repo_chars(4) [OF assms(2)] repo_char_facts(3) [of "CHR ''/''"] by auto
  ultimately show ?thesis
    using assms(1,2) trim strip_host_reference [OF assms]
    by (simp add: parse_repo_def Let_def valid_owner_def valid_repo_def)
qed

lemma parse_clone_url:
  assumes "valid_owner owner" "valid_repo repo"
  shows "parse_repo u (clone_url owner repo) = Ok (owner, repo)"
proof -
  have "github_prefix ''https://github.com/''" "github_ext repo ''.git''"
    by (simp_all add: github_prefix_def github_ext_def lower_byte_def is_upper_def byte_def)
  from parse_repo_reference [OF assms this(2) this(1)] show ?thesis
    by (simp only: clone_url_def reference_def)
qed

section \<open>Host-side git\<close>

definition is_hex :: "char \<Rightarrow> bool" where
  "is_hex c \<longleftrightarrow> is_digit c \<or> 97 \<le> byte c \<and> byte c \<le> 102"

definition sha_re :: rx where
  "sha_re = RRep (RCls is_hex) 40 40"

lemma sha_re_iff: "match_string sha_re s \<longleftrightarrow> length s = 40 \<and> list_all is_hex s"
  by (simp add: match_string_iff sha_re_def in_RRep_cls)

definition hardening_args :: "string list" where
  "hardening_args =
     [''-c'', ''protocol.ext.allow=never'',
      ''-c'', ''core.hooksPath=/dev/null'',
      ''-c'', ''credential.helper='',
      ''-c'', ''filter.lfs.smudge='',
      ''-c'', ''filter.lfs.process='',
      ''-c'', ''filter.lfs.required=false'',
      ''-c'', ''transfer.fsckObjects=true'',
      ''-c'', ''submodule.recurse=false'']"

text \<open>\<open>path\<close> is the value of \<open>PATH\<close> in the environment of the control plane.\<close>

definition hardening_env :: "string \<Rightarrow> string \<Rightarrow> string list" where
  "hardening_env path token =
     [''GIT_TERMINAL_PROMPT=0'', ''GIT_ASKPASS=/bin/false'', ''GIT_LFS_SKIP_SMUDGE=1'',
      ''GIT_CONFIG_NOSYSTEM=1'', ''GIT_CONFIG_GLOBAL=/dev/null'', ''HOME=/nonexistent'',
      ''PATH='' @ path]
     @ (if token \<noteq> ''''
        then [''GIT_CONFIG_COUNT=1'', ''GIT_CONFIG_KEY_0=http.extraHeader'',
              ''GIT_CONFIG_VALUE_0=Authorization: Bearer '' @ token]
        else [])"

definition redact :: "string \<Rightarrow> string \<Rightarrow> string" where
  "redact s token = (if token = '''' then s else replace_all s token ''REDACTED'')"

text \<open>
  What the code takes from the machine: git run with an argument vector and an environment (the
  combined output, and the error of the process, if any), \<open>os.MkdirTemp\<close>, and \<open>os.RemoveAll\<close>
  with its error, if any.
\<close>

record 'w host =
  h_git :: "string list \<Rightarrow> string list \<Rightarrow> 'w \<Rightarrow> 'w \<times> string \<times> string option"
  h_mkdir :: "string \<Rightarrow> 'w \<Rightarrow> 'w \<times> (string, string) result"
  h_remove :: "string \<Rightarrow> 'w \<Rightarrow> 'w \<times> string option"
  h_path :: string

datatype git_err =
    GitFailed string
  | RefNotFound string
  | UnexpectedOutput
  | NotFullSHA string
  | TempDirFailed string
  | StripFailed string

definition run_git ::
    "'w host \<Rightarrow> string \<Rightarrow> string list \<Rightarrow> 'w \<Rightarrow> 'w \<times> (git_err, string) result" where
  "run_git h token args w =
     (case h_git h (hardening_args @ args) (hardening_env (h_path h) token) w of
        (w', out, None) \<Rightarrow> (w', Ok out)
      | (w', out, Some e) \<Rightarrow>
          (w', Err (GitFailed (''git '' @ hd args @ '': '' @ e @ [CHR 0x0A] @ redact out token))))"

text \<open>The first element of \<open>strings.Fields\<close> of a string that starts with no white space.\<close>

fun first_field :: "string \<Rightarrow> string" where
  "first_field [] = []"
| "first_field (c # cs) =
     (if strip_first space_encodings (c # cs) \<noteq> None then [] else c # first_field cs)"

definition resolve_commit ::
    "'w host \<Rightarrow> string \<Rightarrow> string \<Rightarrow> string \<Rightarrow> 'w \<Rightarrow> 'w \<times> (git_err, string) result" where
  "resolve_commit h remote ref0 token w =
     (let ref = (if ref0 = '''' then ''HEAD'' else ref0)
      in case run_git h token [''ls-remote'', ''--'', remote, ref] w of
           (w', Inl e) \<Rightarrow> (w', Err e)
         | (w', Inr out) \<Rightarrow>
             (let line = trim_space out
              in if line = '''' then (w', Err (RefNotFound ref))
                 else if \<not> match_string sha_re (first_field line) then (w', Err UnexpectedOutput)
                 else (w', Ok (first_field line))))"

definition clone_steps :: "string \<Rightarrow> string \<Rightarrow> string \<Rightarrow> string list list" where
  "clone_steps work remote sha =
     [[''init'', ''--quiet'', work],
      [''-C'', work, ''remote'', ''add'', ''origin'', remote],
      [''-C'', work, ''fetch'', ''--quiet'', ''--depth'', ''1'', ''--no-tags'',
       ''--no-recurse-submodules'', ''origin'', sha],
      [''-C'', work, ''-c'', ''advice.detachedHead=false'', ''checkout'', ''--quiet'',
       ''--no-recurse-submodules'', sha]]"

fun run_steps :: "'w host \<Rightarrow> string \<Rightarrow> string list list \<Rightarrow> 'w \<Rightarrow> 'w \<times> git_err option" where
  "run_steps h token [] w = (w, None)"
| "run_steps h token (s # ss) w =
     (case run_git h token s w of
        (w', Inl e) \<Rightarrow> (w', Some e)
      | (w', Inr _) \<Rightarrow> run_steps h token ss w')"

text \<open>The clone: the working tree and the directory that the returned cleanup removes.\<close>

definition clone_commit ::
    "'w host \<Rightarrow> string \<Rightarrow> string \<Rightarrow> string \<Rightarrow> 'w \<Rightarrow> 'w \<times> (git_err, string \<times> string) result" where
  "clone_commit h remote sha token w =
     (if \<not> match_string sha_re sha then (w, Err (NotFullSHA sha))
      else case h_mkdir h ''showcase-clone-*'' w of
             (w1, Inl e) \<Rightarrow> (w1, Err (TempDirFailed e))
           | (w1, Inr parent) \<Rightarrow>
               (let work = parent @ ''/repo''
                in case run_steps h token (clone_steps work remote sha) w1 of
                     (w2, Some e) \<Rightarrow> (fst (h_remove h parent w2), Err e)
                   | (w2, None) \<Rightarrow>
                       (case h_remove h (work @ ''/.git'') w2 of
                          (w3, Some e) \<Rightarrow> (fst (h_remove h parent w3), Err (StripFailed e))
                        | (w3, None) \<Rightarrow> (w3, Ok (work, parent)))))"

section \<open>What a clone does to the host\<close>

text \<open>The calls of a host, written down in the order they are made.\<close>

datatype host_call =
    GitCall "string list" "string list"
  | RemoveCall string

definition logged :: "'w host \<Rightarrow> (host_call list \<times> 'w) host" where
  "logged h =
     \<lparr>h_git = (\<lambda>argv env (l, w). case h_git h argv env w of (w', r) \<Rightarrow> ((l @ [GitCall argv env], w'), r)),
      h_mkdir = (\<lambda>pat (l, w). case h_mkdir h pat w of (w', r) \<Rightarrow> ((l, w'), r)),
      h_remove = (\<lambda>p (l, w). case h_remove h p w of (w', r) \<Rightarrow> ((l @ [RemoveCall p], w'), r)),
      h_path = h_path h\<rparr>"

definition hardened :: "'w host \<Rightarrow> string \<Rightarrow> string list \<Rightarrow> host_call" where
  "hardened h token args = GitCall (hardening_args @ args) (hardening_env (h_path h) token)"

lemma run_git_logged:
  "run_git (logged h) token args (l, w) =
     (case run_git h token args w of (w', r) \<Rightarrow> ((l @ [hardened h token args], w'), r))"
  by (simp add: run_git_def logged_def hardened_def split: prod.splits option.splits)

lemma mkdir_logged: "h_mkdir (logged h) p (l, w) = (case h_mkdir h p w of (w', r) \<Rightarrow> ((l, w'), r))"
  by (simp add: logged_def)

lemma remove_logged:
  "h_remove (logged h) p (l, w) = (case h_remove h p w of (w', r) \<Rightarrow> ((l @ [RemoveCall p], w'), r))"
  by (simp add: logged_def)

lemmas host_logged = run_git_logged mkdir_logged remove_logged

lemma run_steps_logged:
  "run_steps (logged h) token ss (l, w) = ((l', w'), r) \<Longrightarrow>
   \<exists>n. l' = l @ map (hardened h token) (take n ss) \<and> (r = None \<longrightarrow> n = length ss)"
proof (induction ss arbitrary: l w)
  case Nil
  then show ?case by auto
next
  case (Cons s ss)
  obtain w1 r1 where r1: "run_git h token s w = (w1, r1)" by (cases "run_git h token s w")
  show ?case
  proof (cases r1)
    case (Inl e)
    with r1 Cons.prems show ?thesis
      by (intro exI [of _ 1]) (auto simp: run_git_logged)
  next
    case (Inr out)
    with r1 Cons.prems
    have "run_steps (logged h) token ss (l @ [hardened h token s], w1) = ((l', w'), r)"
      by (simp add: run_git_logged)
    from Cons.IH [OF this] obtain n where
      "l' = (l @ [hardened h token s]) @ map (hardened h token) (take n ss)" "r = None \<longrightarrow> n = length ss"
      by blast
    then show ?thesis by (intro exI [of _ "Suc n"]) simp
  qed
qed

text \<open>What the calls of a clone are, by its outcome.\<close>

definition clone_calls ::
    "'w host \<Rightarrow> string \<Rightarrow> string \<Rightarrow> string \<Rightarrow> (git_err, string \<times> string) result \<Rightarrow> host_call list \<Rightarrow> bool" where
  "clone_calls h remote sha token res calls =
     (case res of
        Inr (work, parent) \<Rightarrow>
          work = parent @ ''/repo'' \<and> length sha = 40 \<and> list_all is_hex sha
          \<and> calls = map (hardened h token) (clone_steps work remote sha) @ [RemoveCall (work @ ''/.git'')]
      | Inl e \<Rightarrow>
          calls = [] \<and> (e = NotFullSHA sha \<or> (\<exists>m. e = TempDirFailed m))
          \<or> (\<exists>n parent strip. set strip \<subseteq> {RemoveCall (parent @ ''/repo/.git'')}
               \<and> calls = map (hardened h token) (take n (clone_steps (parent @ ''/repo'') remote sha))
                         @ strip @ [RemoveCall parent]))"

lemma clone_calls_cleanup:
  assumes "set strip \<subseteq> {RemoveCall (parent @ ''/repo/.git'')}"
  shows "clone_calls h remote sha token (Err e)
    (map (hardened h token) (take n (clone_steps (parent @ ''/repo'') remote sha)) @ strip @ [RemoveCall parent])"
  unfolding clone_calls_def sum.case using assms by blast

lemma clone_commit_calls:
  assumes "clone_commit (logged h) remote sha token (l, w) = ((l', w'), res)"
  shows "\<exists>calls. l' = l @ calls \<and> clone_calls h remote sha token res calls"
proof (cases "match_string sha_re sha")
  case False
  with assms show ?thesis by (auto simp: clone_commit_def clone_calls_def)
next
  case sha: True
  obtain w1 m where m: "h_mkdir h ''showcase-clone-*'' w = (w1, m)"
    by (cases "h_mkdir h ''showcase-clone-*'' w")
  show ?thesis
  proof (cases m)
    case (Inl e)
    with m sha assms show ?thesis by (auto simp: clone_commit_def clone_calls_def host_logged)
  next
    case (Inr parent)
    let ?steps = "clone_steps (parent @ ''/repo'') remote sha"
    obtain l2 w2 r where r: "run_steps (logged h) token ?steps (l, w1) = ((l2, w2), r)"
      by (metis prod.exhaust)
    from run_steps_logged [OF r] obtain n where
      n: "l2 = l @ map (hardened h token) (take n ?steps)" "r = None \<longrightarrow> n = length ?steps"
      by blast
    obtain w3 q where q: "h_remove h (parent @ ''/repo/.git'') w2 = (w3, q)"
      by (cases "h_remove h (parent @ ''/repo/.git'') w2")
    show ?thesis
    proof (cases r)
      case (Some e)
      with m sha assms Inr r have "l' = l2 @ [RemoveCall parent]" "res = Err e"
        by (auto simp: clone_commit_def host_logged Let_def split: prod.splits)
      then show ?thesis using n(1) clone_calls_cleanup [where strip = "[]" and e = e]
        by (metis append.assoc append_Nil empty_subsetI list.set(1))
    next
      case None
      with n have n': "l2 = l @ map (hardened h token) ?steps" by simp
      show ?thesis
      proof (cases q)
        case (Some e)
        with m sha assms Inr r None q
        have "l' = l2 @ [RemoveCall (parent @ ''/repo/.git''), RemoveCall parent]" "res = Err (StripFailed e)"
          by (auto simp: clone_commit_def host_logged Let_def split: prod.splits)
        moreover have "clone_calls h remote sha token (Err (StripFailed e))
            (map (hardened h token) ?steps @ [RemoveCall (parent @ ''/repo/.git'')] @ [RemoveCall parent])"
          using clone_calls_cleanup [of "[RemoveCall (parent @ ''/repo/.git'')]" parent h remote sha token
              "StripFailed e" "length ?steps"]
          by simp
        ultimately show ?thesis using n' by auto
      next
        case q': None
        with m sha assms Inr r None q
        have "l' = l2 @ [RemoveCall (parent @ ''/repo/.git'')]" "res = Ok (parent @ ''/repo'', parent)"
          by (auto simp: clone_commit_def host_logged Let_def)
        then show ?thesis using n' sha by (auto simp: clone_calls_def sha_re_iff)
      qed
    qed
  qed
qed

lemma resolve_commit_sha:
  "resolve_commit h remote ref token w = (w', Ok sha) \<Longrightarrow> length sha = 40 \<and> list_all is_hex sha"
  by (auto simp: resolve_commit_def Let_def sha_re_iff split: prod.splits sum.splits if_splits)

section \<open>Properties\<close>


text \<open>C15: a clone runs only the hardened git invocations, in order, at exactly the requested full
  SHA: on success the tree is the checkout with \<open>.git\<close> removed, and on every failure after the
  temporary directory was made that directory is removed last. The token is in the environment of
  each call and in no argument vector, which does not depend on it.\<close>

theorem clone_pinned_and_clean:
  assumes "clone_commit (logged h) (clone_url owner repo) sha token ([], w) = ((calls, w'), res)"
  shows "case res of
      Inr (work, parent) \<Rightarrow>
        work = parent @ ''/repo'' \<and> length sha = 40 \<and> list_all is_hex sha
        \<and> calls = map (hardened h token) (clone_steps work (clone_url owner repo) sha)
                    @ [RemoveCall (work @ ''/.git'')]
    | Inl e \<Rightarrow>
        calls = [] \<and> (e = NotFullSHA sha \<or> (\<exists>m. e = TempDirFailed m))
        \<or> (\<exists>n parent strip. set strip \<subseteq> {RemoveCall (parent @ ''/repo/.git'')}
             \<and> calls = map (hardened h token)
                         (take n (clone_steps (parent @ ''/repo'') (clone_url owner repo) sha))
                       @ strip @ [RemoveCall parent])"
  using clone_commit_calls [OF assms] by (simp add: clone_calls_def)

text \<open>A host on which every command works, and one whose fetch fails.\<close>

definition good_host :: "unit host" where
  "good_host = \<lparr>h_git = (\<lambda>argv env w. (w, ''ok'', None)), h_mkdir = (\<lambda>pat w. (w, Ok ''/tmp/showcase-clone-1'')),
     h_remove = (\<lambda>p w. (w, None)), h_path = ''/usr/bin''\<rparr>"

definition sample_sha :: string where
  "sample_sha = replicate 40 (CHR ''a'')"

lemma sample_sha_hex: "length sample_sha = 40 \<and> list_all is_hex sample_sha"
  by (simp add: sample_sha_def is_hex_def is_digit_def byte_def list_all_iff)

lemma sample_pair: "valid_owner ''octo''" "valid_repo ''web''"
proof -
  show "valid_owner ''octo''" unfolding valid_owner_def match_string_iff owner_re_def
    by (rule in_hyphen_rx_plain) (auto simp: alnum_def is_lower_def byte_def)
  show "valid_repo ''web''"
    by (simp add: valid_repo_def match_string_iff repo_re_def in_RRep_cls_upto repo_head_def
        repo_char_def alnum_def is_lower_def byte_def)
qed

lemma sample_shape: "github_prefix ''GitHub.com/''" "github_ext ''web'' ''.git/''"
  by code_simp+


lemma clone_pinned_and_clean_witness:
  "\<exists>calls. clone_commit (logged good_host) (clone_url ''octo'' ''web'') sample_sha ''t'' ([], ()) =
       ((calls, ()), Ok (''/tmp/showcase-clone-1/repo'', ''/tmp/showcase-clone-1''))
     \<and> length calls = 5"
proof -
  let ?c = "clone_commit (logged good_host) (clone_url ''octo'' ''web'') sample_sha ''t'' ([], ())"
  have sha: "match_string sha_re sample_sha"
    using sample_sha_hex by (simp add: sha_re_iff)
  have res: "snd ?c = Ok (''/tmp/showcase-clone-1/repo'', ''/tmp/showcase-clone-1'')"
    by (simp add: clone_commit_def sha logged_def good_host_def clone_steps_def run_git_def Let_def)
  obtain calls v r where c: "?c = ((calls, v), r)" by (metis surj_pair)
  with res have r: "r = Ok (''/tmp/showcase-clone-1/repo'', ''/tmp/showcase-clone-1'')" by simp
  from clone_pinned_and_clean [OF c] r have "length calls = 5" by (simp add: clone_steps_def)
  with c r show ?thesis by simp
qed

end
