(* ===== verification/GitHubClient.thy ===== *)
theory GitHubClient
  imports GitHubRepo
begin

text \<open>
  The GitHub App client, \<open>internal/githubapp/client.go\<close>. The HTTP client acts on a network of any
  type; the RSA signature, the parsers of the private key and the JSON decoders of the responses are
  parameters.
\<close>

section \<open>Encodings\<close>

text \<open>\<open>base64.RawURLEncoding\<close>.\<close>

definition b64_alphabet :: string where
  "b64_alphabet = ''ABCDEFGHIJKLMNOPQRSTUVWXYZabcdefghijklmnopqrstuvwxyz0123456789-_''"

definition b64 :: "nat \<Rightarrow> char" where
  "b64 n = b64_alphabet ! (n mod 64)"

fun b64_encode :: "string \<Rightarrow> string" where
  "b64_encode [] = []"
| "b64_encode [x] = (let n = byte x * 16 in [b64 (n div 64), b64 n])"
| "b64_encode [x, y] = (let n = (byte x * 256 + byte y) * 4 in [b64 (n div 4096), b64 (n div 64), b64 n])"
| "b64_encode (x # y # z # r) =
     (let n = byte x * 65536 + byte y * 256 + byte z
      in [b64 (n div 262144), b64 (n div 4096), b64 (n div 64), b64 n] @ b64_encode r)"

text \<open>\<open>strconv.Quote\<close>, which formats the \<open>%q\<close> verb; \<open>printable\<close> is \<open>strconv.IsPrint\<close> outside
  ASCII.\<close>

definition hex_nibble :: "nat \<Rightarrow> char" where
  "hex_nibble n = ''0123456789abcdef'' ! (n mod 16)"

fun hex_digits :: "nat \<Rightarrow> nat \<Rightarrow> string" where
  "hex_digits 0 n = ''''"
| "hex_digits (Suc k) n = hex_digits k (n div 16) @ [hex_nibble n]"

definition quote_rune :: "(nat \<Rightarrow> bool) \<Rightarrow> nat \<Rightarrow> string" where
  "quote_rune printable r =
     (if r = 34 then [CHR 0x5C, CHR 0x22]
      else if r = 92 then [CHR 0x5C, CHR 0x5C]
      else if r < 127 \<and> 32 \<le> r then [char_of r]
      else if 128 \<le> r \<and> printable r then encode_rune r
      else if r = 7 then CHR 0x5C # ''a''
      else if r = 8 then CHR 0x5C # ''b''
      else if r = 12 then CHR 0x5C # ''f''
      else if r = 10 then CHR 0x5C # ''n''
      else if r = 13 then CHR 0x5C # ''r''
      else if r = 9 then CHR 0x5C # ''t''
      else if r = 11 then CHR 0x5C # ''v''
      else if r < 32 \<or> r = 127 then CHR 0x5C # CHR ''x'' # hex_digits 2 r
      else if r < 65536 then CHR 0x5C # CHR ''u'' # hex_digits 4 r
      else CHR 0x5C # CHR ''U'' # hex_digits 8 r)"

function quote_runes :: "(nat \<Rightarrow> bool) \<Rightarrow> string \<Rightarrow> string" where
  "quote_runes printable [] = ''''"
| "quote_runes printable (c # t) =
     (if fst (decode_rune c t) = rune_error \<and> snd (decode_rune c t) = t
      then CHR 0x5C # CHR ''x'' # hex_digits 2 (byte c) @ quote_runes printable t
      else quote_rune printable (fst (decode_rune c t)) @ quote_runes printable (snd (decode_rune c t)))"
  by pat_completeness auto
termination
  by (relation "measure (\<lambda>(p, s). length s)") (auto simp: le_imp_less_Suc decode_rune_shorter)

definition quote_string :: "(nat \<Rightarrow> bool) \<Rightarrow> string \<Rightarrow> string" where
  "quote_string printable s = [CHR 0x22] @ quote_runes printable s @ [CHR 0x22]"

section \<open>The client\<close>

datatype 'k parsed_key = RSAKey 'k | OtherKey

text \<open>The parsers of the standard library's crypto packages, which the code calls.\<close>

record 'k key_parsers =
  kp_pem :: "string \<Rightarrow> string option"
  kp_pkcs1 :: "string \<Rightarrow> 'k option"
  kp_pkcs8 :: "string \<Rightarrow> 'k parsed_key option"

datatype key_err = EmptyAppID | KeyNotPEM | KeyNotRSA | KeyUnparsed

definition parse_private_key :: "'k key_parsers \<Rightarrow> string \<Rightarrow> (key_err, 'k) result" where
  "parse_private_key kp pem =
     (case kp_pem kp pem of
        None \<Rightarrow> Err KeyNotPEM
      | Some block \<Rightarrow>
          (case kp_pkcs1 kp block of
             Some k \<Rightarrow> Ok k
           | None \<Rightarrow>
               (case kp_pkcs8 kp block of
                  Some (RSAKey k) \<Rightarrow> Ok k
                | Some OtherKey \<Rightarrow> Err KeyNotRSA
                | None \<Rightarrow> Err KeyUnparsed)))"

record 'k client =
  cl_app_id :: string
  cl_key :: 'k
  cl_api_base :: string

definition new_client :: "'k key_parsers \<Rightarrow> string \<Rightarrow> string \<Rightarrow> (key_err, 'k client) result" where
  "new_client kp app_id pem =
     (if trim_space app_id = '''' then Err EmptyAppID
      else bind_res (parse_private_key kp pem)
        (\<lambda>k. Ok \<lparr>cl_app_id = trim_space app_id, cl_key = k, cl_api_base = ''https://api.github.com''\<rparr>))"

record http_request =
  hq_method :: string
  hq_url :: string
  hq_headers :: "(string \<times> string) list"
  hq_body :: string

record http_response =
  hr_status :: int
  hr_body :: string

text \<open>
  What the client takes from outside: whether a URL parses (\<open>http.NewRequest\<close>), the round trip over
  the network, the time in nanoseconds since the epoch, the signature of a signing input, and the
  decoders of the three response bodies (the installation id; token and expiry; the permission).
\<close>

record ('k, 'n) gh_env =
  ge_url_ok :: "string \<Rightarrow> bool"
  ge_do :: "http_request \<Rightarrow> 'n \<Rightarrow> 'n \<times> (string, http_response) result"
  ge_now :: "'n \<Rightarrow> int"
  ge_sign :: "'k \<Rightarrow> string \<Rightarrow> 'n \<Rightarrow> 'n \<times> string option"
  ge_installation :: "string \<Rightarrow> int option"
  ge_token :: "string \<Rightarrow> (string \<times> int) option"
  ge_permission :: "string \<Rightarrow> string option"
  ge_printable :: "nat \<Rightarrow> bool"

datatype gh_err =
    SignFailed
  | BadURL string
  | RequestFailed string
  | UnexpectedStatus int
  | DecodeFailed
  | NoInstallation
  | EmptyToken

definition quoted :: "string \<Rightarrow> string" where
  "quoted s = CHR 0x22 # s @ [CHR 0x22]"

definition nanos :: int where
  "nanos = 1000000000"

definition jwt_payload :: "(nat \<Rightarrow> bool) \<Rightarrow> string \<Rightarrow> int \<Rightarrow> string" where
  "jwt_payload printable app_id now =
     CHR ''{'' # quoted ''iat'' @ '':'' @ itoa ((now - 60 * nanos) div nanos) @ '',''
     @ quoted ''exp'' @ '':'' @ itoa ((now + 9 * 60 * nanos) div nanos) @ '',''
     @ quoted ''iss'' @ '':'' @ quote_string printable app_id @ ''}''"

text \<open>The App JWT: backdated by a minute, valid for nine.\<close>

definition app_jwt :: "('k, 'n) gh_env \<Rightarrow> 'k client \<Rightarrow> 'n \<Rightarrow> 'n \<times> (gh_err, string) result" where
  "app_jwt ge c n =
     (let header = b64_encode (CHR ''{'' # quoted ''alg'' @ '':'' @ quoted ''RS256'' @ '','' @ quoted ''typ'' @ '':''
                               @ quoted ''JWT'' @ ''}'');
          payload = b64_encode (jwt_payload (ge_printable ge) (cl_app_id c) (ge_now ge n));
          signing = header @ ''.'' @ payload
      in case ge_sign ge (cl_key c) signing n of
           (n', None) \<Rightarrow> (n', Err SignFailed)
         | (n', Some sig) \<Rightarrow> (n', Ok (signing @ ''.'' @ b64_encode sig)))"

definition api_headers :: "string \<Rightarrow> (string \<times> string) list" where
  "api_headers bearer =
     [(''Authorization'', ''Bearer '' @ bearer), (''Accept'', ''application/vnd.github+json''),
      (''X-GitHub-Api-Version'', ''2022-11-28'')]"

text \<open>One request: \<open>http.NewRequest\<close>, then the round trip.\<close>

definition send :: "('k, 'n) gh_env \<Rightarrow> http_request \<Rightarrow> 'n \<Rightarrow> 'n \<times> (gh_err, http_response) result" where
  "send ge rq n =
     (if \<not> ge_url_ok ge (hq_url rq) then (n, Err (BadURL (hq_url rq)))
      else case ge_do ge rq n of
             (n', Inl e) \<Rightarrow> (n', Err (RequestFailed e))
           | (n', Inr rs) \<Rightarrow> (n', Ok rs))"

definition installation_request :: "'k client \<Rightarrow> string \<Rightarrow> string \<Rightarrow> string \<Rightarrow> http_request" where
  "installation_request c jwt owner repo =
     \<lparr>hq_method = ''GET'',
      hq_url = cl_api_base c @ ''/repos/'' @ owner @ ''/'' @ repo @ ''/installation'',
      hq_headers = api_headers jwt, hq_body = ''''\<rparr>"

definition repo_installation_id ::
    "('k, 'n) gh_env \<Rightarrow> 'k client \<Rightarrow> string \<Rightarrow> string \<Rightarrow> string \<Rightarrow> 'n \<Rightarrow> 'n \<times> (gh_err, int) result" where
  "repo_installation_id ge c jwt owner repo n =
     (case send ge (installation_request c jwt owner repo) n of
        (n', Inl e) \<Rightarrow> (n', Err e)
      | (n', Inr rs) \<Rightarrow>
          if hr_status rs = 404 then (n', Err NoInstallation)
          else if hr_status rs \<noteq> 200 then (n', Err (UnexpectedStatus (hr_status rs)))
          else case ge_installation ge (hr_body rs) of
                 None \<Rightarrow> (n', Err DecodeFailed)
               | Some i \<Rightarrow> if i = 0 then (n', Err NoInstallation) else (n', Ok i))"

definition mint_request ::
    "('k, 'n) gh_env \<Rightarrow> 'k client \<Rightarrow> string \<Rightarrow> int \<Rightarrow> string \<Rightarrow> string \<Rightarrow> http_request" where
  "mint_request ge c jwt inst repo perms =
     \<lparr>hq_method = ''POST'',
      hq_url = cl_api_base c @ ''/app/installations/'' @ itoa inst @ ''/access_tokens'',
      hq_headers = api_headers jwt,
      hq_body = CHR ''{'' # quoted ''repositories'' @ '':['' @ quote_string (ge_printable ge) repo @ ''],''
                @ quoted ''permissions'' @ '':{'' @ perms @ ''}}''\<rparr>"

definition mint_token ::
    "('k, 'n) gh_env \<Rightarrow> 'k client \<Rightarrow> string \<Rightarrow> string \<Rightarrow> string \<Rightarrow> 'n \<Rightarrow> 'n \<times> (gh_err, string \<times> int) result" where
  "mint_token ge c owner repo perms n =
     (case app_jwt ge c n of
        (n1, Inl e) \<Rightarrow> (n1, Err e)
      | (n1, Inr jwt) \<Rightarrow>
          (case repo_installation_id ge c jwt owner repo n1 of
             (n2, Inl e) \<Rightarrow> (n2, Err e)
           | (n2, Inr inst) \<Rightarrow>
               (case send ge (mint_request ge c jwt inst repo perms) n2 of
                  (n3, Inl e) \<Rightarrow> (n3, Err e)
                | (n3, Inr rs) \<Rightarrow>
                    if hr_status rs \<noteq> 201 then (n3, Err (UnexpectedStatus (hr_status rs)))
                    else case ge_token ge (hr_body rs) of
                           None \<Rightarrow> (n3, Err DecodeFailed)
                         | Some (tok, expires) \<Rightarrow>
                             if tok = '''' then (n3, Err EmptyToken) else (n3, Ok (tok, expires)))))"

definition contents_read :: string where
  "contents_read = quoted ''contents'' @ '':'' @ quoted ''read''"

definition metadata_read :: string where
  "metadata_read = quoted ''metadata'' @ '':'' @ quoted ''read''"

definition installation_token ::
    "('k, 'n) gh_env \<Rightarrow> 'k client \<Rightarrow> string \<Rightarrow> string \<Rightarrow> 'n \<Rightarrow> 'n \<times> (gh_err, string \<times> int) result" where
  "installation_token ge c owner repo n = mint_token ge c owner repo contents_read n"

definition permission_request :: "'k client \<Rightarrow> string \<Rightarrow> string \<Rightarrow> string \<Rightarrow> string \<Rightarrow> http_request" where
  "permission_request c tok owner repo username =
     \<lparr>hq_method = ''GET'',
      hq_url = cl_api_base c @ ''/repos/'' @ owner @ ''/'' @ repo @ ''/collaborators/'' @ username @ ''/permission'',
      hq_headers = api_headers tok, hq_body = ''''\<rparr>"

definition repo_permission ::
    "('k, 'n) gh_env \<Rightarrow> 'k client \<Rightarrow> string \<Rightarrow> string \<Rightarrow> string \<Rightarrow> string \<Rightarrow> 'n \<Rightarrow> 'n \<times> (gh_err, string) result" where
  "repo_permission ge c owner repo username tok n =
     (case send ge (permission_request c tok owner repo username) n of
        (n', Inl e) \<Rightarrow> (n', Err e)
      | (n', Inr rs) \<Rightarrow>
          if hr_status rs = 404 then (n', Ok ''none'')
          else if hr_status rs \<noteq> 200 then (n', Err (UnexpectedStatus (hr_status rs)))
          else case ge_permission ge (hr_body rs) of
                 None \<Rightarrow> (n', Err DecodeFailed)
               | Some perm \<Rightarrow> (n', Ok perm))"

definition has_repo_access ::
    "('k, 'n) gh_env \<Rightarrow> 'k client \<Rightarrow> string \<Rightarrow> string \<Rightarrow> string \<Rightarrow> 'n \<Rightarrow> 'n \<times> (gh_err, bool) result" where
  "has_repo_access ge c owner repo username n =
     (case mint_token ge c owner repo metadata_read n of
        (n1, Inl e) \<Rightarrow> (n1, Err e)
      | (n1, Inr (tok, expires)) \<Rightarrow>
          (case repo_permission ge c owner repo username tok n1 of
             (n2, Inl e) \<Rightarrow> (n2, Err e)
           | (n2, Inr perm) \<Rightarrow> (n2, Ok (perm \<noteq> '''' \<and> perm \<noteq> ''none''))))"

section \<open>When a step succeeds\<close>

lemma send_Ok: "send ge rq n = (n', Ok rs) \<longleftrightarrow> ge_url_ok ge (hq_url rq) \<and> ge_do ge rq n = (n', Ok rs)"
  by (auto simp: send_def split: prod.splits sum.splits)

lemma repo_installation_id_Ok:
  "repo_installation_id ge c jwt owner repo n = (n', Ok i) \<longleftrightarrow>
     (\<exists>rs. send ge (installation_request c jwt owner repo) n = (n', Ok rs) \<and> hr_status rs = 200
           \<and> ge_installation ge (hr_body rs) = Some i \<and> i \<noteq> 0)"
  by (auto simp: repo_installation_id_def split: prod.splits sum.splits option.splits if_splits)

lemma mint_token_Ok:
  "mint_token ge c owner repo perms n = (n', Ok (tok, expires)) \<longleftrightarrow>
     (\<exists>jwt i n1 n2 rs. app_jwt ge c n = (n1, Ok jwt)
        \<and> repo_installation_id ge c jwt owner repo n1 = (n2, Ok i)
        \<and> send ge (mint_request ge c jwt i repo perms) n2 = (n', Ok rs) \<and> hr_status rs = 201
        \<and> ge_token ge (hr_body rs) = Some (tok, expires) \<and> tok \<noteq> '''')"
  by (auto simp: mint_token_def split: prod.splits sum.splits option.splits if_splits)

lemma repo_permission_Ok:
  "repo_permission ge c owner repo username tok n = (n', Ok perm) \<longleftrightarrow>
     (\<exists>rs. send ge (permission_request c tok owner repo username) n = (n', Ok rs)
        \<and> (if hr_status rs = 404 then perm = ''none''
           else hr_status rs = 200 \<and> ge_permission ge (hr_body rs) = Some perm))"
  by (auto simp: repo_permission_def split: prod.splits sum.splits option.splits if_splits)

lemmas github_Ok = send_Ok repo_installation_id_Ok mint_token_Ok repo_permission_Ok

lemma has_repo_access_True:
  "has_repo_access ge c owner repo username n = (n', Ok True) \<longleftrightarrow>
     (\<exists>tok expires n1 perm. mint_token ge c owner repo metadata_read n = (n1, Ok (tok, expires))
        \<and> repo_permission ge c owner repo username tok n1 = (n', Ok perm)
        \<and> perm \<noteq> '''' \<and> perm \<noteq> ''none'')"
  by (auto simp: has_repo_access_def split: prod.splits sum.splits)

section \<open>Properties\<close>

text \<open>\<open>HasRepoAccess\<close> says yes exactly when three answers of GitHub say so: the App is installed on
  this repository (200 with a nonzero id), a token with \<open>metadata:read\<close> and nothing else was minted for
  this repository of that installation (201, not empty), and, asked with that token, the collaborators
  endpoint gave this user a permission other than \<open>none\<close>. Any other status, decoding failure or
  transport failure is an error, never a yes.\<close>

theorem repo_access_granted_iff:
  "has_repo_access ge c owner repo username n = (n', Ok True) \<longleftrightarrow>
     (\<exists>jwt n1 rs1 n2 i rs2 n3 tok expires rs3 perm.
        app_jwt ge c n = (n1, Ok jwt)
        \<and> ge_url_ok ge (hq_url (installation_request c jwt owner repo))
        \<and> ge_do ge (installation_request c jwt owner repo) n1 = (n2, Ok rs1)
        \<and> hr_status rs1 = 200 \<and> ge_installation ge (hr_body rs1) = Some i \<and> i \<noteq> 0
        \<and> ge_url_ok ge (hq_url (mint_request ge c jwt i repo metadata_read))
        \<and> ge_do ge (mint_request ge c jwt i repo metadata_read) n2 = (n3, Ok rs2)
        \<and> hr_status rs2 = 201 \<and> ge_token ge (hr_body rs2) = Some (tok, expires) \<and> tok \<noteq> ''''
        \<and> ge_url_ok ge (hq_url (permission_request c tok owner repo username))
        \<and> ge_do ge (permission_request c tok owner repo username) n3 = (n', Ok rs3)
        \<and> hr_status rs3 = 200 \<and> ge_permission ge (hr_body rs3) = Some perm
        \<and> perm \<noteq> '''' \<and> perm \<noteq> ''none'')" (is "?l = ?r")
proof
  assume ?l
  then obtain tok expires n3 perm where
      m: "mint_token ge c owner repo metadata_read n = (n3, Ok (tok, expires))"
      and p: "repo_permission ge c owner repo username tok n3 = (n', Ok perm)" "perm \<noteq> ''''" "perm \<noteq> ''none''"
    unfolding has_repo_access_True by blast
  from p obtain rs3 where "send ge (permission_request c tok owner repo username) n3 = (n', Ok rs3)"
      "hr_status rs3 = 200" "ge_permission ge (hr_body rs3) = Some perm"
    unfolding repo_permission_Ok by (auto split: if_splits)
  with m p(2,3) show ?r unfolding mint_token_Ok repo_installation_id_Ok send_Ok by blast
next
  assume ?r
  then show ?l
    unfolding has_repo_access_True mint_token_Ok repo_installation_id_Ok repo_permission_Ok send_Ok
    by fastforce
qed

end
