(* ===== verification/Store.thy ===== *)
theory Store
  imports GoRegex
begin

text \<open>
  The control plane's persistence (\<open>internal/store\<close>: \<open>projects.go\<close>, \<open>owner.go\<close>,
  \<open>session.go\<close>): the tables of the migrations and one operation per repository method, which does
  what the method's SQL statement does to the rows and what the Go code makes of the result. A statement
  is one transaction. Its fault (a lost connection, a cancelled context) is an argument and leaves the
  tables alone; so are the time \<open>now()\<close> answers and the id \<open>gen_random_uuid()\<close> mints. The
  JSON documents of the columns stay opaque, values of the type \<open>'j\<close> compared as \<open>jsonb\<close>
  compares them.
\<close>

section \<open>Tables\<close>

datatype build_state = Idle | Building | BuildFailedState | Published

record owner_row =
  or_id :: int
  or_github :: int
  or_login :: string
  or_username :: "string option"

record 'j project_row =
  pr_id :: string
  pr_owner :: int
  pr_name :: string
  pr_manifest :: 'j
  pr_published :: bool
  pr_commit :: "string option"
  pr_state :: build_state
  pr_error :: "string option"
  pr_started :: "int option"
  pr_commits :: "'j option"
  pr_slug :: "string option"
  pr_created :: int
  pr_updated :: int

record login_row =
  lr_token :: string
  lr_owner :: int
  lr_expires :: int

record 'j database =
  db_owners :: "owner_row list"
  db_projects :: "'j project_row list"
  db_logins :: "login_row list"
  db_next_owner :: int

definition empty_database :: "'j database" where
  "empty_database = \<lparr>db_owners = [], db_projects = [], db_logins = [], db_next_owner = 1\<rparr>"

text \<open>What the scans read: a \<open>COALESCE\<close>d column is the empty string for a missing value.\<close>

definition coalesce :: "string option \<Rightarrow> string" where
  "coalesce v = (case v of None \<Rightarrow> '''' | Some s \<Rightarrow> s)"

record 'j stored_project =
  sp_id :: string
  sp_owner :: int
  sp_name :: string
  sp_manifest :: 'j
  sp_published :: bool
  sp_commit :: string
  sp_state :: build_state
  sp_error :: string
  sp_commits :: "'j option"
  sp_slug :: string
  sp_created :: int
  sp_updated :: int

definition scan_project :: "'j project_row \<Rightarrow> 'j stored_project" where
  "scan_project p =
     \<lparr>sp_id = pr_id p, sp_owner = pr_owner p, sp_name = pr_name p, sp_manifest = pr_manifest p,
      sp_published = pr_published p, sp_commit = coalesce (pr_commit p), sp_state = pr_state p,
      sp_error = coalesce (pr_error p), sp_commits = pr_commits p, sp_slug = coalesce (pr_slug p),
      sp_created = pr_created p, sp_updated = pr_updated p\<rparr>"

datatype store_err =
    ProjectMissing
  | ProjectNameTaken
  | BuildInProgress
  | ProjectSlugTaken
  | OwnerMissing
  | UsernameTaken
  | DatabaseFault

section \<open>Projects\<close>

text \<open>\<open>^[0-9a-fA-F]{8}-[0-9a-fA-F]{4}-[0-9a-fA-F]{4}-[0-9a-fA-F]{4}-[0-9a-fA-F]{12}$\<close>.\<close>

definition hex_class :: "char \<Rightarrow> bool" where
  "hex_class c \<longleftrightarrow> CHR ''0'' \<le> c \<and> c \<le> CHR ''9'' \<or> CHR ''a'' \<le> c \<and> c \<le> CHR ''f'' \<or> CHR ''A'' \<le> c \<and> c \<le> CHR ''F''"

definition uuid_re :: rx where
  "uuid_re =
     RSeq (RRep (RCls hex_class) 8 8) (RSeq (RChr (CHR ''-''))
       (RSeq (RRep (RCls hex_class) 4 4) (RSeq (RChr (CHR ''-''))
         (RSeq (RRep (RCls hex_class) 4 4) (RSeq (RChr (CHR ''-''))
           (RSeq (RRep (RCls hex_class) 4 4) (RSeq (RChr (CHR ''-'')) (RRep (RCls hex_class) 12 12))))))))"

text \<open>The column holds a uuid, so the case of the parameter's letters does not matter.\<close>

definition same_uuid :: "string \<Rightarrow> string \<Rightarrow> bool" where
  "same_uuid a b \<longleftrightarrow> map lower_byte a = map lower_byte b"

text \<open>The first row that satisfies a \<open>WHERE\<close>, and an update of all rows that do.\<close>

definition select_row :: "('r \<Rightarrow> bool) \<Rightarrow> 'r list \<Rightarrow> 'r option" where
  "select_row P rows = List.find P rows"

definition update_rows :: "('r \<Rightarrow> bool) \<Rightarrow> ('r \<Rightarrow> 'r) \<Rightarrow> 'r list \<Rightarrow> 'r list" where
  "update_rows P f rows = map (\<lambda>r. if P r then f r else r) rows"

definition owned :: "int \<Rightarrow> string \<Rightarrow> 'j project_row \<Rightarrow> bool" where
  "owned ow pid p \<longleftrightarrow> same_uuid (pr_id p) pid \<and> pr_owner p = ow"

definition create_project ::
    "bool \<Rightarrow> int \<Rightarrow> string \<Rightarrow> int \<Rightarrow> string \<Rightarrow> 'j \<Rightarrow> 'j database \<Rightarrow> 'j database \<times> (store_err, 'j stored_project) result" where
  "create_project fault now minted ow name man db =
     (if fault \<or> ow \<notin> or_id ` set (db_owners db) \<or> list_ex (\<lambda>p. same_uuid (pr_id p) minted) (db_projects db)
      then (db, Err DatabaseFault)
      else if list_ex (\<lambda>p. pr_owner p = ow \<and> pr_name p = name) (db_projects db) then (db, Err ProjectNameTaken)
      else
        (let row = \<lparr>pr_id = minted, pr_owner = ow, pr_name = name, pr_manifest = man, pr_published = False,
               pr_commit = None, pr_state = Idle, pr_error = None, pr_started = None, pr_commits = None,
               pr_slug = None, pr_created = now, pr_updated = now\<rparr>
         in (db\<lparr>db_projects := db_projects db @ [row]\<rparr>, Ok (scan_project row))))"

definition get_owner_project ::
    "bool \<Rightarrow> int \<Rightarrow> string \<Rightarrow> 'j database \<Rightarrow> (store_err, 'j stored_project) result" where
  "get_owner_project fault ow pid db =
     (if \<not> match_string uuid_re pid then Err ProjectMissing
      else if fault then Err DatabaseFault
      else (case select_row (owned ow pid) (db_projects db) of
              None \<Rightarrow> Err ProjectMissing
            | Some p \<Rightarrow> Ok (scan_project p)))"

definition get_published_project :: "bool \<Rightarrow> string \<Rightarrow> 'j database \<Rightarrow> (store_err, 'j stored_project) result" where
  "get_published_project fault pid db =
     (if \<not> match_string uuid_re pid then Err ProjectMissing
      else if fault then Err DatabaseFault
      else (case select_row (\<lambda>p. same_uuid (pr_id p) pid \<and> pr_published p) (db_projects db) of
              None \<Rightarrow> Err ProjectMissing
            | Some p \<Rightarrow> Ok (scan_project p)))"

definition has_username :: "'j database \<Rightarrow> string \<Rightarrow> int \<Rightarrow> bool" where
  "has_username db username ow \<longleftrightarrow> list_ex (\<lambda>o1. or_id o1 = ow \<and> or_username o1 = Some username) (db_owners db)"

definition get_published_by_slug ::
    "bool \<Rightarrow> string \<Rightarrow> string \<Rightarrow> 'j database \<Rightarrow> (store_err, 'j stored_project) result" where
  "get_published_by_slug fault username slug db =
     (if slug = '''' then Err ProjectMissing
      else if fault then Err DatabaseFault
      else (case select_row (\<lambda>p. has_username db username (pr_owner p) \<and> pr_slug p = Some slug \<and> pr_published p)
                   (db_projects db) of
              None \<Rightarrow> Err ProjectMissing
            | Some p \<Rightarrow> Ok (scan_project p)))"

definition set_project_slug ::
    "bool \<Rightarrow> int \<Rightarrow> int \<Rightarrow> string \<Rightarrow> string \<Rightarrow> 'j database \<Rightarrow> 'j database \<times> (store_err, unit) result" where
  "set_project_slug fault now ow pid slug db =
     (if \<not> match_string uuid_re pid then (db, Err ProjectMissing)
      else if fault then (db, Err DatabaseFault)
      else if \<not> list_ex (owned ow pid) (db_projects db) then (db, Err ProjectMissing)
      else if slug \<noteq> '''' \<and>
          list_ex (\<lambda>p. \<not> owned ow pid p \<and> pr_owner p = ow \<and> pr_slug p = Some slug) (db_projects db)
      then (db, Err ProjectSlugTaken)
      else (db\<lparr>db_projects := update_rows (owned ow pid)
                 (\<lambda>p. p\<lparr>pr_slug := if slug = '''' then None else Some slug, pr_updated := now\<rparr>) (db_projects db)\<rparr>,
            Ok ()))"

text \<open>\<open>ORDER BY created_at DESC\<close>; rows of one time keep the order of the table.\<close>

definition newest_first :: "'j project_row list \<Rightarrow> 'j project_row list" where
  "newest_first ps = sort_key (\<lambda>p. - pr_created p) ps"

definition list_by_owner :: "bool \<Rightarrow> int \<Rightarrow> 'j database \<Rightarrow> (store_err, 'j stored_project list) result" where
  "list_by_owner fault ow db =
     (if fault then Err DatabaseFault
      else Ok (map scan_project (newest_first (filter (\<lambda>p. pr_owner p = ow) (db_projects db)))))"

definition list_published_by_username :: "bool \<Rightarrow> string \<Rightarrow> 'j database \<Rightarrow> (store_err, 'j stored_project list) result" where
  "list_published_by_username fault username db =
     (if fault then Err DatabaseFault
      else Ok (map scan_project
             (newest_first (filter (\<lambda>p. has_username db username (pr_owner p) \<and> pr_published p) (db_projects db)))))"

definition publish_project ::
    "bool \<Rightarrow> int \<Rightarrow> int \<Rightarrow> string \<Rightarrow> string \<Rightarrow> 'j option \<Rightarrow> 'j database \<Rightarrow> 'j database \<times> (store_err, unit) result" where
  "publish_project fault now ow pid commit commits db =
     (if \<not> match_string uuid_re pid then (db, Err ProjectMissing)
      else if fault then (db, Err DatabaseFault)
      else if \<not> list_ex (owned ow pid) (db_projects db) then (db, Err ProjectMissing)
      else (db\<lparr>db_projects := update_rows (owned ow pid)
                 (\<lambda>p. p\<lparr>pr_published := True, pr_state := Published, pr_error := None, pr_commit := Some commit,
                    pr_commits := commits, pr_updated := now\<rparr>) (db_projects db)\<rparr>,
            Ok ()))"

text \<open>The \<open>SET\<close> of an edit, whose expressions read the old row.\<close>

definition edit_row :: "int \<Rightarrow> string \<Rightarrow> 'j \<Rightarrow> 'j project_row \<Rightarrow> 'j project_row" where
  "edit_row now name man p =
     (let changed = pr_manifest p \<noteq> man
      in p\<lparr>pr_name := name, pr_manifest := man,
           pr_published := (if changed then False else pr_published p),
           pr_commit := (if changed then None else pr_commit p),
           pr_commits := (if changed then None else pr_commits p),
           pr_state := (if changed then Idle else pr_state p),
           pr_error := (if changed then None else pr_error p),
           pr_updated := now\<rparr>)"

definition update_project ::
    "bool \<Rightarrow> int \<Rightarrow> int \<Rightarrow> string \<Rightarrow> string \<Rightarrow> 'j \<Rightarrow> 'j database \<Rightarrow> 'j database \<times> (store_err, 'j stored_project) result" where
  "update_project fault now ow pid name man db =
     (if \<not> match_string uuid_re pid then (db, Err ProjectMissing)
      else if fault then (db, Err DatabaseFault)
      else (case select_row (owned ow pid) (db_projects db) of
              None \<Rightarrow> (db, Err ProjectMissing)
            | Some p \<Rightarrow>
                if list_ex (\<lambda>q. \<not> owned ow pid q \<and> pr_owner q = ow \<and> pr_name q = name) (db_projects db)
                then (db, Err ProjectNameTaken)
                else (db\<lparr>db_projects := update_rows (owned ow pid) (edit_row now name man) (db_projects db)\<rparr>,
                      Ok (scan_project (edit_row now name man p)))))"

definition reclaim_error :: string where
  "reclaim_error = ''the build did not finish (the server restarted or the build was interrupted) ''
     @ map char_of [0xE2, 0x80, 0x94 :: nat] @ '' please retry''"

text \<open>The number of services of a stored manifest, when it is an array, is \<open>service_count\<close>; durations
  and times count in one unit.\<close>

definition stuck :: "('j \<Rightarrow> int option) \<Rightarrow> int \<Rightarrow> int \<Rightarrow> int \<Rightarrow> 'j project_row \<Rightarrow> bool" where
  "stuck service_count now per_service grace p \<longleftrightarrow>
     pr_state p = Building \<and>
     (case pr_started p of
        None \<Rightarrow> False
      | Some t \<Rightarrow>
          t < now - (((case service_count (pr_manifest p) of Some n \<Rightarrow> n | None \<Rightarrow> 1) + 1) * per_service + grace))"

definition reclaim_stuck_builds ::
    "('j \<Rightarrow> int option) \<Rightarrow> bool \<Rightarrow> int \<Rightarrow> int \<Rightarrow> int \<Rightarrow> 'j database \<Rightarrow> 'j database \<times> (store_err, nat) result" where
  "reclaim_stuck_builds service_count fault now per_service grace db =
     (if fault then (db, Err DatabaseFault)
      else
        (let st = stuck service_count now per_service grace
         in (db\<lparr>db_projects := update_rows st
                  (\<lambda>p. p\<lparr>pr_state := BuildFailedState, pr_error := Some reclaim_error, pr_updated := now\<rparr>) (db_projects db)\<rparr>,
             Ok (length (filter st (db_projects db))))))"

definition start_row :: "int \<Rightarrow> 'j project_row \<Rightarrow> 'j project_row" where
  "start_row now p = p\<lparr>pr_state := Building, pr_error := None, pr_started := Some now, pr_updated := now\<rparr>"

definition start_build ::
    "bool \<Rightarrow> int \<Rightarrow> int \<Rightarrow> string \<Rightarrow> 'j database \<Rightarrow> 'j database \<times> (store_err, 'j stored_project) result" where
  "start_build fault now ow pid db =
     (if \<not> match_string uuid_re pid then (db, Err ProjectMissing)
      else if fault then (db, Err DatabaseFault)
      else
        (let startable = (\<lambda>p. owned ow pid p \<and> pr_state p \<noteq> Building)
         in case select_row startable (db_projects db) of
              None \<Rightarrow> (db, (case get_owner_project False ow pid db of Inl e \<Rightarrow> Err e | Inr _ \<Rightarrow> Err BuildInProgress))
            | Some p \<Rightarrow>
                (db\<lparr>db_projects := update_rows startable (start_row now) (db_projects db)\<rparr>,
                 Ok (scan_project (start_row now p)))))"

definition mark_build_failed ::
    "bool \<Rightarrow> int \<Rightarrow> int \<Rightarrow> string \<Rightarrow> string \<Rightarrow> 'j database \<Rightarrow> 'j database \<times> (store_err, unit) result" where
  "mark_build_failed fault now ow pid msg db =
     (if \<not> match_string uuid_re pid then (db, Err ProjectMissing)
      else if fault then (db, Err DatabaseFault)
      else if \<not> list_ex (owned ow pid) (db_projects db) then (db, Err ProjectMissing)
      else (db\<lparr>db_projects := update_rows (owned ow pid)
                 (\<lambda>p. p\<lparr>pr_state := BuildFailedState, pr_error := Some msg, pr_updated := now\<rparr>) (db_projects db)\<rparr>,
            Ok ()))"

section \<open>Owners\<close>

record owner =
  ow_id :: int
  ow_github :: int
  ow_login :: string
  ow_username :: string

definition scan_owner :: "owner_row \<Rightarrow> owner" where
  "scan_owner r = \<lparr>ow_id = or_id r, ow_github = or_github r, ow_login = or_login r, ow_username = coalesce (or_username r)\<rparr>"

definition upsert_owner :: "bool \<Rightarrow> int \<Rightarrow> string \<Rightarrow> 'j database \<Rightarrow> 'j database \<times> (store_err, owner) result" where
  "upsert_owner fault gid login db =
     (if fault then (db, Err DatabaseFault)
      else (case select_row (\<lambda>r. or_github r = gid) (db_owners db) of
              None \<Rightarrow>
                (let r = \<lparr>or_id = db_next_owner db, or_github = gid, or_login = login, or_username = None\<rparr>
                 in (db\<lparr>db_owners := db_owners db @ [r], db_next_owner := db_next_owner db + 1\<rparr>, Ok (scan_owner r)))
            | Some r \<Rightarrow>
                (db\<lparr>db_owners := update_rows (\<lambda>r. or_github r = gid) (\<lambda>r. r\<lparr>or_login := login\<rparr>) (db_owners db)\<rparr>,
                 Ok (scan_owner (r\<lparr>or_login := login\<rparr>)))))"

definition owner_by :: "bool \<Rightarrow> (owner_row \<Rightarrow> bool) \<Rightarrow> 'j database \<Rightarrow> (store_err, owner) result" where
  "owner_by fault P db =
     (if fault then Err DatabaseFault
      else (case select_row P (db_owners db) of None \<Rightarrow> Err OwnerMissing | Some r \<Rightarrow> Ok (scan_owner r)))"

definition owner_by_id :: "bool \<Rightarrow> int \<Rightarrow> 'j database \<Rightarrow> (store_err, owner) result" where
  "owner_by_id fault i db = owner_by fault (\<lambda>r. or_id r = i) db"

definition owner_by_username :: "bool \<Rightarrow> string \<Rightarrow> 'j database \<Rightarrow> (store_err, owner) result" where
  "owner_by_username fault username db = owner_by fault (\<lambda>r. or_username r = Some username) db"

definition set_username :: "bool \<Rightarrow> int \<Rightarrow> string \<Rightarrow> 'j database \<Rightarrow> 'j database \<times> (store_err, unit) result" where
  "set_username fault i username db =
     (if fault then (db, Err DatabaseFault)
      else if list_ex (\<lambda>r. or_id r = i) (db_owners db) \<and>
          list_ex (\<lambda>r. or_id r \<noteq> i \<and> or_username r = Some username) (db_owners db)
      then (db, Err UsernameTaken)
      else (db\<lparr>db_owners := update_rows (\<lambda>r. or_id r = i) (\<lambda>r. r\<lparr>or_username := Some username\<rparr>) (db_owners db)\<rparr>, Ok ()))"

section \<open>Login sessions\<close>

definition create_login_session ::
    "bool \<Rightarrow> string \<Rightarrow> int \<Rightarrow> int \<Rightarrow> 'j database \<Rightarrow> 'j database \<times> (store_err, unit) result" where
  "create_login_session fault token ow expires db =
     (if fault \<or> ow \<notin> or_id ` set (db_owners db) \<or> list_ex (\<lambda>l. lr_token l = token) (db_logins db)
      then (db, Err DatabaseFault)
      else (db\<lparr>db_logins := db_logins db @ [\<lparr>lr_token = token, lr_owner = ow, lr_expires = expires\<rparr>]\<rparr>, Ok ()))"

definition owner_by_login_session :: "bool \<Rightarrow> int \<Rightarrow> string \<Rightarrow> 'j database \<Rightarrow> (store_err, owner) result" where
  "owner_by_login_session fault now token db =
     (if fault then Err DatabaseFault
      else (case select_row (\<lambda>l. lr_token l = token \<and> now < lr_expires l) (db_logins db) of
              None \<Rightarrow> Err OwnerMissing
            | Some l \<Rightarrow> owner_by_id False (lr_owner l) db))"

definition delete_login_session :: "bool \<Rightarrow> string \<Rightarrow> 'j database \<Rightarrow> 'j database \<times> (store_err, unit) result" where
  "delete_login_session fault token db =
     (if fault then (db, Err DatabaseFault)
      else (db\<lparr>db_logins := filter (\<lambda>l. lr_token l \<noteq> token) (db_logins db)\<rparr>, Ok ()))"

definition delete_expired_login_sessions :: "bool \<Rightarrow> int \<Rightarrow> 'j database \<Rightarrow> 'j database \<times> (store_err, nat) result" where
  "delete_expired_login_sessions fault now db =
     (if fault then (db, Err DatabaseFault)
      else (db\<lparr>db_logins := filter (\<lambda>l. now < lr_expires l) (db_logins db)\<rparr>,
            Ok (length (filter (\<lambda>l. lr_expires l \<le> now) (db_logins db)))))"

section \<open>The invariant of the tables\<close>

definition row_ok :: "'j project_row \<Rightarrow> bool" where
  "row_ok p \<longleftrightarrow> (pr_published p \<longrightarrow> pr_commit p \<noteq> None) \<and> (pr_state p = Published \<longrightarrow> pr_published p) \<and>
     (pr_state p = Building \<longrightarrow> pr_started p \<noteq> None) \<and> (pr_error p \<noteq> None \<longrightarrow> pr_state p = BuildFailedState)"

definition project_key :: "'j project_row \<Rightarrow> string" where
  "project_key p = map lower_byte (pr_id p)"

text \<open>Two rows of one owner differ in name, and in slug when both have one.\<close>

definition rows_apart :: "'j project_row \<Rightarrow> 'j project_row \<Rightarrow> bool" where
  "rows_apart p q \<longleftrightarrow> pr_owner p = pr_owner q \<longrightarrow>
     pr_name p \<noteq> pr_name q \<and> (pr_slug p = None \<or> pr_slug p \<noteq> pr_slug q)"

definition projects_ok :: "int set \<Rightarrow> 'j project_row list \<Rightarrow> bool" where
  "projects_ok owners ps \<longleftrightarrow> distinct (map project_key ps) \<and>
     (\<forall>p \<in> set ps. row_ok p \<and> pr_owner p \<in> owners) \<and>
     (\<forall>p \<in> set ps. \<forall>q \<in> set ps. project_key p \<noteq> project_key q \<longrightarrow> rows_apart p q)"

definition owners_ok :: "int \<Rightarrow> owner_row list \<Rightarrow> bool" where
  "owners_ok next os \<longleftrightarrow> distinct (map or_id os) \<and> distinct (map or_github os) \<and>
     (\<forall>r \<in> set os. or_id r < next) \<and>
     (\<forall>r \<in> set os. \<forall>t \<in> set os. or_username r \<noteq> None \<and> or_username r = or_username t \<longrightarrow> or_id r = or_id t)"

definition database_ok :: "'j database \<Rightarrow> bool" where
  "database_ok db \<longleftrightarrow> owners_ok (db_next_owner db) (db_owners db) \<and>
     projects_ok (or_id ` set (db_owners db)) (db_projects db) \<and>
     distinct (map lr_token (db_logins db)) \<and> lr_owner ` set (db_logins db) \<subseteq> or_id ` set (db_owners db)"

lemma db_ok_empty: "database_ok empty_database"
  by (simp add: database_ok_def empty_database_def owners_ok_def projects_ok_def)

lemma owned_key: "owned ow pid p \<longleftrightarrow> project_key p = map lower_byte pid \<and> pr_owner p = ow"
  by (auto simp: owned_def same_uuid_def project_key_def)

lemma set_update_rows: "set (update_rows P f rows) = (\<lambda>r. if P r then f r else r) ` set rows"
  by (auto simp: update_rows_def)

lemma map_update_rows: "(\<And>r. P r \<Longrightarrow> g (f r) = g r) \<Longrightarrow> map g (update_rows P f rows) = map g rows"
  by (simp add: update_rows_def)

text \<open>An update of one owner's row keeps the invariant when the new row is sound and stays apart from that
  owner's other rows.\<close>

lemma projects_ok_update:
  assumes ok: "projects_ok owners ps"
    and keep: "\<And>p. P p \<Longrightarrow> project_key (f p) = project_key p \<and> pr_owner (f p) = pr_owner p"
    and row: "\<And>p. p \<in> set ps \<Longrightarrow> P p \<Longrightarrow> row_ok p \<Longrightarrow> row_ok (f p)"
    and apart: "\<And>p q. p \<in> set ps \<Longrightarrow> q \<in> set ps \<Longrightarrow> P p \<Longrightarrow> project_key p \<noteq> project_key q \<Longrightarrow> rows_apart p q \<Longrightarrow>
       rows_apart (f p) q \<and> rows_apart q (f p) \<and> (P q \<longrightarrow> rows_apart (f p) (f q))"
  shows "projects_ok owners (update_rows P f ps)"
proof -
  define g where "g = (\<lambda>p. if P p then f p else p)"
  have g: "project_key (g p) = project_key p" "pr_owner (g p) = pr_owner p" for p
    using keep [of p] by (simp_all add: g_def)
  have "row_ok (g p)" if "p \<in> set ps" for p
    using ok row [of p] that by (auto simp: projects_ok_def g_def)
  moreover have "rows_apart (g p) (g q)" if "p \<in> set ps" "q \<in> set ps" "project_key p \<noteq> project_key q" for p q
  proof -
    from that ok have "rows_apart p q" "rows_apart q p" by (auto simp: projects_ok_def)
    then show ?thesis using apart [of p q] apart [of q p] that by (auto simp: g_def)
  qed
  ultimately have "projects_ok owners (map g ps)" using ok by (simp add: projects_ok_def g o_def)
  then show ?thesis by (simp add: update_rows_def g_def)
qed

lemma projects_ok_plain_update:
  assumes "projects_ok owners ps"
    and "\<And>p. project_key (f p) = project_key p \<and> pr_owner (f p) = pr_owner p \<and> pr_name (f p) = pr_name p \<and>
       pr_slug (f p) = pr_slug p \<and> (row_ok p \<longrightarrow> row_ok (f p))"
  shows "projects_ok owners (update_rows P f ps)"
  using assms by (intro projects_ok_update) (auto simp: rows_apart_def)

text \<open>Any call of a mutating method, and a history of them.\<close>

datatype 'j store_op =
    OpUpsertOwner bool int string
  | OpSetUsername bool int string
  | OpLogin bool string int int
  | OpLogout bool string
  | OpPruneLogins bool int
  | OpCreate bool int string int string 'j
  | OpSlug bool int int string string
  | OpPublish bool int int string string "'j option"
  | OpEdit bool int int string string 'j
  | OpReclaim "'j \<Rightarrow> int option" bool int int int
  | OpStart bool int int string
  | OpFailed bool int int string string

fun store_apply :: "'j store_op \<Rightarrow> 'j database \<Rightarrow> 'j database" where
  "store_apply (OpUpsertOwner fl gid login) db = fst (upsert_owner fl gid login db)"
| "store_apply (OpSetUsername fl i name) db = fst (set_username fl i name db)"
| "store_apply (OpLogin fl tok ow ex) db = fst (create_login_session fl tok ow ex db)"
| "store_apply (OpLogout fl tok) db = fst (delete_login_session fl tok db)"
| "store_apply (OpPruneLogins fl now) db = fst (delete_expired_login_sessions fl now db)"
| "store_apply (OpCreate fl now minted ow name man) db = fst (create_project fl now minted ow name man db)"
| "store_apply (OpSlug fl now ow pid slug) db = fst (set_project_slug fl now ow pid slug db)"
| "store_apply (OpPublish fl now ow pid commit commits) db = fst (publish_project fl now ow pid commit commits db)"
| "store_apply (OpEdit fl now ow pid name man) db = fst (update_project fl now ow pid name man db)"
| "store_apply (OpReclaim sc fl now per grace) db = fst (reclaim_stuck_builds sc fl now per grace db)"
| "store_apply (OpStart fl now ow pid) db = fst (start_build fl now ow pid db)"
| "store_apply (OpFailed fl now ow pid msg) db = fst (mark_build_failed fl now ow pid msg db)"

definition store_run :: "'j store_op list \<Rightarrow> 'j database" where
  "store_run ops = foldl (\<lambda>db op. store_apply op db) empty_database ops"

lemma db_ok_projects:
  "database_ok db \<Longrightarrow> projects_ok (or_id ` set (db_owners db)) ps \<Longrightarrow> database_ok (db\<lparr>db_projects := ps\<rparr>)"
  by (simp add: database_ok_def)

lemma list_ex_owned: "list_ex (owned ow pid) ps \<longleftrightarrow> (\<exists>p \<in> set ps. owned ow pid p)"
  by (simp add: list_ex_iff)

text \<open>The update that every owner-scoped statement makes.\<close>

lemma owned_update_ok:
  assumes "database_ok db"
    and "\<And>p. project_key (f p) = project_key p \<and> pr_owner (f p) = pr_owner p \<and> pr_name (f p) = pr_name p \<and>
       pr_slug (f p) = pr_slug p \<and> (row_ok p \<longrightarrow> row_ok (f p))"
  shows "database_ok (db\<lparr>db_projects := update_rows P f (db_projects db)\<rparr>)"
  using assms by (intro db_ok_projects projects_ok_plain_update) (auto simp: database_ok_def)

lemma set_project_slug_ok:
  assumes "database_ok db"
  shows "database_ok (fst (set_project_slug fl now ow pid slug db))"
proof -
  let ?f = "\<lambda>p :: 'a project_row. p\<lparr>pr_slug := if slug = '''' then None else Some slug, pr_updated := now\<rparr>"
  have "projects_ok (or_id ` set (db_owners db)) (update_rows (owned ow pid) ?f (db_projects db))"
    if free: "\<not> (slug \<noteq> '''' \<and> list_ex (\<lambda>p. \<not> owned ow pid p \<and> pr_owner p = ow \<and> pr_slug p = Some slug) (db_projects db))"
  proof (rule projects_ok_update)
    show "projects_ok (or_id ` set (db_owners db)) (db_projects db)" using assms by (simp add: database_ok_def)
    fix p q assume "p \<in> set (db_projects db)" "q \<in> set (db_projects db)" "owned ow pid p" "project_key p \<noteq> project_key q"
      "rows_apart p q"
    with free show "rows_apart (?f p) q \<and> rows_apart q (?f p) \<and> (owned ow pid q \<longrightarrow> rows_apart (?f p) (?f q))"
      by (auto simp: rows_apart_def owned_key list_ex_iff)
  qed (auto simp: project_key_def row_ok_def)
  with assms show ?thesis by (auto simp: set_project_slug_def intro: db_ok_projects)
qed

lemma update_project_ok:
  assumes "database_ok db"
  shows "database_ok (fst (update_project fl now ow pid name man db))"
proof -
  let ?f = "edit_row now name man"
  have f: "project_key (?f p) = project_key p" "pr_owner (?f p) = pr_owner p" "pr_slug (?f p) = pr_slug p"
    "pr_name (?f p) = name" "row_ok p \<Longrightarrow> row_ok (?f p)" for p :: "'a project_row"
    by (auto simp: edit_row_def Let_def project_key_def row_ok_def)
  have "projects_ok (or_id ` set (db_owners db)) (update_rows (owned ow pid) ?f (db_projects db))"
    if free: "\<not> list_ex (\<lambda>q. \<not> owned ow pid q \<and> pr_owner q = ow \<and> pr_name q = name) (db_projects db)"
  proof (rule projects_ok_update)
    show "projects_ok (or_id ` set (db_owners db)) (db_projects db)" using assms by (simp add: database_ok_def)
    fix p q assume "p \<in> set (db_projects db)" "q \<in> set (db_projects db)" "owned ow pid p" "project_key p \<noteq> project_key q"
      "rows_apart p q"
    with free show "rows_apart (?f p) q \<and> rows_apart q (?f p) \<and> (owned ow pid q \<longrightarrow> rows_apart (?f p) (?f q))"
      by (auto simp: rows_apart_def owned_key list_ex_iff f)
  qed (auto simp: f)
  with assms show ?thesis by (auto simp: update_project_def intro: db_ok_projects split: option.split)
qed

lemma create_project_ok:
  assumes "database_ok db"
  shows "database_ok (fst (create_project fl now minted ow name man db))"
proof -
  let ?row = "\<lparr>pr_id = minted, pr_owner = ow, pr_name = name, pr_manifest = man, pr_published = False,
     pr_commit = None, pr_state = Idle, pr_error = None, pr_started = None, pr_commits = None,
     pr_slug = None, pr_created = now, pr_updated = now\<rparr>"
  have "projects_ok (or_id ` set (db_owners db)) (db_projects db @ [?row])"
    if "ow \<in> or_id ` set (db_owners db)" "\<not> list_ex (\<lambda>p. same_uuid (pr_id p) minted) (db_projects db)"
      "\<not> list_ex (\<lambda>p. pr_owner p = ow \<and> pr_name p = name) (db_projects db)"
    using assms that by (auto simp: database_ok_def projects_ok_def rows_apart_def row_ok_def project_key_def same_uuid_def list_ex_iff)
  with assms show ?thesis by (auto simp: create_project_def Let_def intro: db_ok_projects)
qed

lemma build_ops_ok:
  assumes "database_ok db"
  shows "database_ok (fst (publish_project fl now ow pid commit commits db))"
    and "database_ok (fst (mark_build_failed fl now ow pid msg db))"
    and "database_ok (fst (reclaim_stuck_builds sc fl now per grace db))"
    and "database_ok (fst (start_build fl now ow pid db))"
  using assms
  by (auto simp: publish_project_def mark_build_failed_def reclaim_stuck_builds_def start_build_def start_row_def
      Let_def row_ok_def project_key_def split: option.split intro!: owned_update_ok)

lemma db_ok_owners:
  assumes "database_ok db" "\<And>r. or_id (f r) = or_id r \<and> or_github (f r) = or_github r"
    and "\<And>r t. r \<in> set (db_owners db) \<Longrightarrow> t \<in> set (db_owners db) \<Longrightarrow>
       or_username (f r) \<noteq> None \<Longrightarrow> or_username (f r) = or_username (f t) \<Longrightarrow> or_id r = or_id t"
  shows "database_ok (db\<lparr>db_owners := map f (db_owners db)\<rparr>)"
proof -
  have "\<forall>r \<in> set (map f (db_owners db)). \<forall>t \<in> set (map f (db_owners db)).
      or_username r \<noteq> None \<and> or_username r = or_username t \<longrightarrow> or_id r = or_id t"
  proof (intro ballI impI)
    fix r t assume "r \<in> set (map f (db_owners db))" "t \<in> set (map f (db_owners db))"
      and un: "or_username r \<noteq> None \<and> or_username r = or_username t"
    then obtain r0 t0 where "r0 \<in> set (db_owners db)" "t0 \<in> set (db_owners db)" "r = f r0" "t = f t0" by auto
    with un assms(2,3) [of r0] assms(2) [of t0] show "or_id r = or_id t" by metis
  qed
  then have "owners_ok (db_next_owner db) (map f (db_owners db))"
    using assms(1,2) unfolding database_ok_def owners_ok_def by (simp add: o_def)
  moreover have "or_id ` set (map f (db_owners db)) = or_id ` set (db_owners db)"
    using assms(2) by (simp add: image_image)
  ultimately show ?thesis using assms(1) by (simp only: database_ok_def) simp
qed

lemma db_ok_username:
  "database_ok db \<Longrightarrow> r \<in> set (db_owners db) \<Longrightarrow> t \<in> set (db_owners db) \<Longrightarrow> or_username r \<noteq> None \<Longrightarrow>
     or_username r = or_username t \<Longrightarrow> or_id r = or_id t"
  unfolding database_ok_def owners_ok_def by blast

lemma upsert_owner_ok:
  assumes "database_ok db"
  shows "database_ok (fst (upsert_owner fl gid login db))"
proof (cases "fl \<or> select_row (\<lambda>r. or_github r = gid) (db_owners db) \<noteq> None")
  case True
  let ?f = "\<lambda>r. if or_github r = gid then r\<lparr>or_login := login\<rparr> else r"
  have un: "or_username (?f r) = or_username r" for r by simp
  have "database_ok (db\<lparr>db_owners := map ?f (db_owners db)\<rparr>)"
    by (rule db_ok_owners [OF assms]) (simp, unfold un, rule db_ok_username [OF assms])
  then show ?thesis using True assms by (auto simp: upsert_owner_def update_rows_def)
next
  case False
  then have fresh: "\<forall>r \<in> set (db_owners db). or_github r \<noteq> gid"
    by (auto simp: select_row_def find_None_iff)
  let ?r = "\<lparr>or_id = db_next_owner db, or_github = gid, or_login = login, or_username = None\<rparr>"
  have uniq: "or_id r = or_id t" if "r \<in> set (db_owners db @ [?r])" "t \<in> set (db_owners db @ [?r])"
    "or_username r \<noteq> None \<and> or_username r = or_username t" for r t
  proof -
    have "or_username x \<noteq> None \<Longrightarrow> x \<in> set (db_owners db @ [?r]) \<Longrightarrow> x \<in> set (db_owners db)" for x by fastforce
    with that have "r \<in> set (db_owners db)" "t \<in> set (db_owners db)" by metis+
    then show ?thesis using that(3) by (blast intro: db_ok_username [OF assms])
  qed
  have less: "or_id r < db_next_owner db" if "r \<in> set (db_owners db)" for r
    using assms that by (auto simp: database_ok_def owners_ok_def)
  have dist: "distinct (map or_id (db_owners db @ [?r]))" "distinct (map or_github (db_owners db @ [?r]))"
    using assms fresh by (fastforce simp: database_ok_def owners_ok_def)+
  have "owners_ok (db_next_owner db + 1) (db_owners db @ [?r])"
    unfolding owners_ok_def
  proof (intro conjI ballI impI)
    fix r assume "r \<in> set (db_owners db @ [?r])"
    with less [of r] show "or_id r < db_next_owner db + 1" by auto
  qed (rule dist uniq; assumption?)+
  moreover have "projects_ok (or_id ` set (db_owners db @ [?r])) (db_projects db)"
    using assms by (auto simp: database_ok_def projects_ok_def)
  ultimately show ?thesis using False assms by (auto simp: upsert_owner_def Let_def database_ok_def)
qed

lemma set_username_ok:
  assumes "database_ok db"
  shows "database_ok (fst (set_username fl i name db))"
proof -
  let ?f = "\<lambda>r. if or_id r = i then r\<lparr>or_username := Some name\<rparr> else r"
  have "database_ok (db\<lparr>db_owners := map ?f (db_owners db)\<rparr>)"
    if free: "\<not> (list_ex (\<lambda>r. or_id r = i) (db_owners db) \<and> list_ex (\<lambda>r. or_id r \<noteq> i \<and> or_username r = Some name) (db_owners db))"
  proof (rule db_ok_owners [OF assms])
    fix r t assume rt: "r \<in> set (db_owners db)" "t \<in> set (db_owners db)"
      "or_username (?f r) \<noteq> None" "or_username (?f r) = or_username (?f t)"
    have uniq: "or_username r \<noteq> None \<Longrightarrow> or_username r = or_username t \<Longrightarrow> or_id r = or_id t"
      using db_ok_username [OF assms rt(1,2)] .
    have "or_username x \<noteq> Some name" if "x \<in> set (db_owners db)" "or_id x \<noteq> i" "or_id y = i" "y \<in> set (db_owners db)" for x y
      using free that by (auto simp: list_ex_iff)
    with rt uniq show "or_id r = or_id t" by (cases "or_id r = i"; cases "or_id t = i") auto
  qed simp
  then show ?thesis using assms by (auto simp: set_username_def update_rows_def)
qed

lemma login_ops_ok:
  assumes "database_ok db"
  shows "database_ok (fst (create_login_session fl tok ow ex db))"
    and "database_ok (fst (delete_login_session fl tok db))"
    and "database_ok (fst (delete_expired_login_sessions fl now db))"
  using assms
  by (auto simp: create_login_session_def delete_login_session_def delete_expired_login_sessions_def database_ok_def
      list_ex_iff distinct_map_filter)

lemma store_apply_ok: "database_ok db \<Longrightarrow> database_ok (store_apply op db)"
  by (cases op) (simp_all add: upsert_owner_ok set_username_ok login_ops_ok create_project_ok set_project_slug_ok
      update_project_ok build_ops_ok)

lemma store_run_ok: "database_ok (store_run ops)"
proof -
  have "database_ok db \<Longrightarrow> database_ok (foldl (\<lambda>db op. store_apply op db) db ops)" for db
    by (induction ops arbitrary: db) (auto intro: store_apply_ok)
  then show ?thesis using db_ok_empty by (simp add: store_run_def)
qed

section \<open>Properties\<close>

text \<open>The tables stay consistent. After any history of calls, whatever faults strike, ids, GitHub
  identities, usernames and session tokens are unique, no two Projects of one Owner share a name or a
  slug, every Project and session belongs to an Owner who exists, a published Project has its commit, a
  building one its start, and an error text stands with a failed build only.\<close>

theorem store_invariant:
  "database_ok (store_run ops) \<and>
   (p \<in> set (db_projects (store_run ops)) \<longrightarrow> (pr_published p \<longrightarrow> pr_commit p \<noteq> None) \<and>
      (pr_state p = Published \<longrightarrow> pr_published p) \<and> (pr_error p \<noteq> None \<longrightarrow> pr_state p = BuildFailedState))"
  using store_run_ok [of ops] by (auto simp: database_ok_def projects_ok_def row_ok_def)

theorem store_invariant_witness:
  "database_ok (store_run [OpUpsertOwner False 7 ''ana'', OpUpsertOwner False 7 ''anna''] :: string database)"
  using store_invariant [of "[OpUpsertOwner False 7 ''ana'', OpUpsertOwner False 7 ''anna'']"] by blast

text \<open>The Owner a call is scoped to, and the Project it names.\<close>

fun op_scope :: "'j store_op \<Rightarrow> (int \<times> string) option" where
  "op_scope (OpSlug fl now ow pid slug) = Some (ow, pid)"
| "op_scope (OpPublish fl now ow pid commit commits) = Some (ow, pid)"
| "op_scope (OpEdit fl now ow pid name man) = Some (ow, pid)"
| "op_scope (OpStart fl now ow pid) = Some (ow, pid)"
| "op_scope (OpFailed fl now ow pid msg) = Some (ow, pid)"
| "op_scope op = None"

lemma update_rows_keeps: "p \<in> set rows \<Longrightarrow> \<not> P p \<Longrightarrow> p \<in> set (update_rows P f rows)"
  unfolding set_update_rows by (rule image_eqI [of _ _ p]) auto

lemma select_row_Some: "select_row P ps = Some p \<Longrightarrow> p \<in> set ps \<and> P p"
  unfolding select_row_def find_Some_iff by auto

lemma select_row_None: "select_row P ps = None \<longleftrightarrow> (\<forall>p \<in> set ps. \<not> P p)"
  by (auto simp: select_row_def find_None_iff)

text \<open>Owners are isolated. A call scoped to one Owner leaves every row of every other Owner exactly
  as it was, whatever id it names; and reading another Owner's Project answers what a missing one
  answers.\<close>

theorem owners_isolated:
  assumes "op_scope op = Some (ow, pid)" "p \<in> set (db_projects db)" "pr_owner p \<noteq> ow"
  shows "p \<in> set (db_projects (store_apply op db)) \<and>
    (get_owner_project False ow pid (db\<lparr>db_projects := [p]\<rparr>) = Err ProjectMissing)"
proof
  show "p \<in> set (db_projects (store_apply op db))"
    using assms
    by (cases op) (auto simp: set_project_slug_def publish_project_def update_project_def start_build_def
        mark_build_failed_def Let_def owned_def split: option.split intro!: update_rows_keeps)
  show "get_owner_project False ow pid (db\<lparr>db_projects := [p]\<rparr>) = Err ProjectMissing"
    using assms(3) by (simp add: get_owner_project_def select_row_def owned_def)
qed

text \<open>A Guest sees published Projects only. Whatever the tables hold, each public read answers rows
  that are published, with the id, or the Owner's username and the slug, that was asked for; from a
  reachable table such a row carries the commit it was built at.\<close>

theorem guest_sees_published:
  "(get_published_project fl pid db = Ok sp \<longrightarrow> sp_published sp \<and> same_uuid (sp_id sp) pid) \<and>
   (get_published_by_slug fl username slug db = Ok sp \<longrightarrow>
      sp_published sp \<and> sp_slug sp = slug \<and> has_username db username (sp_owner sp)) \<and>
   (list_published_by_username fl username db = Ok sps \<and> sp \<in> set sps \<longrightarrow>
      sp_published sp \<and> has_username db username (sp_owner sp)) \<and>
   (get_published_project fl pid (store_run ops) = Ok sq \<longrightarrow>
      (\<exists>p \<in> set (db_projects (store_run ops)). pr_commit p = Some (sp_commit sq) \<and> sq = scan_project p))"
proof (intro conjI impI)
  assume "get_published_project fl pid (store_run ops) = Ok sq"
  then obtain p where p: "p \<in> set (db_projects (store_run ops))" "pr_published p" "sq = scan_project p"
    by (auto simp: get_published_project_def dest: select_row_Some split: if_splits option.splits)
  then have "row_ok p" using store_run_ok [of ops] by (auto simp: database_ok_def projects_ok_def)
  with p show "\<exists>p \<in> set (db_projects (store_run ops)). pr_commit p = Some (sp_commit sq) \<and> sq = scan_project p"
    by (intro bexI [of _ p]) (auto simp: row_ok_def scan_project_def coalesce_def)
qed (auto simp: get_published_project_def get_published_by_slug_def list_published_by_username_def scan_project_def
    coalesce_def newest_first_def dest!: select_row_Some split: if_splits option.splits)

lemma start_build_exclusive:
  assumes "start_build False now ow pid db = (db', Ok sp)"
  shows "sp_state sp = Building \<and> snd (start_build False now' ow pid db') = Err BuildInProgress \<and>
    fst (start_build False now' ow pid db') = db' \<and>
    (\<forall>p \<in> set (db_projects db'). owned ow pid p \<longrightarrow> pr_state p = Building) \<and>
    map pr_published (db_projects db') = map pr_published (db_projects db) \<and>
    map pr_commit (db_projects db') = map pr_commit (db_projects db)"
proof -
  let ?st = "\<lambda>p. owned ow pid p \<and> pr_state p \<noteq> Building"
  have uuid: "match_string uuid_re pid" using assms by (auto simp: start_build_def split: if_splits)
  obtain p where p: "select_row ?st (db_projects db) = Some p" "sp = scan_project (start_row now p)"
    and db': "db' = db\<lparr>db_projects := update_rows ?st (start_row now) (db_projects db)\<rparr>"
    using assms uuid by (auto simp: start_build_def Let_def split: option.splits sum.splits)
  have start: "owned ow pid (start_row now r) = owned ow pid r" "pr_state (start_row now r) = Building"
    for r :: "'a project_row" by (simp_all add: start_row_def owned_def)
  have rows: "set (db_projects db') = (\<lambda>r. if ?st r then start_row now r else r) ` set (db_projects db)"
    by (simp add: db' set_update_rows)
  have all: "\<forall>q \<in> set (db_projects db'). owned ow pid q \<longrightarrow> pr_state q = Building"
  proof (intro ballI impI)
    fix q assume "q \<in> set (db_projects db')" "owned ow pid q"
    then obtain r where "q = (if ?st r then start_row now r else r)" unfolding rows by blast
    with \<open>owned ow pid q\<close> start show "pr_state q = Building" by (cases "?st r") auto
  qed
  then have none: "select_row ?st (db_projects db') = None"
    by (auto simp: select_row_None)
  have mem: "p \<in> set (db_projects db)" "owned ow pid p \<and> pr_state p \<noteq> Building"
    using select_row_Some [OF p(1)] by blast+
  have "start_row now p \<in> set (db_projects db')"
    unfolding rows using mem by (intro image_eqI [of _ _ p]) auto
  moreover have "owned ow pid (start_row now p)" using mem(2) start(1) by blast
  ultimately have "select_row (owned ow pid) (db_projects db') \<noteq> None" unfolding select_row_None by blast
  then obtain q where "select_row (owned ow pid) (db_projects db') = Some q" by blast
  then have second: "start_build False now' ow pid db' = (db', Err BuildInProgress)"
    using none uuid by (simp add: start_build_def get_owner_project_def Let_def)
  have "map pr_published (db_projects db') = map pr_published (db_projects db)"
    "map pr_commit (db_projects db') = map pr_commit (db_projects db)"
    by (simp_all add: db' map_update_rows start_row_def)
  with all second p(2) show ?thesis by (simp add: scan_project_def start_row_def)
qed

text \<open>Builds of one Project exclude each other through the table: after a \<open>StartBuild\<close> that
  succeeded, any other one is told that a build is in progress, until something settles the row; and
  the row being built keeps its publication and its commit.\<close>

theorem start_build_excludes:
  assumes "start_build False now ow pid db = (db', Ok sp)"
  shows "sp_state sp = Building \<and> snd (start_build False now' ow pid db') = Err BuildInProgress \<and>
    fst (start_build False now' ow pid db') = db' \<and>
    (\<forall>p \<in> set (db_projects db'). owned ow pid p \<longrightarrow> pr_state p = Building) \<and>
    map pr_published (db_projects db') = map pr_published (db_projects db) \<and>
    map pr_commit (db_projects db') = map pr_commit (db_projects db)"
  by (rule start_build_exclusive [OF assms])

definition sample_uuid :: string where
  "sample_uuid = ''0a1b2c3d-0000-4000-8000-00000000000a''"

definition sample_history :: "string store_op list" where
  "sample_history = [OpUpsertOwner False 7 ''ana'', OpCreate False 10 sample_uuid 1 ''blog'' ''m1'']"

lemma sample_uuid: "match_string uuid_re sample_uuid"
  by code_simp

definition sample_row :: "string project_row" where
  "sample_row = \<lparr>pr_id = sample_uuid, pr_owner = 1, pr_name = ''blog'', pr_manifest = ''m1'', pr_published = False,
     pr_commit = None, pr_state = Idle, pr_error = None, pr_started = None, pr_commits = None, pr_slug = None,
     pr_created = 10, pr_updated = 10\<rparr>"

lemma sample_history: "db_projects (store_run sample_history) = [sample_row]"
  by (simp add: sample_history_def store_run_def empty_database_def upsert_owner_def create_project_def select_row_def
      Let_def sample_row_def)

theorem owners_isolated_witness:
  "sample_row \<in> set (db_projects (store_apply (OpPublish False 20 2 sample_uuid ''c1'' None) (store_run sample_history)))"
  using owners_isolated [of "OpPublish False 20 2 sample_uuid ''c1'' None" 2 sample_uuid sample_row "store_run sample_history"]
  unfolding sample_history by (simp add: sample_row_def)

theorem guest_sees_published_witness:
  "get_published_project False sample_uuid (store_run sample_history) = Err ProjectMissing"
proof (cases "get_published_project False sample_uuid (store_run sample_history)")
  case (Inl e)
  then show ?thesis
    by (simp add: get_published_project_def sample_uuid select_row_def sample_history sample_row_def)
next
  case (Inr sp)
  have "\<exists>p \<in> set (db_projects (store_run sample_history)). pr_commit p = Some (sp_commit sp) \<and> sp = scan_project p"
    using guest_sees_published [where ?fl = False and ?pid = sample_uuid and ?ops = sample_history and ?sq = sp] Inr by blast
  then show ?thesis by (simp add: sample_history sample_row_def)
qed

theorem start_build_excludes_witness:
  "\<exists>db sp. start_build False 20 1 sample_uuid (store_run sample_history) = (db, Ok sp) \<and>
     snd (start_build False 30 1 sample_uuid db) = Err BuildInProgress"
proof -
  obtain db sp where s: "start_build False 20 1 sample_uuid (store_run sample_history) = (db, Ok sp)"
    by (simp add: start_build_def sample_uuid sample_history select_row_def sample_row_def owned_def same_uuid_def Let_def)
  from start_build_excludes [OF s, of 30] s show ?thesis by blast
qed


end
