(* ===== verification/ProjectApi.thy ===== *)
theory ProjectApi
  imports ProjectForm GitHubClient Store Runner
begin

text \<open>
  The Owner-facing Project feature (\<open>internal/project\<close>): the HTTP handlers of \<open>project.go\<close>, the
  background build of \<open>publisher.go\<close> and the play-path source of \<open>source.go\<close>, over the tables of
  the store. A handler takes the Owner that \<open>RequireOwner\<close> put in the context, the decoded body (none
  when it does not decode), the path values, and one fault per statement; it returns the tables and the
  response. The JSON encoders are parameters, as is the check of a user's access to a repository.
\<close>

section \<open>Responses\<close>

record 'j codec =
  cd_encode :: "manifest \<Rightarrow> 'j option"
  cd_decode :: "'j \<Rightarrow> manifest option"
  cd_encode_commits :: "(string \<rightharpoonup> string) \<Rightarrow> 'j"
  cd_decode_commits :: "'j \<Rightarrow> (string \<rightharpoonup> string) option"

record view =
  vw_id :: string
  vw_name :: string
  vw_slug :: string
  vw_published :: bool
  vw_commit :: string
  vw_state :: build_state
  vw_error :: string
  vw_manifest :: "form option"

definition project_view :: "'j codec \<Rightarrow> 'j stored_project \<Rightarrow> view" where
  "project_view cd p =
     \<lparr>vw_id = sp_id p, vw_name = sp_name p, vw_slug = sp_slug p, vw_published = sp_published p,
      vw_commit = sp_commit p, vw_state = sp_state p, vw_error = sp_error p,
      vw_manifest = map_option (\<lambda>m. (form_from_manifest m)\<lparr>fm_name := sp_name p\<rparr>) (cd_decode cd (sp_manifest p))\<rparr>"

datatype access_err =
    BadRepo string repo_err
  | NotYourRepo string string string
  | AppMissing string string string
  | AccessUnverified string string string
  | AccessDenied string string string

datatype body =
    TextBody string
  | FormErrBody form_err
  | ManifestErrBody "verr list"
  | NameErrBody name_err
  | AccessErrBody access_err
  | ProjectBody view
  | ProjectsBody "view list"
  | PublicBody "string \<times> string \<times> string"
  | PortfolioBody string "(string \<times> string \<times> string) list"

type_synonym http_reply = "int \<times> body"

definition not_signed_in :: http_reply where
  "not_signed_in = (401, TextBody ''not signed in'')"

definition internal_error :: http_reply where
  "internal_error = (500, TextBody ''internal error'')"

definition project_not_found :: http_reply where
  "project_not_found = (404, TextBody ''project not found'')"

definition not_found :: http_reply where
  "not_found = (404, TextBody ''not found'')"

definition name_conflict :: http_reply where
  "name_conflict = (409, TextBody ''a project with that name already exists'')"

definition invalid_body :: http_reply where
  "invalid_body = (400, TextBody ''invalid request body'')"

lemmas reply_defs = not_signed_in_def internal_error_def project_not_found_def not_found_def
  name_conflict_def invalid_body_def

section \<open>Configuring a Project\<close>

definition max_name_len :: nat where
  "max_name_len = 100"

definition decode_project_form ::
    "unicode \<Rightarrow> 'j codec \<Rightarrow> form option \<Rightarrow> (http_reply, string \<times> 'j) result" where
  "decode_project_form u cd decoded =
     (case decoded of
        None \<Rightarrow> Err invalid_body
      | Some f \<Rightarrow>
          (let name = trim_space (fm_name f)
           in if name = '''' \<or> max_name_len < rune_count name
              then Err (400, TextBody ''name is required and must be at most 100 characters'')
              else case to_manifest f of
                     Inl e \<Rightarrow> Err (400, FormErrBody e)
                   | Inr m \<Rightarrow>
                       if validate u m \<noteq> [] then Err (400, ManifestErrBody (validate u m))
                       else case cd_encode cd m of
                              None \<Rightarrow> Err internal_error
                            | Some j \<Rightarrow> Ok (name, j)))"

definition create_handler ::
    "unicode \<Rightarrow> 'j codec \<Rightarrow> owner option \<Rightarrow> form option \<Rightarrow> bool \<Rightarrow> int \<Rightarrow> string \<Rightarrow> 'j database \<Rightarrow> 'j database \<times> http_reply" where
  "create_handler u cd who decoded fault now minted db =
     (case who of
        None \<Rightarrow> (db, not_signed_in)
      | Some owner \<Rightarrow>
          (case decode_project_form u cd decoded of
             Inl r \<Rightarrow> (db, r)
           | Inr (name, j) \<Rightarrow>
               (case create_project fault now minted (ow_id owner) name j db of
                  (db', Inl ProjectNameTaken) \<Rightarrow> (db', name_conflict)
                | (db', Inl _) \<Rightarrow> (db', internal_error)
                | (db', Inr p) \<Rightarrow> (db', 201, ProjectBody (project_view cd p)))))"

definition update_handler ::
    "unicode \<Rightarrow> 'j codec \<Rightarrow> owner option \<Rightarrow> string \<Rightarrow> form option \<Rightarrow> bool \<Rightarrow> int \<Rightarrow> 'j database \<Rightarrow> 'j database \<times> http_reply" where
  "update_handler u cd who pid decoded fault now db =
     (case who of
        None \<Rightarrow> (db, not_signed_in)
      | Some owner \<Rightarrow>
          (case decode_project_form u cd decoded of
             Inl r \<Rightarrow> (db, r)
           | Inr (name, j) \<Rightarrow>
               (case update_project fault now (ow_id owner) pid name j db of
                  (db', Inl ProjectMissing) \<Rightarrow> (db', project_not_found)
                | (db', Inl ProjectNameTaken) \<Rightarrow> (db', name_conflict)
                | (db', Inl _) \<Rightarrow> (db', internal_error)
                | (db', Inr p) \<Rightarrow> (db', 200, ProjectBody (project_view cd p)))))"

definition list_handler :: "'j codec \<Rightarrow> owner option \<Rightarrow> bool \<Rightarrow> 'j database \<Rightarrow> http_reply" where
  "list_handler cd who fault db =
     (case who of
        None \<Rightarrow> not_signed_in
      | Some owner \<Rightarrow>
          (case list_by_owner fault (ow_id owner) db of
             Inl _ \<Rightarrow> internal_error
           | Inr ps \<Rightarrow> (200, ProjectsBody (map (project_view cd) ps))))"

definition get_handler :: "'j codec \<Rightarrow> owner option \<Rightarrow> string \<Rightarrow> bool \<Rightarrow> 'j database \<Rightarrow> http_reply" where
  "get_handler cd who pid fault db =
     (case who of
        None \<Rightarrow> not_signed_in
      | Some owner \<Rightarrow>
          (case get_owner_project fault (ow_id owner) pid db of
             Inl ProjectMissing \<Rightarrow> project_not_found
           | Inl _ \<Rightarrow> internal_error
           | Inr p \<Rightarrow> (200, ProjectBody (project_view cd p))))"

text \<open>The two statements of \<open>SetSlug\<close> have their own faults.\<close>

definition set_slug_handler ::
    "unicode \<Rightarrow> 'j codec \<Rightarrow> owner option \<Rightarrow> string \<Rightarrow> string option \<Rightarrow> bool \<Rightarrow> bool \<Rightarrow> int \<Rightarrow> 'j database \<Rightarrow> 'j database \<times> http_reply" where
  "set_slug_handler u cd who pid decoded fault fault2 now db =
     (case who of
        None \<Rightarrow> (db, not_signed_in)
      | Some owner \<Rightarrow>
          (case decoded of
             None \<Rightarrow> (db, invalid_body)
           | Some slug \<Rightarrow>
               (case (if trim_space slug \<noteq> '''' then canonical_slug u slug else Ok '''') of
                  Inl e \<Rightarrow> (db, 400, NameErrBody e)
                | Inr canonical \<Rightarrow>
                    (case set_project_slug fault now (ow_id owner) pid canonical db of
                       (db', Inl ProjectMissing) \<Rightarrow> (db', project_not_found)
                     | (db', Inl ProjectSlugTaken) \<Rightarrow> (db', 409, TextBody ''a project with that slug already exists'')
                     | (db', Inl _) \<Rightarrow> (db', internal_error)
                     | (db', Inr _) \<Rightarrow>
                         (case get_owner_project fault2 (ow_id owner) pid db' of
                            Inl _ \<Rightarrow> (db', internal_error)
                          | Inr p \<Rightarrow> (db', 200, ProjectBody (project_view cd p)))))))"

section \<open>Public pages\<close>

definition public_view :: "'j stored_project \<Rightarrow> string \<times> string \<times> string" where
  "public_view p = (sp_id p, sp_name p, sp_slug p)"

definition portfolio_handler :: "unicode \<Rightarrow> string \<Rightarrow> bool \<Rightarrow> bool \<Rightarrow> 'j database \<Rightarrow> http_reply" where
  "portfolio_handler u path fault fault2 db =
     (let username = to_lower u (trim_space path)
      in case owner_by_username fault username db of
           Inl OwnerMissing \<Rightarrow> not_found
         | Inl _ \<Rightarrow> internal_error
         | Inr owner \<Rightarrow>
             (case list_published_by_username fault2 username db of
                Inl _ \<Rightarrow> internal_error
              | Inr ps \<Rightarrow> (200, PortfolioBody (ow_username owner) (map public_view ps))))"

definition project_by_slug_handler :: "unicode \<Rightarrow> string \<Rightarrow> string \<Rightarrow> bool \<Rightarrow> 'j database \<Rightarrow> http_reply" where
  "project_by_slug_handler u upath spath fault db =
     (case get_published_by_slug fault (to_lower u (trim_space upath)) (to_lower u (trim_space spath)) db of
        Inl ProjectMissing \<Rightarrow> not_found
      | Inl _ \<Rightarrow> internal_error
      | Inr p \<Rightarrow> (200, PublicBody (public_view p)))"

section \<open>Publishing\<close>

text \<open>The check of a user's access to a repository, on a network of any type.\<close>

type_synonym 'n repo_access = "string \<Rightarrow> string \<Rightarrow> string \<Rightarrow> 'n \<Rightarrow> 'n \<times> (gh_err, bool) result"

fun check_services ::
    "unicode \<Rightarrow> 'n repo_access option \<Rightarrow> string \<Rightarrow> service list \<Rightarrow> 'n \<Rightarrow> 'n \<times> access_err option" where
  "check_services u access login [] n = (n, None)"
| "check_services u access login (svc # svcs) n =
     (case parse_repo u (svc_repo svc) of
        Inl e \<Rightarrow> (n, Some (BadRepo (svc_name svc) e))
      | Inr (owner, repo) \<Rightarrow>
          if equal_fold u owner login then check_services u access login svcs n
          else case access of
                 None \<Rightarrow> (n, Some (NotYourRepo (svc_name svc) owner repo))
               | Some has_access \<Rightarrow>
                   (case has_access owner repo login n of
                      (n', Inl NoInstallation) \<Rightarrow> (n', Some (AppMissing (svc_name svc) owner repo))
                    | (n', Inl _) \<Rightarrow> (n', Some (AccessUnverified (svc_name svc) owner repo))
                    | (n', Inr ok) \<Rightarrow>
                        if \<not> ok then (n', Some (AccessDenied (svc_name svc) owner repo))
                        else check_services u access login svcs n'))"

definition check_repo_access ::
    "unicode \<Rightarrow> 'n repo_access option \<Rightarrow> string \<Rightarrow> manifest \<Rightarrow> 'n \<Rightarrow> 'n \<times> access_err option" where
  "check_repo_access u access login m n = check_services u access login (m_services m) n"

text \<open>The background build a publish starts: the arguments of \<open>Publisher.Start\<close>.\<close>

record build_job =
  bj_owner :: int
  bj_login :: string
  bj_project :: string
  bj_manifest :: manifest

definition publish_handler ::
    "unicode \<Rightarrow> 'j codec \<Rightarrow> bool \<Rightarrow> 'n repo_access option \<Rightarrow> owner option \<Rightarrow> string \<Rightarrow> bool \<Rightarrow> bool \<Rightarrow> int
       \<Rightarrow> 'j database \<Rightarrow> 'n \<Rightarrow> 'j database \<times> 'n \<times> http_reply \<times> build_job option" where
  "publish_handler u cd configured access who pid fault fault2 now db n =
     (case who of
        None \<Rightarrow> (db, n, not_signed_in, None)
      | Some owner \<Rightarrow>
          if \<not> configured then (db, n, (501, TextBody ''publishing is not configured''), None)
          else case get_owner_project fault (ow_id owner) pid db of
                 Inl ProjectMissing \<Rightarrow> (db, n, project_not_found, None)
               | Inl _ \<Rightarrow> (db, n, internal_error, None)
               | Inr p \<Rightarrow>
                   (case cd_decode cd (sp_manifest p) of
                      None \<Rightarrow> (db, n, internal_error, None)
                    | Some m \<Rightarrow>
                        (case check_repo_access u access (ow_login owner) m n of
                           (n', Some e) \<Rightarrow> (db, n', (422, AccessErrBody e), None)
                         | (n', None) \<Rightarrow>
                             (case start_build fault2 now (ow_id owner) (sp_id p) db of
                                (db', Inl BuildInProgress) \<Rightarrow>
                                  (db', n', (409, TextBody ''a build is already in progress for this project''), None)
                              | (db', Inl ProjectMissing) \<Rightarrow> (db', n', project_not_found, None)
                              | (db', Inl _) \<Rightarrow> (db', n', internal_error, None)
                              | (db', Inr started) \<Rightarrow>
                                  (db', n', (202, ProjectBody (project_view cd started)),
                                   Some \<lparr>bj_owner = ow_id owner, bj_login = ow_login owner, bj_project = sp_id p,
                                         bj_manifest = m\<rparr>)))))"

section \<open>The background build\<close>

text \<open>How a build fails, with the text of the error; a missing installation is told apart.\<close>

datatype publish_failure = MissingInstallation string | BuildFailure string

definition last_bytes :: "string \<Rightarrow> nat \<Rightarrow> string" where
  "last_bytes s m =
     (if length s \<le> m then s else [CHR 0xE2, CHR 0x80, CHR 0xA6] @ drop (length s - m) s)"

definition commit_or_empty :: "(string \<rightharpoonup> string) \<Rightarrow> string \<Rightarrow> string" where
  "commit_or_empty commits name = (case commits name of Some c \<Rightarrow> c | None \<Rightarrow> '''')"

fun first_ui :: "(string \<rightharpoonup> string) \<Rightarrow> service list \<Rightarrow> string option" where
  "first_ui commits [] = None"
| "first_ui commits (svc # svcs) =
     (if svc_role svc = role_ui then Some (commit_or_empty commits (svc_name svc)) else first_ui commits svcs)"

fun first_commit :: "(string \<rightharpoonup> string) \<Rightarrow> service list \<Rightarrow> string" where
  "first_commit commits [] = ''''"
| "first_commit commits (svc # svcs) =
     (let c = commit_or_empty commits (svc_name svc) in if c \<noteq> '''' then c else first_commit commits svcs)"

definition headline_commit :: "manifest \<Rightarrow> (string \<rightharpoonup> string) \<Rightarrow> string" where
  "headline_commit m commits =
     (case first_ui commits (m_services m) of
        Some c \<Rightarrow> c
      | None \<Rightarrow> first_commit commits (m_services m))"

text \<open>The end of a build: the outcome the builder returned, whether a shutdown had cancelled it, and the
  faults of the two statements.\<close>

definition settle_build ::
    "'j codec \<Rightarrow> build_job \<Rightarrow> (publish_failure, string \<rightharpoonup> string) result \<Rightarrow> bool \<Rightarrow> bool \<Rightarrow> bool \<Rightarrow> int
       \<Rightarrow> 'j database \<Rightarrow> 'j database" where
  "settle_build cd job outcome cancelled fault fault2 now db =
     (case outcome of
        Inl e \<Rightarrow>
          if cancelled then db
          else (let msg = (case e of
                             MissingInstallation t \<Rightarrow> ''the Showcase GitHub App is not installed on that repository''
                           | BuildFailure t \<Rightarrow> ''build failed:'' @ [CHR 0x0A] @ last_bytes t 4096)
                in fst (mark_build_failed fault now (bj_owner job) (bj_project job) msg db))
      | Inr commits \<Rightarrow>
          (case publish_project fault now (bj_owner job) (bj_project job)
                  (headline_commit (bj_manifest job) commits) (Some (cd_encode_commits cd commits)) db of
             (db', Inl _) \<Rightarrow>
               fst (mark_build_failed fault2 now (bj_owner job) (bj_project job)
                      ''build succeeded but publishing failed; please retry'' db')
           | (db', Inr _) \<Rightarrow> db'))"

definition reap_once ::
    "('j \<Rightarrow> int option) \<Rightarrow> bool \<Rightarrow> int \<Rightarrow> int \<Rightarrow> int \<Rightarrow> 'j database \<Rightarrow> 'j database" where
  "reap_once service_count fault now per_service grace db =
     fst (reclaim_stuck_builds service_count fault now per_service grace db)"

section \<open>The play-path source\<close>

definition database_source :: "'j codec \<Rightarrow> bool \<Rightarrow> 'j database \<Rightarrow> project_source" where
  "database_source cd fault db pid =
     (case get_published_project fault pid db of
        Inl ProjectMissing \<Rightarrow> Err ProjectNotFound
      | Inl _ \<Rightarrow> Err (SourceFailed ''get published project'')
      | Inr p \<Rightarrow>
          (case cd_decode cd (sp_manifest p) of
             None \<Rightarrow> Err (SourceFailed (''decode manifest for project '' @ pid))
           | Some m \<Rightarrow>
               (case (case sp_commits p of None \<Rightarrow> Some Map.empty | Some j \<Rightarrow> cd_decode_commits cd j) of
                  None \<Rightarrow> Err (SourceFailed (''decode service commits for project '' @ pid))
                | Some commits \<Rightarrow>
                    Ok \<lparr>pj_manifest = m, pj_images = Map.empty, pj_commit = sp_commit p, pj_commits = commits\<rparr>)))"

section \<open>The publish gate\<close>

text \<open>A service may be published when its repository parses and is the Owner's own, or a checker
  confirmed the Owner's access to it.\<close>

definition service_allowed :: "unicode \<Rightarrow> 'n repo_access option \<Rightarrow> string \<Rightarrow> service \<Rightarrow> bool" where
  "service_allowed u access login svc \<longleftrightarrow>
     (\<exists>owner repo. parse_repo u (svc_repo svc) = Ok (owner, repo)
        \<and> (equal_fold u owner login
           \<or> (\<exists>has_access n n'. access = Some has_access \<and> has_access owner repo login n = (n', Ok True))))"

lemma check_services_None:
  "check_services u access login svcs n = (n', None) \<Longrightarrow> list_all (service_allowed u access login) svcs"
proof (induction svcs arbitrary: n)
  case (Cons svc svcs)
  obtain owner repo where p: "parse_repo u (svc_repo svc) = Ok (owner, repo)"
    using Cons.prems by (cases "parse_repo u (svc_repo svc)") auto
  show ?case
  proof (cases "equal_fold u owner login")
    case True
    with Cons p show ?thesis by (auto simp: service_allowed_def)
  next
    case False
    with Cons.prems p obtain acc where acc: "access = Some acc" by (cases access) auto
    obtain n1 r where r: "acc owner repo login n = (n1, r)" by (cases "acc owner repo login n")
    with Cons.prems p False acc have "r = Ok True" "check_services u access login svcs n1 = (n', None)"
      by (auto split: sum.splits gh_err.splits if_splits)
    with Cons.IH p acc r show ?thesis by (auto simp: service_allowed_def)
  qed
qed simp

lemma publish_handler_job:
  assumes "publish_handler u cd configured access who pid fault fault2 now db n = (db', n', r, Some job)"
  obtains owner p m started where "who = Some owner" "configured"
    "get_owner_project fault (ow_id owner) pid db = Ok p" "cd_decode cd (sp_manifest p) = Some m"
    "check_repo_access u access (ow_login owner) m n = (n', None)"
    "start_build fault2 now (ow_id owner) (sp_id p) db = (db', Ok started)"
    "r = (202, ProjectBody (project_view cd started))"
    "job = \<lparr>bj_owner = ow_id owner, bj_login = ow_login owner, bj_project = sp_id p, bj_manifest = m\<rparr>"
  using assms
  by (auto simp: publish_handler_def split: option.splits if_splits sum.splits store_err.splits prod.splits)

lemma start_build_Err_same: "start_build fault now ow pid db = (db', Err e) \<Longrightarrow> db' = db"
  by (auto simp: start_build_def Let_def split: if_splits option.splits)

lemma publish_handler_no_job:
  assumes "publish_handler u cd configured access who pid fault fault2 now db n = (db', n', (code, b), None)"
  shows "db' = db \<and> code \<noteq> 202"
  using assms
  by (auto simp: publish_handler_def reply_defs
      split: option.splits if_splits sum.splits store_err.splits prod.splits dest!: start_build_Err_same)

section \<open>What the tables answer\<close>

lemma find_filter: "(\<And>x. P x \<Longrightarrow> Q x) \<Longrightarrow> List.find P (filter Q xs) = List.find P xs"
  by (induction xs) auto

lemma find_map:
  "(\<And>x. P (g x) = P x) \<Longrightarrow> List.find P (map g xs) = map_option g (List.find P xs)"
  by (induction xs) auto

text \<open>What the play path reads of a row.\<close>

definition played :: "'j project_row \<Rightarrow> string \<times> 'j \<times> bool \<times> string option \<times> 'j option" where
  "played p = (pr_id p, pr_manifest p, pr_published p, pr_commit p, pr_commits p)"

lemma get_published_played:
  assumes "\<And>p. played (g p) = played p"
  shows "map_sum id (\<lambda>q. (sp_manifest q, sp_commit q, sp_commits q)) (get_published_project fl pid (db\<lparr>db_projects := map g (db_projects db)\<rparr>))
       = map_sum id (\<lambda>q. (sp_manifest q, sp_commit q, sp_commits q)) (get_published_project fl pid db)"
proof -
  have g: "pr_id (g p) = pr_id p" "pr_manifest (g p) = pr_manifest p" "pr_published (g p) = pr_published p"
    "pr_commit (g p) = pr_commit p" "pr_commits (g p) = pr_commits p" for p
    using assms [of p] by (simp_all add: played_def)
  then have "List.find (\<lambda>p. same_uuid (pr_id p) pid \<and> pr_published p) (map g (db_projects db))
      = map_option g (List.find (\<lambda>p. same_uuid (pr_id p) pid \<and> pr_published p) (db_projects db))"
    by (intro find_map) simp
  with g show ?thesis
    by (simp add: get_published_project_def select_row_def scan_project_def split: option.split)
qed

lemma database_source_cong:
  assumes "map_sum id (\<lambda>q. (sp_manifest q, sp_commit q, sp_commits q)) (get_published_project fl pid db')
       = map_sum id (\<lambda>q. (sp_manifest q, sp_commit q, sp_commits q)) (get_published_project fl pid db)"
  shows "database_source cd fl db' pid = database_source cd fl db pid"
  using assms
  by (cases "get_published_project fl pid db"; cases "get_published_project fl pid db'")
    (auto simp: database_source_def cong: option.case_cong)

lemma database_source_played:
  assumes "\<And>p. played (f p) = played p"
  shows "database_source cd fl (db\<lparr>db_projects := update_rows P f (db_projects db)\<rparr>) pid = database_source cd fl db pid"
  unfolding update_rows_def
  using assms by (intro database_source_cong get_published_played) simp

lemma mark_build_failed_played:
  "database_source cd fl (fst (mark_build_failed fault now ow pid' msg db)) pid = database_source cd fl db pid"
  by (auto simp: mark_build_failed_def played_def intro!: database_source_played)

lemma reclaim_played:
  "database_source cd fl (fst (reclaim_stuck_builds sc fault now per grace db)) pid = database_source cd fl db pid"
  by (auto simp: reclaim_stuck_builds_def Let_def played_def intro!: database_source_played)

lemma start_build_played:
  "database_source cd fl (fst (start_build fault now ow pid' db)) pid = database_source cd fl db pid"
  by (auto simp: start_build_def start_row_def Let_def played_def intro!: database_source_played
      split: option.split)

section \<open>Properties\<close>

text \<open>C1: the publish gate. A publish answers 202 exactly when it starts a build; then the caller is
  signed in, the build gets the manifest stored for a Project of that Owner, every service of it
  builds from the Owner's own repository or from one the access check confirmed for this Owner,
  and the row is locked: another start of the same Project is told that a build is in progress. Any
  other answer leaves the tables as they were.\<close>

theorem publish_gate:
  assumes "publish_handler u cd configured access who pid fault fault2 now db n = (db', n', (code, b), launched)"
  shows "(code = 202 \<longleftrightarrow> launched \<noteq> None)
    \<and> (case launched of
         None \<Rightarrow> db' = db
       | Some job \<Rightarrow>
           (\<exists>owner p. who = Some owner \<and> bj_owner job = ow_id owner
              \<and> get_owner_project False (ow_id owner) pid db = Ok p \<and> bj_project job = sp_id p
              \<and> cd_decode cd (sp_manifest p) = Some (bj_manifest job)
              \<and> list_all (service_allowed u access (ow_login owner)) (m_services (bj_manifest job))
              \<and> snd (start_build False now' (ow_id owner) (sp_id p) db') = Err BuildInProgress))"
proof (cases launched)
  case None
  with assms have "publish_handler u cd configured access who pid fault fault2 now db n = (db', n', (code, b), None)"
    by simp
  from publish_handler_no_job [OF this] None show ?thesis by simp
next
  case (Some job)
  with assms have "publish_handler u cd configured access who pid fault fault2 now db n = (db', n', (code, b), Some job)"
    by simp
  then obtain owner p m started where j: "who = Some owner"
    "get_owner_project fault (ow_id owner) pid db = Ok p" "cd_decode cd (sp_manifest p) = Some m"
    "check_repo_access u access (ow_login owner) m n = (n', None)"
    "start_build fault2 now (ow_id owner) (sp_id p) db = (db', Ok started)"
    "(code, b) = (202, ProjectBody (project_view cd started))"
    "job = \<lparr>bj_owner = ow_id owner, bj_login = ow_login owner, bj_project = sp_id p, bj_manifest = m\<rparr>"
    by (rule publish_handler_job)
  from j(2) have "get_owner_project False (ow_id owner) pid db = Ok p"
    by (auto simp: get_owner_project_def split: if_splits)
  moreover from j(5) have "start_build False now (ow_id owner) (sp_id p) db = (db', Ok started)"
    by (auto simp: start_build_def split: if_splits)
  from start_build_exclusive [OF this, of now']
  have "snd (start_build False now' (ow_id owner) (sp_id p) db') = Err BuildInProgress" by blast
  moreover have "list_all (service_allowed u access (ow_login owner)) (m_services m)"
    using j(4) check_services_None by (auto simp: check_repo_access_def)
  ultimately show ?thesis using j Some by auto
qed

text \<open>C13: drafts are invisible. The public pages and the play path answer on the tables what they answer on
  the tables without the unpublished rows, so that no response tells a draft from a Project
  that does not exist.\<close>

theorem drafts_invisible:
  "project_by_slug_handler u name slug fault (db\<lparr>db_projects := filter pr_published (db_projects db)\<rparr>)
     = project_by_slug_handler u name slug fault db
   \<and> portfolio_handler u name fault fault2 (db\<lparr>db_projects := filter pr_published (db_projects db)\<rparr>)
     = portfolio_handler u name fault fault2 db
   \<and> database_source cd fault (db\<lparr>db_projects := filter pr_published (db_projects db)\<rparr>) pid
     = database_source cd fault db pid"
proof -
  let ?pub = "db\<lparr>db_projects := filter pr_published (db_projects db)\<rparr>"
  have names: "has_username ?pub = has_username db" by (simp add: fun_eq_iff has_username_def)
  have "get_published_by_slug fault x y ?pub = get_published_by_slug fault x y db" for x y
  proof -
    have "List.find (\<lambda>p. has_username db x (pr_owner p) \<and> pr_slug p = Some y \<and> pr_published p) (db_projects ?pub)
        = List.find (\<lambda>p. has_username db x (pr_owner p) \<and> pr_slug p = Some y \<and> pr_published p) (db_projects db)"
      by (simp, rule find_filter) simp
    then show ?thesis by (simp only: get_published_by_slug_def names select_row_def)
  qed
  moreover have "get_published_project fault pid ?pub = get_published_project fault pid db"
  proof -
    have "List.find (\<lambda>p. same_uuid (pr_id p) pid \<and> pr_published p) (db_projects ?pub)
        = List.find (\<lambda>p. same_uuid (pr_id p) pid \<and> pr_published p) (db_projects db)"
      by (simp, rule find_filter) simp
    then show ?thesis by (simp only: get_published_project_def select_row_def)
  qed
  moreover have "list_published_by_username fault2 x ?pub = list_published_by_username fault2 x db" for x
    unfolding list_published_by_username_def names by (simp add: filter_filter) (meson)
  moreover have "owner_by_username fault x ?pub = owner_by_username fault x db" for x
    by (simp add: owner_by_username_def owner_by_def)
  ultimately show ?thesis
    unfolding project_by_slug_handler_def portfolio_handler_def database_source_def Let_def
    by (simp only: simp_thms)
qed

text \<open>C20: what cannot change the version a Guest plays. A build that fails, or that a shutdown cancels, the
  recovery sweep, and the start of a rebuild each leave the answer of the play-path source alone, for
  every Project: the last published version stays live, at its commits.\<close>

theorem failed_build_keeps_version:
  "database_source cd fl (settle_build cd job (Err e) cancelled fault fault2 now db) pid = database_source cd fl db pid
   \<and> database_source cd fl (reap_once sc fault now per grace db) pid = database_source cd fl db pid
   \<and> database_source cd fl (fst (start_build fault now ow pid' db)) pid = database_source cd fl db pid"
  by (simp add: settle_build_def reap_once_def mark_build_failed_played reclaim_played start_build_played Let_def)

lemma owned_row:
  assumes "get_owner_project False ow pid db = Ok p"
  obtains r where "r \<in> set (db_projects db)" "owned ow pid r" "p = scan_project r"
  using assms by (auto simp: get_owner_project_def dest: select_row_Some split: if_splits option.splits)

text \<open>The one row a published Project's id names, after the update of the Owner's row.\<close>

lemma select_published_row:
  assumes db: "database_ok db" and r: "r \<in> set (db_projects db)" "owned ow (pr_id r) r"
    and f: "\<And>q. pr_id (f q) = pr_id q \<and> pr_published (f q)"
  shows "select_row (\<lambda>q. same_uuid (pr_id q) (pr_id r) \<and> pr_published q)
           (update_rows (owned ow (pr_id r)) f (db_projects db)) = Some (f r)"
proof -
  let ?P = "\<lambda>q. same_uuid (pr_id q) (pr_id r) \<and> pr_published q"
  let ?rows = "update_rows (owned ow (pr_id r)) f (db_projects db)"
  have in_rows: "f r \<in> set ?rows" using r by (auto simp: set_update_rows)
  moreover have "?P (f r)" using f by (simp add: same_uuid_def)
  ultimately have "select_row ?P ?rows \<noteq> None" unfolding select_row_None by blast
  then obtain q where q: "select_row ?P ?rows = Some q" by blast
  from select_row_Some [OF q] obtain t where t: "t \<in> set (db_projects db)"
      "q = (if owned ow (pr_id r) t then f t else t)" "same_uuid (pr_id q) (pr_id r)"
    by (auto simp: set_update_rows)
  have "project_key t = project_key r"
    using t(2,3) f by (auto simp: same_uuid_def project_key_def split: if_splits)
  then have "t = r" using db t(1) r(1)
    by (auto simp: database_ok_def projects_ok_def distinct_map inj_on_def)
  with q t(2) r(2) show ?thesis by simp
qed

text \<open>When the build of an Owner's Project settles, the play-path source answers the manifest that was built,
  pinned to the commit of every service that was built, under the headline commit, with no image
  filled in yet.\<close>

lemma settled_build_plays:
  assumes "database_ok db" "get_owner_project False ow pid db = Ok p" "match_string uuid_re (sp_id p)"
    and "cd_decode cd (sp_manifest p) = Some m" "cd_decode_commits cd (cd_encode_commits cd commits) = Some commits"
  shows "database_source cd False
           (settle_build cd \<lparr>bj_owner = ow, bj_login = login, bj_project = sp_id p, bj_manifest = m\<rparr>
              (Ok commits) cancelled False fault2 now db) (sp_id p)
       = Ok \<lparr>pj_manifest = m, pj_images = Map.empty, pj_commit = headline_commit m commits, pj_commits = commits\<rparr>"
proof -
  from assms(2) obtain r where r: "r \<in> set (db_projects db)" "owned ow pid r" "p = scan_project r"
    by (rule owned_row)
  then have own: "owned ow (pr_id r) r" and id: "sp_id p = pr_id r"
    by (simp_all add: owned_def same_uuid_def scan_project_def)
  define f where "f = (\<lambda>q :: 'a project_row. q\<lparr>pr_published := True, pr_state := Published, pr_error := None,
      pr_commit := Some (headline_commit m commits), pr_commits := Some (cd_encode_commits cd commits), pr_updated := now\<rparr>)"
  have "select_row (\<lambda>q. same_uuid (pr_id q) (pr_id r) \<and> pr_published q)
      (update_rows (owned ow (pr_id r)) f (db_projects db)) = Some (f r)"
    by (rule select_published_row [OF assms(1) r(1) own]) (simp add: f_def)
  moreover have "list_ex (owned ow (pr_id r)) (db_projects db)"
    using r(1) own by (auto simp: list_ex_iff)
  ultimately have "get_published_project False (pr_id r)
      (fst (publish_project False now ow (pr_id r) (headline_commit m commits) (Some (cd_encode_commits cd commits)) db))
      = Ok (scan_project (f r))"
    using assms(3) id by (simp add: get_published_project_def publish_project_def f_def)
  moreover have "snd (publish_project False now ow (pr_id r) (headline_commit m commits) (Some (cd_encode_commits cd commits)) db) = Ok ()"
    using assms(3) id \<open>list_ex (owned ow (pr_id r)) (db_projects db)\<close> by (simp add: publish_project_def)
  ultimately show ?thesis
    using assms(4,5) r(3) id
    by (auto simp: settle_build_def database_source_def scan_project_def coalesce_def f_def
        split: prod.splits)
qed

lemma form_rename: "f = g\<lparr>fm_name := fm_name f\<rparr> \<Longrightarrow> g\<lparr>fm_name := n\<rparr> = f\<lparr>fm_name := n\<rparr>" for f g :: form
  by (cases f; cases g) simp

lemma decode_project_form_Err: "decode_project_form u cd decoded = Err (code, b) \<Longrightarrow> code = 400 \<or> code = 500"
  by (auto simp: decode_project_form_def reply_defs Let_def split: option.splits if_splits sum.splits)

text \<open>What the API echoes is what was submitted. A 201 answer shows the Project as a draft, with the
  submitted form under the trimmed name, so that the edit page can send it back; the form maps to a
  manifest the run contract accepts, and the name is between 1 and 100 characters.\<close>

theorem created_project_echoes_form:
  assumes "create_handler u cd who decoded fault now minted db = (db', 201, ProjectBody v)"
    and "\<And>m j. cd_encode cd m = Some j \<Longrightarrow> cd_decode cd j = Some m"
  shows "\<exists>f m. decoded = Some f \<and> to_manifest f = Ok m \<and> validate u m = []
     \<and> vw_manifest v = Some (f\<lparr>fm_name := trim_space (fm_name f)\<rparr>) \<and> vw_name v = trim_space (fm_name f)
     \<and> vw_name v \<noteq> '''' \<and> rune_count (vw_name v) \<le> 100
     \<and> vw_id v = minted \<and> \<not> vw_published v \<and> vw_state v = Idle"
proof -
  from assms(1) obtain owner name j p where o: "who = Some owner"
      and d: "decode_project_form u cd decoded = Ok (name, j)"
      and c: "create_project fault now minted (ow_id owner) name j db = (db', Ok p)" and v: "v = project_view cd p"
    by (auto simp: create_handler_def reply_defs split: option.splits sum.splits prod.splits store_err.splits
        dest: decode_project_form_Err)
  from d obtain f m where f: "decoded = Some f" "name = trim_space (fm_name f)" "name \<noteq> ''''"
      "rune_count name \<le> max_name_len" "to_manifest f = Ok m" "validate u m = []" "cd_encode cd m = Some j"
    by (auto simp: decode_project_form_def Let_def not_less split: option.splits if_splits sum.splits)
  from c have p: "sp_id p = minted" "sp_name p = name" "sp_manifest p = j" "\<not> sp_published p" "sp_state p = Idle"
    by (auto simp: create_project_def scan_project_def Let_def split: if_splits)
  from f(5) have "f = (form_from_manifest m)\<lparr>fm_name := fm_name f\<rparr>" using to_manifest_iff by blast
  then have "(form_from_manifest m)\<lparr>fm_name := name\<rparr> = f\<lparr>fm_name := name\<rparr>" by (rule form_rename)
  with f p v assms(2) [OF f(7)] show ?thesis
    by (auto simp: project_view_def max_name_len_def)
qed

section \<open>Samples\<close>

type_synonym sample_doc = "manifest + (string \<rightharpoonup> string)"

definition sample_codec :: "sample_doc codec" where
  "sample_codec =
     \<lparr>cd_encode = (\<lambda>m. Some (Inl m)), cd_decode = (\<lambda>j. case j of Inl m \<Rightarrow> Some m | Inr _ \<Rightarrow> None),
      cd_encode_commits = Inr, cd_decode_commits = (\<lambda>j. case j of Inr c \<Rightarrow> Some c | Inl _ \<Rightarrow> None)\<rparr>"

definition sample_manifest :: manifest where
  "sample_manifest =
     \<lparr>m_services = [\<lparr>svc_name = ''web'', svc_repo = reference ''GitHub.com/'' ''octo'' ''web'' ''.git/'',
        svc_dockerfile = ''Dockerfile'', svc_port = 8080, svc_role = role_ui, svc_prefix = '''', svc_healthcheck = []\<rparr>],
      m_db = None, m_env = [], m_seed = None, m_egress = []\<rparr>"

definition sample_project_row :: "sample_doc project_row" where
  "sample_project_row =
     \<lparr>pr_id = sample_uuid, pr_owner = 1, pr_name = ''blog'', pr_manifest = Inl sample_manifest, pr_published = False,
      pr_commit = None, pr_state = Idle, pr_error = None, pr_started = None, pr_commits = None, pr_slug = None,
      pr_created = 10, pr_updated = 10\<rparr>"

definition sample_db :: "sample_doc database" where
  "sample_db = store_run [OpUpsertOwner False 7 ''octo'', OpCreate False 10 sample_uuid 1 ''blog'' (Inl sample_manifest)]"

lemma sample_db_ok: "database_ok sample_db"
  unfolding sample_db_def by (rule store_run_ok)

lemma sample_db_projects: "db_projects sample_db = [sample_project_row]"
  by (simp add: sample_db_def store_run_def empty_database_def upsert_owner_def create_project_def select_row_def
      Let_def sample_project_row_def)

definition sample_owner :: owner where
  "sample_owner = \<lparr>ow_id = 1, ow_github = 7, ow_login = ''octo'', ow_username = ''''\<rparr>"

lemma sample_owned: "owned 1 sample_uuid sample_project_row"
  by (simp add: owned_def same_uuid_def sample_project_row_def)

lemma sample_get: "get_owner_project False 1 sample_uuid sample_db = Ok (scan_project sample_project_row)"
  by (simp add: get_owner_project_def sample_uuid sample_db_projects select_row_def sample_owned)

lemma sample_services_allowed:
  "check_repo_access sample_unicode None ''octo'' sample_manifest n = (n, None)"
  using parse_repo_reference [OF sample_pair sample_shape(2,1), of sample_unicode]
  by (simp add: check_repo_access_def sample_manifest_def)

lemma publish_gate_witness:
  "\<exists>db' v. publish_handler sample_unicode sample_codec True None (Some sample_owner) sample_uuid False False 20 sample_db ()
     = (db', (), (202, ProjectBody v), Some \<lparr>bj_owner = 1, bj_login = ''octo'', bj_project = sample_uuid, bj_manifest = sample_manifest\<rparr>)
     \<and> snd (start_build False 30 1 sample_uuid db') = Err BuildInProgress"
proof -
  let ?h = "publish_handler sample_unicode sample_codec True None (Some sample_owner) sample_uuid False False 20 sample_db ()"
  obtain db1 where start: "start_build False 20 1 sample_uuid sample_db
      = (db1, Ok (scan_project (start_row 20 sample_project_row)))"
    by (simp add: start_build_def sample_uuid sample_db_projects select_row_def sample_owned Let_def)
      (simp add: sample_project_row_def)
  let ?job = "\<lparr>bj_owner = 1, bj_login = ''octo'', bj_project = sample_uuid, bj_manifest = sample_manifest\<rparr>"
  have "sp_id (scan_project sample_project_row) = sample_uuid" "sp_manifest (scan_project sample_project_row) = Inl sample_manifest"
    by (simp_all add: scan_project_def sample_project_row_def)
  then obtain db' v where h: "?h = (db', (), (202, ProjectBody v), Some ?job)"
    using start by (simp add: publish_handler_def sample_owner_def sample_get sample_codec_def sample_services_allowed
        split: prod.splits)
  from publish_gate [OF h, of 30] h show ?thesis by (auto simp: sample_owner_def)
qed

lemma sample_project_fields:
  "sp_id (scan_project sample_project_row) = sample_uuid" "sp_manifest (scan_project sample_project_row) = Inl sample_manifest"
  by (simp_all add: scan_project_def sample_project_row_def)

definition sample_form :: form where
  "sample_form = (form_from_manifest fixture_manifest)\<lparr>fm_name := ''demo''\<rparr>"

lemma created_project_echoes_form_witness:
  "\<exists>db' v. create_handler sample_unicode sample_codec (Some sample_owner) (Some sample_form) False 20
       ''0a1b2c3d-0000-4000-8000-00000000000b'' sample_db = (db', 201, ProjectBody v)
     \<and> vw_name v = ''demo'' \<and> vw_manifest v = Some sample_form"
proof -
  have trim: "trim_space ''demo'' = ''demo''" by code_simp
  have count: "rune_count ''demo'' = 4" by code_simp
  have env: "list_all env_source_ok (m_env fixture_manifest)"
    by (simp add: fixture_manifest_def env_source_ok_def)
  have form: "to_manifest sample_form = Ok fixture_manifest"
    using env by (simp add: to_manifest_iff sample_form_def)
  have decoded: "decode_project_form sample_unicode sample_codec (Some sample_form) = Ok (''demo'', Inl fixture_manifest)"
    using fixture_manifest_valid form
    by (simp add: decode_project_form_def sample_form_def trim count max_name_len_def sample_codec_def)
  have owner: "1 \<in> or_id ` set (db_owners sample_db)"
    by (simp add: sample_db_def store_run_def empty_database_def upsert_owner_def create_project_def select_row_def Let_def)
  obtain db' p where "create_project False 20 ''0a1b2c3d-0000-4000-8000-00000000000b'' 1 ''demo'' (Inl fixture_manifest) sample_db = (db', Ok p)"
    using owner by (simp add: create_project_def sample_db_projects sample_project_row_def same_uuid_def sample_uuid_def
        lower_byte_def is_upper_def byte_def Let_def)
  then obtain v where c: "create_handler sample_unicode sample_codec (Some sample_owner) (Some sample_form) False 20
       ''0a1b2c3d-0000-4000-8000-00000000000b'' sample_db = (db', 201, ProjectBody v)"
    by (simp add: create_handler_def decoded sample_owner_def)
  have name: "fm_name sample_form = ''demo''" by (simp add: sample_form_def)
  then have same: "sample_form\<lparr>fm_name := ''demo''\<rparr> = sample_form" by simp
  from created_project_echoes_form [OF c] have "vw_name v = ''demo'' \<and> vw_manifest v = Some sample_form"
    by (auto simp: sample_codec_def name trim same)
  with c show ?thesis by blast
qed

end
