(* ===== verification/Auth.thy ===== *)
theory Auth
  imports ProjectApi
begin

text \<open>
  Owner sign-in (\<open>internal/auth\<close>): the handlers of \<open>auth.go\<close> and \<open>username.go\<close> over the tables
  of the store, and the GitHub provider of \<open>provider.go\<close> over a network of any type. SHA-256, the random
  bytes of a token, the clock, the faults of the statements and the JSON decoders are parameters. Times
  count nanoseconds.
\<close>

section \<open>Cookies and tokens\<close>

record cookie =
  ck_name :: string
  ck_value :: string
  ck_path :: string
  ck_max_age :: int
  ck_http_only :: bool
  ck_secure :: bool
  ck_same_site :: string

definition session_cookie :: string where
  "session_cookie = ''sid''"

definition state_cookie :: string where
  "state_cookie = ''showcase_oauth_state''"

definition session_ttl :: int where
  "session_ttl = 30 * 24 * 3600 * nanos"

definition state_ttl :: int where
  "state_ttl = 10 * 60 * nanos"

definition set_cookie :: "bool \<Rightarrow> string \<Rightarrow> string \<Rightarrow> int \<Rightarrow> cookie" where
  "set_cookie secure name v ttl =
     \<lparr>ck_name = name, ck_value = v, ck_path = ''/'', ck_max_age = ttl div nanos, ck_http_only = True,
      ck_secure = secure, ck_same_site = ''Lax''\<rparr>"

definition clear_cookie :: "bool \<Rightarrow> string \<Rightarrow> cookie" where
  "clear_cookie secure name =
     \<lparr>ck_name = name, ck_value = '''', ck_path = ''/'', ck_max_age = -1, ck_http_only = True,
      ck_secure = secure, ck_same_site = ''Lax''\<rparr>"

definition new_token :: "string option \<Rightarrow> string option" where
  "new_token rnd = map_option hex_encode rnd"

definition hash_token :: "(string \<Rightarrow> string) \<Rightarrow> string \<Rightarrow> string" where
  "hash_token sha256 token = hex_encode (sha256 token)"

section \<open>The handlers\<close>

record github_user =
  gu_id :: int
  gu_login :: string

record ('n, 'e) provider =
  pv_auth_url :: "string \<Rightarrow> string"
  pv_exchange :: "string \<Rightarrow> 'n \<Rightarrow> 'n \<times> ('e, github_user) result"

text \<open>A response: the status, the cookies it sets in order, where it redirects, and its body.\<close>

datatype auth_body = PlainText string | NoBody | MeBody string string | UsernameBody string | NameErr name_err

record auth_reply =
  ar_status :: int
  ar_cookies :: "cookie list"
  ar_location :: "string option"
  ar_body :: auth_body

definition refuse :: "int \<Rightarrow> cookie list \<Rightarrow> string \<Rightarrow> auth_reply" where
  "refuse code cookies msg = \<lparr>ar_status = code, ar_cookies = cookies, ar_location = None, ar_body = PlainText msg\<rparr>"

definition redirect :: "int \<Rightarrow> cookie list \<Rightarrow> string \<Rightarrow> auth_reply" where
  "redirect code cookies loc = \<lparr>ar_status = code, ar_cookies = cookies, ar_location = Some loc, ar_body = NoBody\<rparr>"

definition login :: "('n, 'e) provider option \<Rightarrow> bool \<Rightarrow> string option \<Rightarrow> auth_reply" where
  "login pv secure rnd =
     (case pv of
        None \<Rightarrow> refuse 501 [] ''sign-in is not configured''
      | Some p \<Rightarrow>
          (case new_token rnd of
             None \<Rightarrow> refuse 500 [] ''internal error''
           | Some state \<Rightarrow> redirect 302 [set_cookie secure state_cookie state state_ttl] (pv_auth_url p state)))"

text \<open>What a request carries: its cookies and the values of its query (empty when absent).\<close>

record auth_request =
  aq_cookies :: "string \<rightharpoonup> string"
  aq_query :: "string \<Rightarrow> string"

definition callback ::
    "('n, 'e) provider option \<Rightarrow> bool \<Rightarrow> (string \<Rightarrow> string) \<Rightarrow> auth_request \<Rightarrow> string option \<Rightarrow> int \<Rightarrow> bool \<Rightarrow> bool
       \<Rightarrow> 'j database \<Rightarrow> 'n \<Rightarrow> 'j database \<times> 'n \<times> auth_reply" where
  "callback pv secure sha256 rq rnd now fault fault2 db n =
     (case pv of
        None \<Rightarrow> (db, n, refuse 501 [] ''sign-in is not configured'')
      | Some p \<Rightarrow>
          (if (case aq_cookies rq state_cookie of None \<Rightarrow> True | Some v \<Rightarrow> v = '''' \<or> v \<noteq> aq_query rq ''state'')
           then (db, n, refuse 400 [] ''invalid OAuth state'')
           else
             (let cleared = [clear_cookie secure state_cookie]
              in if aq_query rq ''error'' \<noteq> ''''
                 then (db, n, refuse 400 cleared ''github sign-in was denied or failed'')
                 else if aq_query rq ''code'' = '''' then (db, n, refuse 400 cleared ''missing code'')
                 else case pv_exchange p (aq_query rq ''code'') n of
                        (n', Inl e) \<Rightarrow> (db, n', refuse 502 cleared ''github sign-in failed'')
                      | (n', Inr user) \<Rightarrow>
                          (case upsert_owner fault (gu_id user) (gu_login user) db of
                             (db1, Inl e) \<Rightarrow> (db1, n', refuse 500 cleared ''internal error'')
                           | (db1, Inr owner) \<Rightarrow>
                               (case new_token rnd of
                                  None \<Rightarrow> (db1, n', refuse 500 cleared ''internal error'')
                                | Some token \<Rightarrow>
                                    (case create_login_session fault2 (hash_token sha256 token) (ow_id owner)
                                            (now + session_ttl) db1 of
                                       (db2, Inl e) \<Rightarrow> (db2, n', refuse 500 cleared ''internal error'')
                                     | (db2, Inr _) \<Rightarrow>
                                         (db2, n', redirect 303
                                            (cleared @ [set_cookie secure session_cookie token session_ttl]) ''/'')))))))"

definition logout ::
    "bool \<Rightarrow> (string \<Rightarrow> string) \<Rightarrow> auth_request \<Rightarrow> bool \<Rightarrow> 'j database \<Rightarrow> 'j database \<times> auth_reply" where
  "logout secure sha256 rq fault db =
     ((case aq_cookies rq session_cookie of
         None \<Rightarrow> db
       | Some v \<Rightarrow> if v \<noteq> '''' then fst (delete_login_session fault (hash_token sha256 v) db) else db),
      \<lparr>ar_status = 204, ar_cookies = [clear_cookie secure session_cookie], ar_location = None, ar_body = NoBody\<rparr>)"

definition current_owner ::
    "(string \<Rightarrow> string) \<Rightarrow> auth_request \<Rightarrow> bool \<Rightarrow> int \<Rightarrow> 'j database \<Rightarrow> owner option" where
  "current_owner sha256 rq fault now db =
     (case aq_cookies rq session_cookie of
        None \<Rightarrow> None
      | Some v \<Rightarrow>
          if v = '''' then None
          else (case owner_by_login_session fault now (hash_token sha256 v) db of
                  Inl _ \<Rightarrow> None
                | Inr owner \<Rightarrow> Some owner))"

definition me :: "(string \<Rightarrow> string) \<Rightarrow> auth_request \<Rightarrow> bool \<Rightarrow> int \<Rightarrow> 'j database \<Rightarrow> auth_reply" where
  "me sha256 rq fault now db =
     (case current_owner sha256 rq fault now db of
        None \<Rightarrow> refuse 401 [] ''not signed in''
      | Some owner \<Rightarrow>
          \<lparr>ar_status = 200, ar_cookies = [], ar_location = None, ar_body = MeBody (ow_login owner) (ow_username owner)\<rparr>)"

text \<open>The gate: the wrapped handler runs on the Owner in its context, and only then.\<close>

definition require_owner ::
    "(string \<Rightarrow> string) \<Rightarrow> auth_request \<Rightarrow> bool \<Rightarrow> int \<Rightarrow> 'j database \<Rightarrow> 'r \<Rightarrow> (owner option \<Rightarrow> 'r) \<Rightarrow> 'r" where
  "require_owner sha256 rq fault now db unauthorized handler =
     (case current_owner sha256 rq fault now db of
        None \<Rightarrow> unauthorized
      | Some owner \<Rightarrow> handler (Some owner))"

definition claim_username ::
    "unicode \<Rightarrow> owner option \<Rightarrow> string option \<Rightarrow> bool \<Rightarrow> 'j database \<Rightarrow> 'j database \<times> auth_reply" where
  "claim_username u who decoded fault db =
     (case who of
        None \<Rightarrow> (db, refuse 401 [] ''not signed in'')
      | Some owner \<Rightarrow>
          if ow_username owner \<noteq> '''' then (db, refuse 409 [] ''username already set'')
          else case decoded of
                 None \<Rightarrow> (db, refuse 400 [] ''invalid request body'')
               | Some raw \<Rightarrow>
                   (case canonical_username u raw of
                      Inl e \<Rightarrow> (db, \<lparr>ar_status = 400, ar_cookies = [], ar_location = None, ar_body = NameErr e\<rparr>)
                    | Inr username \<Rightarrow>
                        (case set_username fault (ow_id owner) username db of
                           (db', Inl UsernameTaken) \<Rightarrow> (db', refuse 409 [] ''username already taken'')
                         | (db', Inl _) \<Rightarrow> (db', refuse 500 [] ''internal error'')
                         | (db', Inr _) \<Rightarrow>
                             (db', \<lparr>ar_status = 200, ar_cookies = [], ar_location = None, ar_body = UsernameBody username\<rparr>))))"

section \<open>The GitHub provider\<close>

text \<open>\<open>url.QueryEscape\<close> and the encoding of a query with its keys in order.\<close>

definition query_safe :: "char \<Rightarrow> bool" where
  "query_safe c \<longleftrightarrow> alnum c \<or> c = CHR ''-'' \<or> c = CHR ''_'' \<or> c = CHR ''.'' \<or> c = CHR ''~''"

definition upper_hex :: "nat \<Rightarrow> char" where
  "upper_hex n = ''0123456789ABCDEF'' ! (n mod 16)"

definition query_escape :: "string \<Rightarrow> string" where
  "query_escape s =
     concat (map (\<lambda>c. if query_safe c then [c] else if c = CHR '' '' then ''+''
                      else [CHR ''%'', upper_hex (byte c div 16), upper_hex (byte c)]) s)"

definition encode_query :: "(string \<times> string) list \<Rightarrow> string" where
  "encode_query kvs = join (map (\<lambda>(k, v). query_escape k @ ''='' @ query_escape v) kvs) ''&''"

record github_app =
  ga_client_id :: string
  ga_client_secret :: string
  ga_callback_url :: string
  ga_auth_base :: string
  ga_api_base :: string

definition new_github_provider :: "string \<Rightarrow> string \<Rightarrow> string \<Rightarrow> github_app" where
  "new_github_provider client_id client_secret callback_url =
     \<lparr>ga_client_id = client_id, ga_client_secret = client_secret, ga_callback_url = callback_url,
      ga_auth_base = ''https://github.com'', ga_api_base = ''https://api.github.com''\<rparr>"

definition auth_url :: "github_app \<Rightarrow> string \<Rightarrow> string" where
  "auth_url ga state =
     ga_auth_base ga @ ''/login/oauth/authorize?''
     @ encode_query [(''client_id'', ga_client_id ga), (''redirect_uri'', ga_callback_url ga), (''state'', state)]"

record 'n oauth_env =
  oe_url_ok :: "string \<Rightarrow> bool"
  oe_do :: "http_request \<Rightarrow> 'n \<Rightarrow> 'n \<times> (string, http_response) result"
  oe_token :: "string \<Rightarrow> (string \<times> string \<times> string) option"
  oe_user :: "string \<Rightarrow> (int \<times> string) option"

datatype oauth_err =
    OAuthBadURL string
  | OAuthTransport string
  | OAuthStatus int
  | OAuthDecode
  | OAuthDenied string string
  | OAuthEmptyToken
  | OAuthMissingID

definition oauth_send :: "'n oauth_env \<Rightarrow> http_request \<Rightarrow> 'n \<Rightarrow> 'n \<times> (oauth_err, string) result" where
  "oauth_send oe rq n =
     (if \<not> oe_url_ok oe (hq_url rq) then (n, Err (OAuthBadURL (hq_url rq)))
      else case oe_do oe rq n of
             (n', Inl e) \<Rightarrow> (n', Err (OAuthTransport e))
           | (n', Inr rs) \<Rightarrow>
               if hr_status rs \<noteq> 200 then (n', Err (OAuthStatus (hr_status rs))) else (n', Ok (hr_body rs)))"

definition exchange_request :: "github_app \<Rightarrow> string \<Rightarrow> http_request" where
  "exchange_request ga code =
     \<lparr>hq_method = ''POST'', hq_url = ga_auth_base ga @ ''/login/oauth/access_token'',
      hq_headers = [(''Content-Type'', ''application/x-www-form-urlencoded''), (''Accept'', ''application/json'')],
      hq_body = encode_query [(''client_id'', ga_client_id ga), (''client_secret'', ga_client_secret ga),
                              (''code'', code), (''redirect_uri'', ga_callback_url ga)]\<rparr>"

definition exchange_code :: "'n oauth_env \<Rightarrow> github_app \<Rightarrow> string \<Rightarrow> 'n \<Rightarrow> 'n \<times> (oauth_err, string) result" where
  "exchange_code oe ga code n =
     (case oauth_send oe (exchange_request ga code) n of
        (n', Inl e) \<Rightarrow> (n', Err e)
      | (n', Inr b) \<Rightarrow>
          (case oe_token oe b of
             None \<Rightarrow> (n', Err OAuthDecode)
           | Some (token, err, description) \<Rightarrow>
               if err \<noteq> '''' then (n', Err (OAuthDenied err description))
               else if token = '''' then (n', Err OAuthEmptyToken)
               else (n', Ok token)))"

definition user_request :: "github_app \<Rightarrow> string \<Rightarrow> http_request" where
  "user_request ga token =
     \<lparr>hq_method = ''GET'', hq_url = ga_api_base ga @ ''/user'',
      hq_headers = [(''Authorization'', ''Bearer '' @ token), (''Accept'', ''application/vnd.github+json'')],
      hq_body = ''''\<rparr>"

definition fetch_user :: "'n oauth_env \<Rightarrow> github_app \<Rightarrow> string \<Rightarrow> 'n \<Rightarrow> 'n \<times> (oauth_err, github_user) result" where
  "fetch_user oe ga token n =
     (case oauth_send oe (user_request ga token) n of
        (n', Inl e) \<Rightarrow> (n', Err e)
      | (n', Inr b) \<Rightarrow>
          (case oe_user oe b of
             None \<Rightarrow> (n', Err OAuthDecode)
           | Some (i, lg) \<Rightarrow>
               if i = 0 then (n', Err OAuthMissingID) else (n', Ok \<lparr>gu_id = i, gu_login = lg\<rparr>)))"

definition exchange :: "'n oauth_env \<Rightarrow> github_app \<Rightarrow> string \<Rightarrow> 'n \<Rightarrow> 'n \<times> (oauth_err, github_user) result" where
  "exchange oe ga code n =
     (case exchange_code oe ga code n of
        (n', Inl e) \<Rightarrow> (n', Err e)
      | (n', Inr token) \<Rightarrow> fetch_user oe ga token n')"

definition github_provider :: "'n oauth_env \<Rightarrow> github_app \<Rightarrow> ('n, oauth_err) provider" where
  "github_provider oe ga = \<lparr>pv_auth_url = auth_url ga, pv_exchange = exchange oe ga\<rparr>"

section \<open>Rows of an Owner\<close>

lemma select_row_unique:
  assumes "x \<in> set rows" "P x" "\<And>y. y \<in> set rows \<Longrightarrow> P y \<Longrightarrow> y = x"
  shows "select_row P rows = Some x"
proof (cases "select_row P rows")
  case None
  with assms(1,2) show ?thesis unfolding select_row_None by blast
next
  case (Some y)
  from select_row_Some [OF this] assms(3) Some show ?thesis by blast
qed

lemma owner_row_unique:
  assumes "database_ok db" "r \<in> set (db_owners db)" "t \<in> set (db_owners db)" "or_id r = or_id t"
  shows "r = t"
  using assms by (auto simp: database_ok_def owners_ok_def distinct_map inj_on_def)

lemma owner_by_id_row:
  assumes "database_ok db" "r \<in> set (db_owners db)"
  shows "owner_by_id False (or_id r) db = Ok (scan_owner r)"
proof -
  have "select_row (\<lambda>q. or_id q = or_id r) (db_owners db) = Some r"
    using assms owner_row_unique by (intro select_row_unique) blast+
  then show ?thesis by (simp add: owner_by_id_def owner_by_def)
qed

lemma owner_by_id_Ok:
  assumes "owner_by_id False i db = Ok ow"
  obtains r where "r \<in> set (db_owners db)" "or_id r = i" "ow = scan_owner r"
  using assms by (auto simp: owner_by_id_def owner_by_def dest: select_row_Some split: option.splits)

lemma upsert_owner_row:
  assumes "upsert_owner fault gid lg db = (db1, Ok ow)"
  obtains r where "r \<in> set (db_owners db1)" "ow = scan_owner r" "or_github r = gid" "or_login r = lg"
    "db_logins db1 = db_logins db"
proof (cases "select_row (\<lambda>r. or_github r = gid) (db_owners db)")
  case None
  with assms that [of "\<lparr>or_id = db_next_owner db, or_github = gid, or_login = lg, or_username = None\<rparr>"]
  show ?thesis by (auto simp: upsert_owner_def Let_def split: if_splits)
next
  case (Some r)
  from select_row_Some [OF this] have r: "r \<in> set (db_owners db)" "or_github r = gid" by blast+
  from Some assms have ow: "ow = scan_owner (r\<lparr>or_login := lg\<rparr>)"
    and db1: "db1 = db\<lparr>db_owners := update_rows (\<lambda>r. or_github r = gid) (\<lambda>r. r\<lparr>or_login := lg\<rparr>) (db_owners db)\<rparr>"
    by (auto simp: upsert_owner_def split: if_splits)
  have "r\<lparr>or_login := lg\<rparr> \<in> set (db_owners db1)"
    using r unfolding db1 by (auto simp: set_update_rows)
  with that [of "r\<lparr>or_login := lg\<rparr>"] ow db1 r show ?thesis by simp
qed

lemma upsert_owner_logins: "upsert_owner fault gid lg db = (db1, res) \<Longrightarrow> db_logins db1 = db_logins db"
  by (auto simp: upsert_owner_def Let_def split: if_splits option.splits)

lemma create_login_session_Ok:
  assumes "create_login_session fault tok i ex db = (db', Ok x)"
  shows "db_logins db' = db_logins db @ [\<lparr>lr_token = tok, lr_owner = i, lr_expires = ex\<rparr>]"
    "db_owners db' = db_owners db" "\<And>l. l \<in> set (db_logins db) \<Longrightarrow> lr_token l \<noteq> tok"
  using assms by (auto simp: create_login_session_def list_ex_iff split: if_splits)

lemma create_login_session_Err: "create_login_session fault tok i ex db = (db', Err x) \<Longrightarrow> db' = db"
  by (auto simp: create_login_session_def split: if_splits)

section \<open>Signing in\<close>

text \<open>The shape of a callback that signs an Owner in.\<close>

lemma callback_signs_in:
  assumes "callback pv secure sha256 rq rnd now fault fault2 db n = (db', n', r)" "ar_status r = 303"
  obtains p v user token ow db1 where "pv = Some p"
    "aq_cookies rq state_cookie = Some v" "v \<noteq> ''''" "v = aq_query rq ''state''"
    "aq_query rq ''error'' = ''''" "aq_query rq ''code'' \<noteq> ''''"
    "pv_exchange p (aq_query rq ''code'') n = (n', Ok user)"
    "upsert_owner fault (gu_id user) (gu_login user) db = (db1, Ok ow)" "new_token rnd = Some token"
    "create_login_session fault2 (hash_token sha256 token) (ow_id ow) (now + session_ttl) db1 = (db', Ok ())"
    "r = redirect 303 [clear_cookie secure state_cookie, set_cookie secure session_cookie token session_ttl] ''/''"
  using assms
  by (auto simp: callback_def Let_def refuse_def split: option.splits if_splits sum.splits prod.splits)

lemma callback_refuses:
  assumes "callback pv secure sha256 rq rnd now fault fault2 db n = (db', n', r)" "ar_status r \<noteq> 303"
  shows "db_logins db' = db_logins db \<and> session_cookie \<notin> ck_name ` set (ar_cookies r)"
  using assms
  by (auto simp: callback_def Let_def refuse_def redirect_def clear_cookie_def state_cookie_def session_cookie_def
      split: option.splits if_splits sum.splits prod.splits
      dest!: upsert_owner_logins create_login_session_Err)

definition with_session :: "string \<Rightarrow> auth_request" where
  "with_session token = \<lparr>aq_cookies = [session_cookie \<mapsto> token], aq_query = (\<lambda>k. '''')\<rparr>"

lemma current_owner_session:
  assumes "token \<noteq> ''''" "filter (\<lambda>l. lr_token l = hash_token sha256 token) (db_logins db) = [l]"
  shows "current_owner sha256 (with_session token) False t db =
    (if t < lr_expires l then (case owner_by_id False (lr_owner l) db of Inl _ \<Rightarrow> None | Inr ow \<Rightarrow> Some ow) else None)"
proof -
  have l: "l \<in> set (db_logins db)" "lr_token l = hash_token sha256 token"
    "\<And>k. k \<in> set (db_logins db) \<Longrightarrow> lr_token k = hash_token sha256 token \<Longrightarrow> k = l"
  proof -
    have "x \<in> set (db_logins db) \<and> lr_token x = hash_token sha256 token \<longleftrightarrow> x = l" for x
      using arg_cong [OF assms(2), of "\<lambda>ls. x \<in> set ls"] by auto
    then show "l \<in> set (db_logins db)" "lr_token l = hash_token sha256 token"
      "\<And>k. k \<in> set (db_logins db) \<Longrightarrow> lr_token k = hash_token sha256 token \<Longrightarrow> k = l"
      by blast+
  qed
  have "select_row (\<lambda>l. lr_token l = hash_token sha256 token \<and> t < lr_expires l) (db_logins db)
      = (if t < lr_expires l then Some l else None)"
  proof (cases "t < lr_expires l")
    case True
    with l have "select_row (\<lambda>l. lr_token l = hash_token sha256 token \<and> t < lr_expires l) (db_logins db) = Some l"
      by (intro select_row_unique) blast+
    with True show ?thesis by simp
  next
    case False
    with l(3) have "select_row (\<lambda>l. lr_token l = hash_token sha256 token \<and> t < lr_expires l) (db_logins db) = None"
      unfolding select_row_None by blast
    with False show ?thesis by simp
  qed
  with assms(1) show ?thesis
    by (simp add: current_owner_def with_session_def owner_by_login_session_def)
qed

section \<open>Properties\<close>


lemma logged_out_is_nobody:
  assumes "tok \<noteq> ''''"
  shows "current_owner sha256 (with_session tok) False t (fst (logout secure sha256 (with_session tok) False db)) = None"
proof -
  let ?h = "hash_token sha256 tok"
  have "select_row (\<lambda>l. lr_token l = ?h \<and> t < lr_expires l) (filter (\<lambda>l. lr_token l \<noteq> ?h) (db_logins db)) = None"
    unfolding select_row_None by simp
  then show ?thesis
    using assms by (simp add: logout_def with_session_def delete_login_session_def current_owner_def
        owner_by_login_session_def)
qed

text \<open>C29: the life of a login session. After a callback that signs in, the cookie it set is the
  Owner with the GitHub user's id and login until thirty days later, and nobody from then on; once logged out with it,
  it is nobody at any time.\<close>

theorem login_session_life:
  assumes "callback (Some p) secure sha256 rq (Some rnd) now fault fault2 db n = (db', n', r)" "ar_status r = 303"
    and "database_ok db" "rnd \<noteq> ''''"
  shows "\<exists>user ow. pv_exchange p (aq_query rq ''code'') n = (n', Ok user)
     \<and> ow_github ow = gu_id user \<and> ow_login ow = gu_login user
     \<and> current_owner sha256 (with_session (hex_encode rnd)) False t db'
         = (if t < now + session_ttl then Some ow else None)
     \<and> current_owner sha256 (with_session (hex_encode rnd)) False t
           (fst (logout secure sha256 (with_session (hex_encode rnd)) False db')) = None"
proof -
  let ?tok = "hex_encode rnd"
  let ?h = "hash_token sha256 ?tok"
  obtain p' v user token ow db1 where "Some p = Some p'"
    "aq_cookies rq state_cookie = Some v" "v \<noteq> ''''" "v = aq_query rq ''state''"
    "aq_query rq ''error'' = ''''" "aq_query rq ''code'' \<noteq> ''''"
    "pv_exchange p' (aq_query rq ''code'') n = (n', Ok user)"
    "upsert_owner fault (gu_id user) (gu_login user) db = (db1, Ok ow)" "new_token (Some rnd) = Some token"
    "create_login_session fault2 (hash_token sha256 token) (ow_id ow) (now + session_ttl) db1 = (db', Ok ())"
    "r = redirect 303 [clear_cookie secure state_cookie, set_cookie secure session_cookie token session_ttl] ''/''"
    by (rule callback_signs_in [OF assms(1,2)])
  then have c: "pv_exchange p (aq_query rq ''code'') n = (n', Ok user)"
    "upsert_owner fault (gu_id user) (gu_login user) db = (db1, Ok ow)"
    "create_login_session fault2 ?h (ow_id ow) (now + session_ttl) db1 = (db', Ok ())"
    by (simp_all add: new_token_def)
  have tok: "?tok \<noteq> ''''" using assms(4) by (cases rnd) (simp_all add: hex_encode_def)
  from upsert_owner_row [OF c(2)] obtain row where row: "row \<in> set (db_owners db1)" "ow = scan_owner row"
      "or_github row = gu_id user" "or_login row = gu_login user"
    by blast
  note login = create_login_session_Ok [OF c(3)]
  let ?l = "\<lparr>lr_token = ?h, lr_owner = ow_id ow, lr_expires = now + session_ttl\<rparr>"
  have "database_ok db'"
    using upsert_owner_ok [OF assms(3), of fault "gu_id user" "gu_login user"] c(2)
      login_ops_ok(1) [of db1 fault2 ?h "ow_id ow" "now + session_ttl"] c(3) by simp
  then have owner: "owner_by_id False (ow_id ow) db' = Ok ow"
    using owner_by_id_row [of db' row] row login(2) by (simp add: scan_owner_def)
  have one: "filter (\<lambda>l. lr_token l = ?h) (db_logins db') = [?l]"
    using login(1,3) by (simp add: filter_empty_conv)
  have live: "current_owner sha256 (with_session ?tok) False t db' = (if t < now + session_ttl then Some ow else None)"
    using current_owner_session [OF tok one] owner by simp
  have "ow_github ow = gu_id user" "ow_login ow = gu_login user"
    using row by (simp_all add: scan_owner_def)
  then show ?thesis
    using c(1) live logged_out_is_nobody [OF tok] by (intro exI [of _ user] exI [of _ ow] conjI)
qed

text \<open>C30: a username is claimed once. A claim that succeeds gives the Owner the canonical form of the
  request, which is not reserved and under which the Owner is found from then on; and once the
  Owner has it, every further claim is refused (409) and changes nothing.\<close>

theorem username_claimed_once:
  assumes "database_ok db" "owner_by_id False i db = Ok ow"
    and "claim_username u (Some ow) decoded fault db = (db', r)" "ar_status r = 200"
  shows "\<exists>raw name ow'. decoded = Some raw \<and> canonical_username u raw = Ok name \<and> name \<notin> reserved_usernames
     \<and> owner_by_id False i db' = Ok ow' \<and> owner_by_username False name db' = Ok ow' \<and> ow_username ow' = name
     \<and> claim_username v (Some ow') decoded' fault' db' = (db', refuse 409 [] ''username already set'')"
proof -
  from assms(3,4) obtain raw name where c: "decoded = Some raw" "canonical_username u raw = Ok name"
      and s: "set_username fault (ow_id ow) name db = (db', Ok ())"
    by (auto simp: claim_username_def refuse_def split: option.splits if_splits sum.splits prod.splits store_err.splits)
  from assms(2) obtain row where row: "row \<in> set (db_owners db)" "or_id row = i" "ow = scan_owner row"
    by (rule owner_by_id_Ok)
  have name: "name \<noteq> ''''" "name \<notin> reserved_usernames"
  proof -
    from c(2) have "in_rx (hyphen_rx lower_alnum 1 38) name \<and> name \<notin> reserved_usernames"
      unfolding canonical_username_name canonical_name_Ok by blast
    then show "name \<noteq> ''''" "name \<notin> reserved_usernames"
      using in_hyphen_rx_imp(4) [of lower_alnum 1 38 name] by simp_all
  qed
  let ?row = "row\<lparr>or_username := Some name\<rparr>"
  have "ow_id ow = i" using row by (simp add: scan_owner_def)
  with s have "?row \<in> set (db_owners db')"
    using row by (auto simp: set_username_def set_update_rows split: if_splits)
  moreover have ok: "database_ok db'"
    using set_username_ok [OF assms(1), of fault "ow_id ow" name] s by simp
  ultimately have "owner_by_id False i db' = Ok (scan_owner ?row)"
    using owner_by_id_row [of db' ?row] row(2) by simp
  moreover have "select_row (\<lambda>q. or_username q = Some name) (db_owners db') = Some ?row"
  proof (rule select_row_unique)
    fix q assume "q \<in> set (db_owners db')" "or_username q = Some name"
    with ok \<open>?row \<in> set (db_owners db')\<close> have "or_id q = or_id ?row"
      by (intro db_ok_username [OF ok]) simp_all
    then show "q = ?row"
      by (rule owner_row_unique [OF ok \<open>q \<in> set (db_owners db')\<close> \<open>?row \<in> set (db_owners db')\<close>])
  qed (use \<open>?row \<in> set (db_owners db')\<close> in simp_all)
  then have "owner_by_username False name db' = Ok (scan_owner ?row)"
    by (simp add: owner_by_username_def owner_by_def)
  moreover have "ow_username (scan_owner ?row) = name" by (simp add: scan_owner_def coalesce_def)
  ultimately show ?thesis using c name
    by (intro exI [of _ raw] exI [of _ name] exI [of _ "scan_owner ?row"]) (simp add: claim_username_def)
qed

section \<open>Samples\<close>

definition sample_provider :: "(unit, unit) provider" where
  "sample_provider =
     \<lparr>pv_auth_url = (\<lambda>s. ''https://github.com/?state='' @ s),
      pv_exchange = (\<lambda>code n. (n, Ok \<lparr>gu_id = 7, gu_login = ''octo''\<rparr>))\<rparr>"

definition sample_callback :: auth_request where
  "sample_callback =
     \<lparr>aq_cookies = [state_cookie \<mapsto> ''s1''],
      aq_query = (\<lambda>k. if k = ''state'' then ''s1'' else if k = ''code'' then ''c1'' else '''')\<rparr>"

lemma sample_callback_303:
  "\<exists>db' r. callback (Some sample_provider) True id sample_callback (Some ''k'') 100 False False
      (empty_database :: string database) () = (db', (), r) \<and> ar_status r = 303"
  by (simp add: callback_def sample_callback_def sample_provider_def new_token_def upsert_owner_def empty_database_def
      select_row_def create_login_session_def Let_def scan_owner_def redirect_def)


lemma login_session_life_witness:
  "\<exists>db' r ow. callback (Some sample_provider) True id sample_callback (Some ''k'') 100 False False
      (empty_database :: string database) () = (db', (), r)
     \<and> ow_login ow = ''octo''
     \<and> current_owner id (with_session (hex_encode ''k'')) False 200 db' = Some ow"
proof -
  obtain db' r where c: "callback (Some sample_provider) True id sample_callback (Some ''k'') 100 False False
      (empty_database :: string database) () = (db', (), r)" "ar_status r = 303"
    using sample_callback_303 by blast
  have ne: "''k'' \<noteq> ''''" by simp
  from login_session_life [OF c db_ok_empty ne, of 200]
  obtain ow where "ow_login ow = ''octo''" "current_owner id (with_session (hex_encode ''k'')) False 200 db' = Some ow"
    by (auto simp: sample_provider_def session_ttl_def nanos_def)
  with c(1) show ?thesis by blast
qed

lemma username_claimed_once_witness:
  "\<exists>db' r. claim_username sample_unicode (Some sample_owner) (Some (padded_name 1 1)) False sample_db = (db', r)
     \<and> (\<exists>ow'. owner_by_username False (padded_name 1 1) db' = Ok ow')"
proof -
  have owner: "owner_by_id False 1 sample_db = Ok sample_owner"
    by (simp add: sample_db_def store_run_def empty_database_def upsert_owner_def create_project_def select_row_def Let_def
        owner_by_id_def owner_by_def scan_owner_def sample_owner_def coalesce_def)
  have owners: "db_owners sample_db = [\<lparr>or_id = 1, or_github = 7, or_login = ''octo'', or_username = None\<rparr>]"
    by (simp add: sample_db_def store_run_def empty_database_def upsert_owner_def create_project_def select_row_def Let_def)
  obtain db' r where c: "claim_username sample_unicode (Some sample_owner) (Some (padded_name 1 1)) False sample_db = (db', r)"
      "ar_status r = 200"
    by (simp add: claim_username_def sample_names sample_owner_def set_username_def owners del: One_nat_def)
  from username_claimed_once [OF sample_db_ok owner c, where v = sample_unicode and decoded' = None and fault' = False]
    sample_names(2) c(1)
  show ?thesis by auto
qed

end
