(* ===== verification/WebSystem.thy ===== *)
theory WebSystem
  imports Auth
begin

text \<open>
  The HTTP surface of the control plane: the routes of \<open>internal/server/server.go\<close>, liveness and
  readiness (\<open>internal/server/health.go\<close>), the single-page app (\<open>internal/web/web.go\<close>), and the
  whole of it as one step function over the tables, the network and the builds in flight. Playing a
  Session is the session manager's business and leaves this state alone.
\<close>

section \<open>Routes\<close>

datatype endpoint =
    Healthz | Readyz | PlaySession
  | LoginPage | LoginCallback | Logout | Me | ClaimName
  | CreateProject | ListProjects | GetProject string | UpdateProject string | SetSlug string
  | PublishProject string | PortfolioPage string | ProjectPage string string
  | SinglePageApp

datatype seg = Lit string | Wild

record pattern =
  pt_method :: string
  pt_segs :: "seg list"
  pt_endpoint :: "string list \<Rightarrow> endpoint"

definition pat :: "string \<Rightarrow> seg list \<Rightarrow> (string list \<Rightarrow> endpoint) \<Rightarrow> pattern" where
  "pat m segs h = \<lparr>pt_method = m, pt_segs = segs, pt_endpoint = h\<rparr>"

text \<open>The patterns \<open>New\<close> registers, by which of its optional arguments are there; the catch-all pattern
  is not in the list.\<close>

definition routes :: "bool \<Rightarrow> bool \<Rightarrow> bool \<Rightarrow> pattern list" where
  "routes play authn projects =
     [pat ''GET'' [Lit ''healthz''] (\<lambda>ws. Healthz), pat ''GET'' [Lit ''readyz''] (\<lambda>ws. Readyz)]
     @ (if play then [pat ''POST'' [Lit ''api'', Lit ''play''] (\<lambda>ws. PlaySession)] else [])
     @ (if authn then
          [pat ''GET'' [Lit ''login''] (\<lambda>ws. LoginPage),
           pat ''GET'' [Lit ''auth'', Lit ''github'', Lit ''callback''] (\<lambda>ws. LoginCallback),
           pat ''POST'' [Lit ''logout''] (\<lambda>ws. Logout),
           pat ''GET'' [Lit ''api'', Lit ''owner'', Lit ''me''] (\<lambda>ws. Me),
           pat ''POST'' [Lit ''api'', Lit ''owner'', Lit ''username''] (\<lambda>ws. ClaimName)]
          @ (if projects then
               [pat ''POST'' [Lit ''api'', Lit ''owner'', Lit ''projects''] (\<lambda>ws. CreateProject),
                pat ''GET'' [Lit ''api'', Lit ''owner'', Lit ''projects''] (\<lambda>ws. ListProjects),
                pat ''GET'' [Lit ''api'', Lit ''owner'', Lit ''projects'', Wild] (\<lambda>ws. GetProject (hd ws)),
                pat ''PUT'' [Lit ''api'', Lit ''owner'', Lit ''projects'', Wild] (\<lambda>ws. UpdateProject (hd ws)),
                pat ''PUT'' [Lit ''api'', Lit ''owner'', Lit ''projects'', Wild, Lit ''slug''] (\<lambda>ws. SetSlug (hd ws)),
                pat ''POST'' [Lit ''api'', Lit ''owner'', Lit ''projects'', Wild, Lit ''publish''] (\<lambda>ws. PublishProject (hd ws)),
                pat ''GET'' [Lit ''api'', Lit ''portfolio'', Wild] (\<lambda>ws. PortfolioPage (hd ws)),
                pat ''GET'' [Lit ''api'', Lit ''portfolio'', Wild, Wild] (\<lambda>ws. ProjectPage (hd ws) (ws ! 1))]
             else [])
        else [])"

text \<open>\<open>http.ServeMux\<close> on the decoded segments of a clean path: a wildcard is one segment that is not empty, and a
  \<open>GET\<close> pattern also serves \<open>HEAD\<close>. No two patterns of the table match one request, so the first is the
  most specific; what none matches, in method or path, the catch-all gets.\<close>

fun match_segs :: "seg list \<Rightarrow> string list \<Rightarrow> string list option" where
  "match_segs [] [] = Some []"
| "match_segs (Lit l # ps) (s # ss) = (if l = s then match_segs ps ss else None)"
| "match_segs (Wild # ps) (s # ss) = (if s = '''' then None else map_option ((#) s) (match_segs ps ss))"
| "match_segs ps ss = None"

definition method_ok :: "string \<Rightarrow> string \<Rightarrow> bool" where
  "method_ok m rq \<longleftrightarrow> m = rq \<or> m = ''GET'' \<and> rq = ''HEAD''"

fun route_of :: "pattern list \<Rightarrow> string \<Rightarrow> string list \<Rightarrow> endpoint" where
  "route_of [] m segs = SinglePageApp"
| "route_of (p # ps) m segs =
     (case (if method_ok (pt_method p) m then match_segs (pt_segs p) segs else None) of
        Some ws \<Rightarrow> pt_endpoint p ws
      | None \<Rightarrow> route_of ps m segs)"

section \<open>Health and the single-page app\<close>

datatype spa_page = AssetFile string | IndexPage string | PlaceholderPage

text \<open>The built files: what a path opens to (a regular file or not), and the index when it is there.\<close>

record site =
  si_open :: "string \<Rightarrow> bool option"
  si_index :: "string option"

definition spa_handler :: "site \<Rightarrow> string \<Rightarrow> spa_page" where
  "spa_handler si path =
     (let asset = trim_prefix path ''/''
      in if asset \<noteq> '''' \<and> si_open si asset = Some True then AssetFile asset
         else case si_index si of Some index \<Rightarrow> IndexPage index | None \<Rightarrow> PlaceholderPage)"

definition health_reply :: "int \<times> string" where
  "health_reply = (200, ''ok'')"

text \<open>The check is missing when persistence is not configured; otherwise it is whether the ping succeeded.\<close>

definition readiness :: "bool option \<Rightarrow> int \<times> string" where
  "readiness check = (case check of Some False \<Rightarrow> (503, ''unavailable'') | _ \<Rightarrow> (200, ''ready''))"

section \<open>One request\<close>

record ('j, 'n, 'e) web_env =
  we_unicode :: unicode
  we_codec :: "'j codec"
  we_sha256 :: "string \<Rightarrow> string"
  we_provider :: "('n, 'e) provider option"
  we_secure :: bool
  we_configured :: bool
  we_access :: "'n repo_access option"
  we_play :: bool
  we_authn :: bool
  we_projects :: bool
  we_site :: site

record web_request =
  wr_method :: string
  wr_path :: string
  wr_segs :: "string list"
  wr_auth :: auth_request
  wr_form :: "form option"
  wr_slug :: "string option"
  wr_username :: "string option"
  wr_ready :: "bool option"
  wr_now :: int
  wr_random :: "string option"
  wr_minted :: string
  wr_gate_fault :: bool
  wr_fault :: bool
  wr_fault2 :: bool

record ('j, 'n) web_state =
  ws_db :: "'j database"
  ws_net :: 'n
  ws_jobs :: "build_job list"

datatype web_reply = AuthReply auth_reply | ApiReply http_reply | StatusReply "int \<times> string" | SpaReply spa_page | PlayReply

definition with_db :: "('j, 'n) web_state \<Rightarrow> 'j database \<times> 'r \<Rightarrow> ('r \<Rightarrow> web_reply) \<Rightarrow> ('j, 'n) web_state \<times> web_reply" where
  "with_db st r wrap = (st\<lparr>ws_db := fst r\<rparr>, wrap (snd r))"

definition publish_request ::
    "('j, 'n, 'e) web_env \<Rightarrow> web_request \<Rightarrow> string \<Rightarrow> owner option \<Rightarrow> ('j, 'n) web_state \<Rightarrow> ('j, 'n) web_state \<times> web_reply" where
  "publish_request we rq pid who st =
     (case publish_handler (we_unicode we) (we_codec we) (we_configured we) (we_access we) who pid (wr_fault rq)
             (wr_fault2 rq) (wr_now rq) (ws_db st) (ws_net st) of
        (db', n', rep, launched) \<Rightarrow>
          (st\<lparr>ws_db := db', ws_net := n',
              ws_jobs := ws_jobs st @ (case launched of None \<Rightarrow> [] | Some job \<Rightarrow> [job])\<rparr>, ApiReply rep))"

text \<open>The handlers behind \<open>RequireOwner\<close>.\<close>

definition owner_request ::
    "('j, 'n, 'e) web_env \<Rightarrow> web_request \<Rightarrow> endpoint \<Rightarrow> owner option \<Rightarrow> ('j, 'n) web_state \<Rightarrow> ('j, 'n) web_state \<times> web_reply" where
  "owner_request we rq ep who st =
     (let u = we_unicode we; cd = we_codec we; db = ws_db st
      in case ep of
           ClaimName \<Rightarrow> with_db st (claim_username u who (wr_username rq) (wr_fault rq) db) AuthReply
         | CreateProject \<Rightarrow>
             with_db st (create_handler u cd who (wr_form rq) (wr_fault rq) (wr_now rq) (wr_minted rq) db) ApiReply
         | ListProjects \<Rightarrow> (st, ApiReply (list_handler cd who (wr_fault rq) db))
         | GetProject pid \<Rightarrow> (st, ApiReply (get_handler cd who pid (wr_fault rq) db))
         | UpdateProject pid \<Rightarrow>
             with_db st (update_handler u cd who pid (wr_form rq) (wr_fault rq) (wr_now rq) db) ApiReply
         | SetSlug pid \<Rightarrow>
             with_db st (set_slug_handler u cd who pid (wr_slug rq) (wr_fault rq) (wr_fault2 rq) (wr_now rq) db) ApiReply
         | PublishProject pid \<Rightarrow> publish_request we rq pid who st
         | _ \<Rightarrow> (st, SpaReply (spa_handler (we_site we) (wr_path rq))))"

definition who_asks :: "('j, 'n, 'e) web_env \<Rightarrow> web_request \<Rightarrow> ('j, 'n) web_state \<Rightarrow> owner option" where
  "who_asks we rq st = current_owner (we_sha256 we) (wr_auth rq) (wr_gate_fault rq) (wr_now rq) (ws_db st)"

definition serve ::
    "('j, 'n, 'e) web_env \<Rightarrow> web_request \<Rightarrow> ('j, 'n) web_state \<Rightarrow> ('j, 'n) web_state \<times> web_reply" where
  "serve we rq st =
     (let u = we_unicode we; db = ws_db st; aq = wr_auth rq;
          ep = route_of (routes (we_play we) (we_authn we) (we_projects we)) (wr_method rq) (wr_segs rq)
      in case ep of
           Healthz \<Rightarrow> (st, StatusReply health_reply)
         | Readyz \<Rightarrow> (st, StatusReply (readiness (wr_ready rq)))
         | PlaySession \<Rightarrow> (st, PlayReply)
         | LoginPage \<Rightarrow> (st, AuthReply (login (we_provider we) (we_secure we) (wr_random rq)))
         | LoginCallback \<Rightarrow>
             (case callback (we_provider we) (we_secure we) (we_sha256 we) aq (wr_random rq) (wr_now rq) (wr_fault rq)
                     (wr_fault2 rq) db (ws_net st) of
                (db', n', rep) \<Rightarrow> (st\<lparr>ws_db := db', ws_net := n'\<rparr>, AuthReply rep))
         | Logout \<Rightarrow> with_db st (logout (we_secure we) (we_sha256 we) aq (wr_fault rq) db) AuthReply
         | Me \<Rightarrow> (st, AuthReply (me (we_sha256 we) aq (wr_fault rq) (wr_now rq) db))
         | PortfolioPage name \<Rightarrow> (st, ApiReply (portfolio_handler u name (wr_fault rq) (wr_fault2 rq) db))
         | ProjectPage name slug \<Rightarrow> (st, ApiReply (project_by_slug_handler u name slug (wr_fault rq) db))
         | SinglePageApp \<Rightarrow> (st, SpaReply (spa_handler (we_site we) (wr_path rq)))
         | _ \<Rightarrow> require_owner (we_sha256 we) aq (wr_gate_fault rq) (wr_now rq) db
                  (st, AuthReply (refuse 401 [] ''not signed in'')) (\<lambda>who. owner_request we rq ep who st))"

section \<open>The control plane over time\<close>

text \<open>What happens to the state: a request, the end of a build in flight, the sweep of stranded builds, the
  hourly removal of expired logins.\<close>

datatype 'j web_event =
    Request web_request
  | BuildEnds nat "(publish_failure, string \<rightharpoonup> string) result" bool bool bool int
  | Sweep "'j \<Rightarrow> int option" bool int int int
  | PruneLogins bool int

fun web_step :: "('j, 'n, 'e) web_env \<Rightarrow> 'j web_event \<Rightarrow> ('j, 'n) web_state \<Rightarrow> ('j, 'n) web_state" where
  "web_step we (Request rq) st = fst (serve we rq st)"
| "web_step we (BuildEnds i outcome cancelled fault fault2 now) st =
     (if i < length (ws_jobs st)
      then st\<lparr>ws_db := settle_build (we_codec we) (ws_jobs st ! i) outcome cancelled fault fault2 now (ws_db st),
              ws_jobs := take i (ws_jobs st) @ drop (Suc i) (ws_jobs st)\<rparr>
      else st)"
| "web_step we (Sweep sc fault now per grace) st = st\<lparr>ws_db := reap_once sc fault now per grace (ws_db st)\<rparr>"
| "web_step we (PruneLogins fault now) st = st\<lparr>ws_db := fst (delete_expired_login_sessions fault now (ws_db st))\<rparr>"

definition web_start :: "'n \<Rightarrow> ('j, 'n) web_state" where
  "web_start n = \<lparr>ws_db = empty_database, ws_net = n, ws_jobs = []\<rparr>"

definition web_run :: "('j, 'n, 'e) web_env \<Rightarrow> 'n \<Rightarrow> 'j web_event list \<Rightarrow> ('j, 'n) web_state" where
  "web_run we n evs = foldl (\<lambda>st ev. web_step we ev st) (web_start n) evs"

section \<open>What an Owner's request can touch\<close>

text \<open>The rows of everybody but one Owner are the same rows in the same order.\<close>

definition others_kept :: "int \<Rightarrow> 'j database \<Rightarrow> 'j database \<Rightarrow> bool" where
  "others_kept i db db' \<longleftrightarrow>
     filter (\<lambda>p. pr_owner p \<noteq> i) (db_projects db') = filter (\<lambda>p. pr_owner p \<noteq> i) (db_projects db)"

lemma others_kept_refl [simp]: "others_kept i db db"
  by (simp add: others_kept_def)

lemma others_kept_same: "db_projects db' = db_projects db \<Longrightarrow> others_kept i db db'"
  by (simp add: others_kept_def)

lemma others_kept_update:
  assumes "\<And>p. P p \<Longrightarrow> pr_owner p = i" "\<And>p. pr_owner (f p) = pr_owner p"
  shows "others_kept i db (db\<lparr>db_projects := update_rows P f (db_projects db)\<rparr>)"
proof -
  have "filter (\<lambda>p. pr_owner p \<noteq> i) (map (\<lambda>p. if P p then f p else p) ps) = filter (\<lambda>p. pr_owner p \<noteq> i) ps" for ps
    using assms by (induction ps) auto
  then show ?thesis by (simp add: others_kept_def update_rows_def)
qed

lemma store_ops_others:
  "others_kept i db (fst (create_project fl now minted i name j db))"
  "others_kept i db (fst (update_project fl now i pid name j db))"
  "others_kept i db (fst (set_project_slug fl now i pid slug db))"
  "others_kept i db (fst (start_build fl now i pid db))"
  by (auto simp: create_project_def update_project_def set_project_slug_def start_build_def Let_def owned_def
      edit_row_def start_row_def intro!: others_kept_update split: option.split)
    (simp add: others_kept_def)

lemma other_ops_projects:
  "db_projects (fst (set_username fl i name db)) = db_projects db"
  "db_projects (fst (delete_login_session fl tok db)) = db_projects db"
  "db_projects (fst (create_login_session fl tok i ex db)) = db_projects db"
  "db_projects (fst (upsert_owner fl gid lg db)) = db_projects db"
  by (auto simp: set_username_def delete_login_session_def create_login_session_def upsert_owner_def Let_def
      split: option.split)

text \<open>Which store operation a handler leaves behind.\<close>

lemma create_handler_db:
  "fst (create_handler u cd (Some ow) decoded fl now minted db) = db
   \<or> (\<exists>name j. fst (create_handler u cd (Some ow) decoded fl now minted db)
        = fst (create_project fl now minted (ow_id ow) name j db))"
proof (cases "decode_project_form u cd decoded")
  case (Inr nj)
  obtain name j where nj: "nj = (name, j)" by (cases nj)
  obtain db' r where op: "create_project fl now minted (ow_id ow) name j db = (db', r)"
    by (cases "create_project fl now minted (ow_id ow) name j db")
  with Inr nj have "fst (create_handler u cd (Some ow) decoded fl now minted db) = db'"
    by (simp add: create_handler_def split: sum.split store_err.split)
  with op show ?thesis by (intro disjI2 exI [of _ name] exI [of _ j]) simp
qed (simp add: create_handler_def)

lemma update_handler_db:
  "fst (update_handler u cd (Some ow) pid decoded fl now db) = db
   \<or> (\<exists>name j. fst (update_handler u cd (Some ow) pid decoded fl now db)
        = fst (update_project fl now (ow_id ow) pid name j db))"
proof (cases "decode_project_form u cd decoded")
  case (Inr nj)
  obtain name j where nj: "nj = (name, j)" by (cases nj)
  obtain db' r where op: "update_project fl now (ow_id ow) pid name j db = (db', r)"
    by (cases "update_project fl now (ow_id ow) pid name j db")
  with Inr nj have "fst (update_handler u cd (Some ow) pid decoded fl now db) = db'"
    by (simp add: update_handler_def split: sum.split store_err.split)
  with op show ?thesis by (intro disjI2 exI [of _ name] exI [of _ j]) simp
qed (simp add: update_handler_def)

lemma set_slug_handler_db:
  "fst (set_slug_handler u cd (Some ow) pid decoded fl fl2 now db) = db
   \<or> (\<exists>slug. fst (set_slug_handler u cd (Some ow) pid decoded fl fl2 now db)
        = fst (set_project_slug fl now (ow_id ow) pid slug db))"
proof (cases decoded)
  case (Some slug)
  show ?thesis
  proof (cases "if trim_space slug \<noteq> '''' then canonical_slug u slug else Ok ''''")
    case (Inr canonical)
    obtain db' r where op: "set_project_slug fl now (ow_id ow) pid canonical db = (db', r)"
      by (cases "set_project_slug fl now (ow_id ow) pid canonical db")
    with Some Inr have "fst (set_slug_handler u cd (Some ow) pid decoded fl fl2 now db) = db'"
      by (simp add: set_slug_handler_def split: sum.split store_err.split del: if_split)
    with op show ?thesis by (intro disjI2 exI [of _ canonical]) simp
  qed (simp add: set_slug_handler_def Some del: if_split)
qed (simp add: set_slug_handler_def)

lemma claim_username_db:
  "fst (claim_username u (Some ow) decoded fl db) = db
   \<or> (\<exists>name. fst (claim_username u (Some ow) decoded fl db) = fst (set_username fl (ow_id ow) name db))"
proof (cases "\<exists>raw name. ow_username ow = '''' \<and> decoded = Some raw \<and> canonical_username u raw = Inr name")
  case True
  then obtain raw name where c: "ow_username ow = ''''" "decoded = Some raw" "canonical_username u raw = Inr name"
    by blast
  obtain db' r where op: "set_username fl (ow_id ow) name db = (db', r)"
    by (cases "set_username fl (ow_id ow) name db")
  with c have "fst (claim_username u (Some ow) decoded fl db) = db'"
    by (simp add: claim_username_def split: sum.split store_err.split)
  with op show ?thesis by (intro disjI2 exI [of _ name]) simp
qed (auto simp: claim_username_def split: option.split sum.split)

lemma publish_handler_db:
  "fst (publish_handler u cd conf acc who pid fl fl2 now db n) = db
   \<or> (\<exists>ow pid'. who = Some ow \<and> fst (publish_handler u cd conf acc who pid fl fl2 now db n)
        = fst (start_build fl2 now (ow_id ow) pid' db))"
proof -
  obtain db' n' c b l where h: "publish_handler u cd conf acc who pid fl fl2 now db n = (db', n', (c, b), l)"
    by (cases "publish_handler u cd conf acc who pid fl fl2 now db n") auto
  show ?thesis
  proof (cases l)
    case None
    with h publish_handler_no_job [of u cd conf acc who pid fl fl2 now db n db' n' c b] show ?thesis by simp
  next
    case (Some job)
    with h have h': "publish_handler u cd conf acc who pid fl fl2 now db n = (db', n', (c, b), Some job)" by simp
    show ?thesis
    proof (rule publish_handler_job [OF h'])
      fix owner p m started
      assume "who = Some owner" "start_build fl2 now (ow_id owner) (sp_id p) db = (db', Ok started)"
      with h show ?thesis by (intro disjI2 exI [of _ owner] exI [of _ "sp_id p"]) simp
    qed
  qed
qed

text \<open>The rows of everybody but the Owner a request comes from.\<close>

lemma owner_request_others:
  "others_kept (ow_id ow) (ws_db st) (ws_db (fst (owner_request we rq ep (Some ow) st)))"
proof (cases ep)
  case ClaimName
  then show ?thesis
    using claim_username_db [of "we_unicode we" ow "wr_username rq" "wr_fault rq" "ws_db st"]
    by (auto simp: owner_request_def with_db_def Let_def other_ops_projects intro: others_kept_same)
next
  case CreateProject
  then show ?thesis
    using create_handler_db [of "we_unicode we" "we_codec we" ow "wr_form rq" "wr_fault rq" "wr_now rq" "wr_minted rq" "ws_db st"]
    by (auto simp: owner_request_def with_db_def Let_def store_ops_others)
next
  case (UpdateProject pid)
  then show ?thesis
    using update_handler_db [of "we_unicode we" "we_codec we" ow pid "wr_form rq" "wr_fault rq" "wr_now rq" "ws_db st"]
    by (auto simp: owner_request_def with_db_def Let_def store_ops_others)
next
  case (SetSlug pid)
  then show ?thesis
    using set_slug_handler_db [of "we_unicode we" "we_codec we" ow pid "wr_slug rq" "wr_fault rq" "wr_fault2 rq" "wr_now rq" "ws_db st"]
    by (auto simp: owner_request_def with_db_def Let_def store_ops_others)
next
  case (PublishProject pid)
  then show ?thesis
    using publish_handler_db [of "we_unicode we" "we_codec we" "we_configured we" "we_access we" "Some ow" pid
        "wr_fault rq" "wr_fault2 rq" "wr_now rq" "ws_db st" "ws_net st"]
    by (auto simp: owner_request_def publish_request_def Let_def store_ops_others split: prod.split)
qed (simp_all add: owner_request_def Let_def)

lemma callback_projects:
  "db_projects (fst (callback pv secure sha aq rnd now fl fl2 db n)) = db_projects db"
proof -
  have up: "db_projects db1 = db_projects db" if "upsert_owner fl gid lg db = (db1, r)" for gid lg db1 r
    using that other_ops_projects(4) [of fl gid lg db] by simp
  have cr: "db_projects db2 = db_projects db1" if "create_login_session fl2 tok i ex db1 = (db2, r)" for tok i ex db1 db2 r
    using that other_ops_projects(3) [of fl2 tok i ex db1] by simp
  show ?thesis
    by (auto simp: callback_def Let_def split: option.split sum.split prod.split dest!: up cr)
qed

section \<open>What holds of every run\<close>

lemma endpoint_db_kept:
  "callback pv secure sha aq rnd now fl fl2 db n = (db', n', rep) \<Longrightarrow> db_projects db' = db_projects db"
  using callback_projects [of pv secure sha aq rnd now fl fl2 db n] by simp

lemma logout_projects: "db_projects (fst (logout secure sha aq fl db)) = db_projects db"
  by (auto simp: logout_def other_ops_projects split: option.split)

lemma gate_refuses:
  "who_asks we rq st = None \<Longrightarrow>
   require_owner (we_sha256 we) (wr_auth rq) (wr_gate_fault rq) (wr_now rq) (ws_db st) a h = a"
  by (simp add: require_owner_def who_asks_def)

lemma gate_passes:
  "who_asks we rq st = Some owner \<Longrightarrow>
   require_owner (we_sha256 we) (wr_auth rq) (wr_gate_fault rq) (wr_now rq) (ws_db st) a h = h (Some owner)"
  by (simp add: require_owner_def who_asks_def)

text \<open>C4: Owners are isolated. Whatever request is served, on whatever route, with whatever cookies, bodies and
  faults: without a live login it leaves every Project row as it was, and with one it
  leaves every row of everybody but the Owner of that login as it was, in the same order.\<close>

theorem request_isolated:
  "case who_asks we rq st of
     None \<Rightarrow> db_projects (ws_db (fst (serve we rq st))) = db_projects (ws_db st)
   | Some owner \<Rightarrow> others_kept (ow_id owner) (ws_db st) (ws_db (fst (serve we rq st)))"
proof (cases "who_asks we rq st")
  case None
  then show ?thesis
    by (simp add: serve_def Let_def with_db_def gate_refuses [OF None] logout_projects endpoint_db_kept
        split: endpoint.split prod.split)
next
  case (Some owner)
  then show ?thesis
    by (simp add: serve_def Let_def with_db_def gate_passes [OF Some] logout_projects endpoint_db_kept
        owner_request_others others_kept_same split: endpoint.split prod.split)
qed

lemma route_of_method:
  "route_of ps m segs = SinglePageApp
   \<or> (\<exists>p \<in> set ps. method_ok (pt_method p) m \<and> (\<exists>ws. route_of ps m segs = pt_endpoint p ws))"
  by (induction ps) (auto split: option.split)

definition reading :: "endpoint \<Rightarrow> bool" where
  "reading ep \<longleftrightarrow>
     (case ep of
        Healthz \<Rightarrow> True | Readyz \<Rightarrow> True | LoginPage \<Rightarrow> True | Me \<Rightarrow> True | ListProjects \<Rightarrow> True | GetProject pid \<Rightarrow> True
      | PortfolioPage name \<Rightarrow> True | ProjectPage name slug \<Rightarrow> True | SinglePageApp \<Rightarrow> True | _ \<Rightarrow> False)"

lemma read_routes:
  "list_all (\<lambda>p. pt_method p = ''GET'' \<longrightarrow> (\<forall>ws. reading (pt_endpoint p ws) \<or> pt_endpoint p ws = LoginCallback)) (routes a b c)"
  by (simp add: routes_def pat_def reading_def)

lemma route_of_read:
  assumes "m = ''GET'' \<or> m = ''HEAD''"
  shows "reading (route_of (routes a b c) m segs) \<or> route_of (routes a b c) m segs = LoginCallback"
proof (cases "route_of (routes a b c) m segs = SinglePageApp")
  case True
  then show ?thesis by (simp add: reading_def)
next
  case False
  then obtain p ws where p: "p \<in> set (routes a b c)" "method_ok (pt_method p) m"
      "route_of (routes a b c) m segs = pt_endpoint p ws"
    using route_of_method [of "routes a b c" m segs] by blast
  moreover have "pt_method p = ''GET''" if "pt_method p \<noteq> ''HEAD''"
    using p(2) assms that by (auto simp: method_ok_def)
  moreover have "pt_method p \<noteq> ''HEAD''"
    using p(1) by (auto simp: routes_def pat_def split: if_splits)
  ultimately show ?thesis using read_routes [of a b c] by (auto simp: list_all_iff)
qed

lemma reading_keeps:
  "reading (route_of (routes (we_play we) (we_authn we) (we_projects we)) (wr_method rq) (wr_segs rq))
   \<Longrightarrow> fst (serve we rq st) = st"
  by (auto simp: serve_def Let_def reading_def owner_request_def require_owner_def split: endpoint.splits option.splits)

text \<open>C17: reading changes nothing. No \<open>GET\<close> or \<open>HEAD\<close> request, whatever its path, cookies or query, changes a
  table, reaches the network or starts a build, the return from the identity
  provider apart: no link or image on a foreign page can act for an Owner.\<close>

theorem reads_change_nothing:
  assumes "wr_method rq = ''GET'' \<or> wr_method rq = ''HEAD''"
    and "route_of (routes (we_play we) (we_authn we) (we_projects we)) (wr_method rq) (wr_segs rq) \<noteq> LoginCallback"
  shows "fst (serve we rq st) = st"
  using route_of_read [OF assms(1)] assms(2) reading_keeps by blast

section \<open>What holds after every run\<close>

text \<open>The tables satisfy their constraints, and every build in flight was let through by the repository gate: each
  of its services lives under the Owner's own account or in a repository GitHub granted.\<close>

definition job_authorised :: "unicode \<Rightarrow> 'n repo_access option \<Rightarrow> build_job \<Rightarrow> bool" where
  "job_authorised u access job \<longleftrightarrow> list_all (service_allowed u access (bj_login job)) (m_services (bj_manifest job))"

definition web_ok :: "('j, 'n, 'e) web_env \<Rightarrow> ('j, 'n) web_state \<Rightarrow> bool" where
  "web_ok we st \<longleftrightarrow> database_ok (ws_db st) \<and> list_all (job_authorised (we_unicode we) (we_access we)) (ws_jobs st)"

lemma handlers_ok:
  assumes "database_ok db"
  shows "database_ok (fst (create_handler u cd (Some ow) form fl now minted db))"
    and "database_ok (fst (update_handler u cd (Some ow) pid form fl now db))"
    and "database_ok (fst (set_slug_handler u cd (Some ow) pid slug fl fl2 now db))"
    and "database_ok (fst (claim_username u (Some ow) raw fl db))"
    and "database_ok (fst (publish_handler u cd conf acc who pid fl fl2 now db n))"
  using create_handler_db [of u cd ow form fl now minted db] update_handler_db [of u cd ow pid form fl now db]
    set_slug_handler_db [of u cd ow pid slug fl fl2 now db] claim_username_db [of u ow raw fl db]
    publish_handler_db [of u cd conf acc who pid fl fl2 now db n]
    create_project_ok [OF assms] update_project_ok [OF assms] set_project_slug_ok [OF assms] set_username_ok [OF assms]
    build_ops_ok(4) [OF assms] assms
  by metis+

lemma callback_ok:
  assumes "database_ok db"
  shows "database_ok (fst (callback pv secure sha aq rnd now fl fl2 db n))"
proof -
  have up: "database_ok db1" if "upsert_owner fl gid lg db = (db1, r)" for gid lg db1 r
    using that upsert_owner_ok [OF assms, of fl gid lg] by simp
  have cr: "database_ok db2" if "create_login_session fl2 tok i ex db1 = (db2, r)" "database_ok db1" for tok i ex db1 db2 r
    using that login_ops_ok(1) [of db1 fl2 tok i ex] by simp
  show ?thesis
    by (auto simp: callback_def Let_def assms split: option.split sum.split prod.split dest!: up cr)
qed

lemma logout_ok: "database_ok db \<Longrightarrow> database_ok (fst (logout secure sha aq fl db))"
  by (auto simp: logout_def login_ops_ok split: option.split)

lemma publish_request_ok:
  assumes "web_ok we st"
  shows "web_ok we (fst (publish_request we rq pid who st))"
proof -
  obtain db' n' r l where h: "publish_handler (we_unicode we) (we_codec we) (we_configured we) (we_access we) who pid
      (wr_fault rq) (wr_fault2 rq) (wr_now rq) (ws_db st) (ws_net st) = (db', n', r, l)"
    by (cases "publish_handler (we_unicode we) (we_codec we) (we_configured we) (we_access we) who pid
      (wr_fault rq) (wr_fault2 rq) (wr_now rq) (ws_db st) (ws_net st)") auto
  have db: "database_ok db'"
    using handlers_ok(5) [of "ws_db st" "we_unicode we" "we_codec we" "we_configured we" "we_access we" who pid
        "wr_fault rq" "wr_fault2 rq" "wr_now rq" "ws_net st"] assms h by (simp add: web_ok_def)
  have "job_authorised (we_unicode we) (we_access we) job" if l: "l = Some job" for job
  proof (rule publish_handler_job [OF h [unfolded l]])
    fix owner p m started
    assume "check_repo_access (we_unicode we) (we_access we) (ow_login owner) m (ws_net st) = (n', None)"
      "job = \<lparr>bj_owner = ow_id owner, bj_login = ow_login owner, bj_project = sp_id p, bj_manifest = m\<rparr>"
    then show ?thesis by (auto simp: job_authorised_def check_repo_access_def dest: check_services_None)
  qed
  with h db assms show ?thesis by (auto simp: publish_request_def web_ok_def split: option.split)
qed

lemma owner_request_ok:
  assumes "web_ok we st"
  shows "web_ok we (fst (owner_request we rq ep (Some ow) st))"
  using assms publish_request_ok [OF assms]
  by (cases ep) (simp_all add: owner_request_def with_db_def Let_def web_ok_def handlers_ok)

lemma serve_ok:
  assumes "web_ok we st"
  shows "web_ok we (fst (serve we rq st))"
proof -
  have gate: "web_ok we (fst (require_owner (we_sha256 we) (wr_auth rq) (wr_gate_fault rq) (wr_now rq) (ws_db st)
      (st, r) (\<lambda>who. owner_request we rq ep who st)))" for r ep
    using assms owner_request_ok [OF assms] by (simp add: require_owner_def split: option.split)
  have cb: "database_ok db'" if "callback pv secure sha aq rnd now fl fl2 (ws_db st) n = (db', n', rep)"
    for pv secure sha aq rnd now fl fl2 n db' n' rep
    using callback_ok [of "ws_db st" pv secure sha aq rnd now fl fl2 n] assms that by (simp add: web_ok_def)
  show ?thesis
    using assms gate logout_ok [of "ws_db st"]
    by (auto simp: serve_def Let_def with_db_def web_ok_def dest: cb split: endpoint.split prod.split)
qed

lemma settle_build_ok:
  assumes "database_ok db"
  shows "database_ok (settle_build cd job outcome cancelled fl fl2 now db)"
proof -
  have pub: "database_ok db'" if "publish_project fl now ow pid c cs db = (db', r)" for ow pid c cs db' r
    using that build_ops_ok(1) [OF assms, of fl now ow pid c cs] by simp
  show ?thesis
    by (auto simp: settle_build_def Let_def assms build_ops_ok dest!: pub split: sum.split prod.split)
qed

lemma web_step_ok:
  assumes "web_ok we st"
  shows "web_ok we (web_step we ev st)"
proof (cases ev)
  case (Request rq)
  with assms serve_ok show ?thesis by simp
next
  case (BuildEnds i outcome cancelled fl fl2 now)
  with assms settle_build_ok show ?thesis
    by (auto simp: web_ok_def list_all_iff dest: in_set_takeD in_set_dropD)
next
  case (Sweep sc fl now per grace)
  with assms show ?thesis by (simp add: web_ok_def reap_once_def build_ops_ok)
next
  case (PruneLogins fl now)
  with assms show ?thesis by (simp add: web_ok_def login_ops_ok)
qed

lemma web_start_ok: "web_ok we (web_start n)"
  using store_run_ok [of "[]"] by (simp add: web_ok_def web_start_def store_run_def)

text \<open>C5: the control plane keeps its invariant. After any sequence of requests, build results, sweeps and
  prunes, in any order and with any faults, the tables satisfy every constraint of the
  schema and every build in flight passed the repository gate.\<close>

theorem web_invariant: "web_ok we (web_run we n evs)"
proof -
  have step: "web_ok we st \<Longrightarrow> web_ok we (foldl (\<lambda>st ev. web_step we ev st) st evs)" for st
    by (induction evs arbitrary: st) (simp_all add: web_step_ok)
  show ?thesis unfolding web_run_def by (rule step [OF web_start_ok])
qed

section \<open>A sample deployment\<close>

definition sample_env :: "(sample_doc, unit, oauth_err) web_env" where
  "sample_env =
     \<lparr>we_unicode = sample_unicode,
      we_codec = sample_codec,
      we_sha256 = (\<lambda>s. s), we_provider = None, we_secure = False, we_configured = False, we_access = None,
      we_play = True, we_authn = True, we_projects = True, we_site = \<lparr>si_open = (\<lambda>p. None), si_index = None\<rparr>\<rparr>"

definition sample_request :: web_request where
  "sample_request =
     \<lparr>wr_method = ''GET'', wr_path = ''/logout'', wr_segs = [''logout''],
      wr_auth = \<lparr>aq_cookies = Map.empty, aq_query = (\<lambda>k. '''')\<rparr>, wr_form = None, wr_slug = None, wr_username = None,
      wr_ready = None, wr_now = 0, wr_random = None, wr_minted = '''', wr_gate_fault = False, wr_fault = False, wr_fault2 = False\<rparr>"

lemma reads_change_nothing_witness:
  "fst (serve sample_env sample_request (web_start ())) = web_start ()"
  by (rule reads_change_nothing)
    (simp_all add: sample_env_def sample_request_def routes_def pat_def method_ok_def)

end
