(* ===== verification/Config.thy ===== *)
theory Config
  imports Metrics GoNet
begin

text \<open>
  The configuration of the control plane, \<open>internal/config/config.go\<close>: every field, its environment
  variable and its default, and the parsers that decide when a value is malformed. The environment is a
  map; \<open>float64\<close> stays abstract, with \<open>strconv.ParseFloat\<close> and the one rounded product of
  \<open>time.ParseDuration\<close> as parameters.
\<close>

section \<open>Durations\<close>

text \<open>\<open>time.ParseDuration\<close>. A duration is a number of nanoseconds in an \<open>int64\<close>; while it is
  read it is a \<open>uint64\<close>, whose sum wraps.\<close>

definition two63 :: nat where
  "two63 = 9223372036854775808"

definition two64 :: nat where
  "two64 = 18446744073709551616"

definition unit_map :: "(string \<times> nat) list" where
  "unit_map =
     [(''ns'', 1), (''us'', 1000), ([CHR 0xC2, CHR 0xB5] @ ''s'', 1000), ([CHR 0xCE, CHR 0xBC] @ ''s'', 1000),
      (''ms'', 1000000), (''s'', 1000000000), (''m'', 60000000000), (''h'', 3600000000000)]"

text \<open>\<open>leadingInt\<close> fails when the number leaves the range.\<close>

fun leading_int :: "nat \<Rightarrow> string \<Rightarrow> (nat \<times> string) option" where
  "leading_int x [] = Some (x, [])"
| "leading_int x (c # s) =
     (if is_digit c
      then (if two63 div 10 < x then None
            else let y = 10 * x + (byte c - 48) in if two63 < y then None else leading_int y s)
      else Some (x, c # s))"

text \<open>\<open>leadingFraction\<close> drops the digits it has no room for: the digits read, and the power of ten they
  are over.\<close>

fun leading_fraction :: "nat \<Rightarrow> nat \<Rightarrow> bool \<Rightarrow> string \<Rightarrow> nat \<times> nat \<times> string" where
  "leading_fraction x scale full [] = (x, scale, [])"
| "leading_fraction x scale full (c # s) =
     (if is_digit c
      then (if full \<or> (two63 - 1) div 10 < x then leading_fraction x scale True s
            else let y = 10 * x + (byte c - 48)
                 in if two63 < y then leading_fraction x scale True s else leading_fraction y (10 * scale) False s)
      else (x, scale, c # s))"

definition unit_char :: "char \<Rightarrow> bool" where
  "unit_char c \<longleftrightarrow> c \<noteq> CHR ''.'' \<and> \<not> is_digit c"

text \<open>One number and its unit. The nanoseconds of a fraction are \<open>uint64(float64(f) * (float64(unit) / scale))\<close>,
  the parameter \<open>fp\<close>.\<close>

definition duration_part :: "(nat \<Rightarrow> nat \<Rightarrow> nat \<Rightarrow> nat) \<Rightarrow> string \<Rightarrow> (nat \<times> string) option" where
  "duration_part fp s =
     (if s = [] \<or> \<not> (hd s = CHR ''.'' \<or> is_digit (hd s)) then None
      else case leading_int 0 s of
             None \<Rightarrow> None
           | Some (v, s1) \<Rightarrow>
               (case (if s1 \<noteq> [] \<and> hd s1 = CHR ''.'' then leading_fraction 0 1 False (tl s1) else (0, 1, s1)) of
                  (f, scale, s2) \<Rightarrow>
                    (let pre = (length s1 \<noteq> length s);
                         post = (s1 \<noteq> [] \<and> hd s1 = CHR ''.'' \<and> length s2 \<noteq> length (tl s1));
                         u = takeWhile unit_char s2
                     in if \<not> pre \<and> \<not> post \<or> u = [] then None
                        else case map_of unit_map u of
                               None \<Rightarrow> None
                             | Some unit \<Rightarrow>
                                 if two63 div unit < v then None
                                 else (let w = (if 0 < f then (v * unit + fp f unit scale) mod two64 else v * unit)
                                       in if 0 < f \<and> two63 < w then None else Some (w, dropWhile unit_char s2)))))"

lemma leading_int_rest: "leading_int x s = Some (v, r) \<Longrightarrow> length r \<le> length s"
  by (induction x s rule: leading_int.induct) (auto simp: Let_def split: if_splits)

lemma leading_fraction_rest: "leading_fraction x sc fl s = (f, sc', r) \<Longrightarrow> length r \<le> length s"
proof (induction s arbitrary: x sc fl)
  case (Cons c s)
  then show ?case by (fastforce simp: Let_def split: if_splits)
qed simp

lemma duration_part_rest:
  assumes "duration_part fp s = Some (w, r)"
  shows "length r < length s"
proof -
  obtain v s1 where i: "leading_int 0 s = Some (v, s1)" and s: "s \<noteq> []"
    using assms by (auto simp: duration_part_def split: if_splits option.splits)
  obtain f sc s2 where f: "(if s1 \<noteq> [] \<and> hd s1 = CHR ''.'' then leading_fraction 0 1 False (tl s1) else (0, 1, s1)) = (f, sc, s2)"
    by (cases "if s1 \<noteq> [] \<and> hd s1 = CHR ''.'' then leading_fraction 0 1 False (tl s1) else (0, 1, s1)")
  have "takeWhile unit_char s2 \<noteq> []" "r = dropWhile unit_char s2"
    using assms i s f by (auto simp: duration_part_def Let_def split: if_splits option.splits)
  then have "length r < length s2"
    using takeWhile_dropWhile_id [of unit_char s2] by (metis length_append length_greater_0_conv less_add_same_cancel2)
  moreover have "length s2 \<le> length s1"
    using f leading_fraction_rest [of 0 1 False "tl s1" f sc s2] by (auto split: if_splits)
  ultimately show ?thesis using leading_int_rest [OF i] by simp
qed

function duration_parts :: "(nat \<Rightarrow> nat \<Rightarrow> nat \<Rightarrow> nat) \<Rightarrow> nat \<Rightarrow> string \<Rightarrow> nat option" where
  "duration_parts fp d s =
     (if s = [] then Some d
      else case duration_part fp s of
             None \<Rightarrow> None
           | Some (v, r) \<Rightarrow>
               (let d' = (d + v) mod two64 in if two63 < d' then None else duration_parts fp d' r))"
  by pat_completeness auto
termination
  by (relation "measure (\<lambda>(fp, d, s). length s)") (auto dest: duration_part_rest)

declare duration_parts.simps [simp del]

definition parse_duration :: "(nat \<Rightarrow> nat \<Rightarrow> nat \<Rightarrow> nat) \<Rightarrow> string \<Rightarrow> int option" where
  "parse_duration fp s0 =
     (let (neg, s) = cut_sign s0
      in if s = ''0'' then Some 0
         else if s = '''' then None
         else case duration_parts fp 0 s of
                None \<Rightarrow> None
              | Some d \<Rightarrow>
                  if neg then Some (- int d) else if two63 - 1 < d then None else Some (int d))"

section \<open>The environment\<close>

type_synonym env_vars = "string \<rightharpoonup> string"

record 'f floats =
  fl_parse :: "string \<Rightarrow> 'f option"
  fl_part :: "nat \<Rightarrow> nat \<Rightarrow> nat \<Rightarrow> nat"
  fl_two :: 'f

definition getenv :: "env_vars \<Rightarrow> string \<Rightarrow> string \<Rightarrow> string" where
  "getenv env key fallback =
     (case env key of Some v \<Rightarrow> if v \<noteq> '''' then v else fallback | None \<Rightarrow> fallback)"

definition getenv_int :: "env_vars \<Rightarrow> string \<Rightarrow> int \<Rightarrow> int" where
  "getenv_int env key fallback =
     (case env key of
        Some v \<Rightarrow> (case atoi v of Some n \<Rightarrow> n | None \<Rightarrow> fallback)
      | None \<Rightarrow> fallback)"

definition getenv_float :: "'f floats \<Rightarrow> env_vars \<Rightarrow> string \<Rightarrow> 'f \<Rightarrow> 'f" where
  "getenv_float fl env key fallback =
     (case env key of
        Some v \<Rightarrow> (case fl_parse fl v of Some f \<Rightarrow> f | None \<Rightarrow> fallback)
      | None \<Rightarrow> fallback)"

definition getenv_duration :: "'f floats \<Rightarrow> env_vars \<Rightarrow> string \<Rightarrow> int \<Rightarrow> int" where
  "getenv_duration fl env key fallback =
     (case env key of
        Some v \<Rightarrow> (case parse_duration (fl_part fl) v of Some d \<Rightarrow> d | None \<Rightarrow> fallback)
      | None \<Rightarrow> fallback)"

definition seconds :: int where
  "seconds = 1000000000"

definition minutes :: int where
  "minutes = 60 * seconds"

record 'f config =
  cf_host :: string
  cf_port :: int
  cf_env :: string
  cf_database_url :: string
  cf_demo_domain :: string
  cf_booting_url :: string
  cf_internal_host :: string
  cf_internal_port :: int
  cf_splash_port :: int
  cf_runtime :: string
  cf_traefik_container :: string
  cf_egress_image :: string
  cf_client_id :: string
  cf_client_secret :: string
  cf_callback_url :: string
  cf_app_id :: string
  cf_private_key :: string
  cf_demo_scheme :: string
  cf_idle_timeout :: int
  cf_max_runtime :: int
  cf_reaper_interval :: int
  cf_metrics_url :: string
  cf_crash_grace :: int
  cf_failure_linger :: int
  cf_max_cached :: int
  cf_max_sessions :: int
  cf_sandbox_image :: string
  cf_build_network :: string
  cf_build_memory :: int
  cf_build_cpus :: 'f
  cf_build_pids :: int
  cf_build_timeout :: int
  cf_reap_grace :: int

definition load_config :: "'f floats \<Rightarrow> env_vars \<Rightarrow> 'f config" where
  "load_config fl env =
     \<lparr>cf_host = getenv env ''HOST'' '''',
      cf_port = getenv_int env ''PORT'' 8080,
      cf_env = getenv env ''ENV'' ''dev'',
      cf_database_url = getenv env ''DATABASE_URL'' '''',
      cf_demo_domain = getenv env ''DEMO_DOMAIN'' ''localhost'',
      cf_booting_url = getenv env ''PROXY_BOOTING_URL'' '''',
      cf_internal_host = getenv env ''INTERNAL_HOST'' ''127.0.0.1'',
      cf_internal_port = getenv_int env ''INTERNAL_PORT'' 8081,
      cf_splash_port = getenv_int env ''SPLASH_PORT'' 8082,
      cf_runtime = getenv env ''RUNTIME'' ''runsc'',
      cf_traefik_container = getenv env ''TRAEFIK_CONTAINER'' ''showcase-traefik'',
      cf_egress_image = getenv env ''EGRESS_PROXY_IMAGE'' ''showcase-dev/egress-proxy:latest'',
      cf_client_id = getenv env ''GITHUB_APP_CLIENT_ID'' '''',
      cf_client_secret = getenv env ''GITHUB_APP_CLIENT_SECRET'' '''',
      cf_callback_url = getenv env ''OAUTH_CALLBACK_URL'' '''',
      cf_app_id = getenv env ''GITHUB_APP_ID'' '''',
      cf_private_key = getenv env ''GITHUB_APP_PRIVATE_KEY'' '''',
      cf_demo_scheme = getenv env ''DEMO_SCHEME'' ''http'',
      cf_idle_timeout = getenv_duration fl env ''IDLE_TIMEOUT'' (15 * minutes),
      cf_max_runtime = getenv_duration fl env ''MAX_RUNTIME'' (45 * minutes),
      cf_reaper_interval = getenv_duration fl env ''REAPER_INTERVAL'' (30 * seconds),
      cf_metrics_url = getenv env ''TRAEFIK_METRICS_URL'' ''http://127.0.0.1:8084/metrics'',
      cf_crash_grace = getenv_duration fl env ''CRASH_GRACE'' (30 * seconds),
      cf_failure_linger = getenv_duration fl env ''FAILURE_LINGER'' (2 * minutes),
      cf_max_cached = getenv_int env ''MAX_CACHED_IMAGES'' 20,
      cf_max_sessions = getenv_int env ''MAX_SESSIONS'' 10,
      cf_sandbox_image = getenv env ''BUILD_SANDBOX_IMAGE'' ''moby/buildkit:rootless'',
      cf_build_network = getenv env ''BUILD_NETWORK'' ''showcase-build'',
      cf_build_memory = getenv_int env ''BUILD_MEMORY_MB'' 2048,
      cf_build_cpus = getenv_float fl env ''BUILD_CPUS'' (fl_two fl),
      cf_build_pids = getenv_int env ''BUILD_PIDS_LIMIT'' 2048,
      cf_build_timeout = getenv_duration fl env ''BUILD_TIMEOUT'' (5 * minutes),
      cf_reap_grace = getenv_duration fl env ''BUILD_REAP_GRACE'' (10 * minutes)\<rparr>"

definition addr :: "'f config \<Rightarrow> string" where
  "addr c = join_host_port (cf_host c) (itoa (cf_port c))"

section \<open>Every value has its type\<close>

definition is_int64 :: "int \<Rightarrow> bool" where
  "is_int64 i \<longleftrightarrow> - max_int64 - 1 \<le> i \<and> i \<le> max_int64"

text \<open>The integers of a configuration, and the strings that are never empty.\<close>

definition config_ints :: "'f config \<Rightarrow> int list" where
  "config_ints c =
     [cf_port c, cf_internal_port c, cf_splash_port c, cf_idle_timeout c, cf_max_runtime c, cf_reaper_interval c,
      cf_crash_grace c, cf_failure_linger c, cf_max_cached c, cf_max_sessions c, cf_build_memory c, cf_build_pids c,
      cf_build_timeout c, cf_reap_grace c]"

definition config_names :: "'f config \<Rightarrow> string list" where
  "config_names c =
     [cf_env c, cf_demo_domain c, cf_internal_host c, cf_runtime c, cf_traefik_container c, cf_egress_image c,
      cf_demo_scheme c, cf_metrics_url c, cf_sandbox_image c, cf_build_network c]"

lemma atoi_int64: "atoi s = Some i \<Longrightarrow> is_int64 i"
  by (auto simp: atoi_def Let_def is_int64_def split: if_splits option.splits)

lemma duration_parts_bound: "duration_parts fp d s = Some e \<Longrightarrow> d \<le> two63 \<Longrightarrow> e \<le> two63"
proof (induction fp d s rule: duration_parts.induct)
  case (1 fp d s)
  show ?case
  proof (cases "s = []")
    case True
    with "1.prems" show ?thesis by (simp add: duration_parts.simps)
  next
    case False
    with "1.prems" obtain v r where p: "duration_part fp s = Some (v, r)" "\<not> two63 < (d + v) mod two64"
      "duration_parts fp ((d + v) mod two64) r = Some e"
      by (subst (asm) duration_parts.simps) (auto simp: Let_def split: if_splits option.splits)
    with "1.IH" [OF False p(1) refl refl] show ?thesis by simp
  qed
qed

lemma parse_duration_int64:
  assumes "parse_duration fp s = Some i"
  shows "is_int64 i"
proof (cases "snd (cut_sign s) = ''0''")
  case True
  with assms show ?thesis by (auto simp: parse_duration_def is_int64_def max_int64_def split: prod.splits)
next
  case False
  with assms obtain neg t d where c: "cut_sign s = (neg, t)" "duration_parts fp 0 t = Some d"
      "Some i = (if neg then Some (- int d) else if two63 - 1 < d then None else Some (int d))"
    by (auto simp: parse_duration_def split: prod.splits if_splits option.splits)
  from duration_parts_bound [OF c(2)] have "d \<le> two63" by simp
  with c(3) show ?thesis by (auto simp: is_int64_def max_int64_def two63_def split: if_splits)
qed

lemma getenv_int64:
  "is_int64 fb \<Longrightarrow> is_int64 (getenv_int env k fb)"
  "is_int64 fb \<Longrightarrow> is_int64 (getenv_duration fl env k fb)"
  by (auto simp: getenv_int_def getenv_duration_def atoi_int64 parse_duration_int64 split: option.split)

lemma getenv_nonempty: "fb \<noteq> '''' \<Longrightarrow> '''' \<noteq> getenv env k fb"
  by (auto simp: getenv_def split: option.split)


section \<open>What a duration reads as\<close>

definition duration_text :: "(nat \<times> string) list \<Rightarrow> string" where
  "duration_text ps = concat (map (\<lambda>(n, u). dec n @ u) ps)"

definition duration_value :: "(nat \<times> string) list \<Rightarrow> nat" where
  "duration_value ps = sum_list (map (\<lambda>(n, u). n * the (map_of unit_map u)) ps)"

definition no_digit :: "string \<Rightarrow> bool" where
  "no_digit t \<longleftrightarrow> t = [] \<or> \<not> is_digit (hd t)"

lemma leading_int_stop: "no_digit t \<Longrightarrow> leading_int x t = Some (x, t)"
  by (cases t) (auto simp: no_digit_def)

lemma leading_int_dec: "n \<le> two63 \<Longrightarrow> leading_int 0 (dec n @ t) = leading_int n t"
proof (induction n arbitrary: t rule: dec.induct)
  case (1 n)
  show ?case
  proof (cases "n < 10")
    case True
    with "1.prems" show ?thesis by (subst dec.simps) (simp add: byte_digit_char two63_def)
  next
    case False
    have "n div 10 \<le> two63 div 10" using "1.prems" by (rule div_le_mono)
    moreover have "n div 10 \<le> two63" using "1.prems" by (rule le_trans [OF div_le_dividend])
    ultimately show ?thesis using "1.IH" [OF False] "1.prems" False
      by (subst dec.simps) (simp add: byte_digit_char Let_def not_less)
  qed
qed

lemma units_spelled:
  "u \<in> fst ` set unit_map \<Longrightarrow> u \<noteq> [] \<and> list_all unit_char u \<and> (\<exists>m. map_of unit_map u = Some m \<and> 0 < m)"
  by (auto simp: unit_map_def unit_char_def is_digit_def byte_def)

lemma span_block:
  "list_all P u \<Longrightarrow> t = [] \<or> \<not> P (hd t) \<Longrightarrow> takeWhile P (u @ t) = u \<and> dropWhile P (u @ t) = t"
  by (induction u) (cases t; auto)+

lemma duration_part_reads:
  assumes "u \<in> fst ` set unit_map" "n * the (map_of unit_map u) \<le> two63" "t = [] \<or> is_digit (hd t)"
  shows "duration_part fp (dec n @ u @ t) = Some (n * the (map_of unit_map u), t)"
proof -
  from units_spelled [OF assms(1)] obtain m where u: "u \<noteq> []" "list_all unit_char u" "map_of unit_map u = Some m" "0 < m"
    by blast
  have m: "n \<le> two63 div m" using assms(2) u(3,4) by (simp add: less_eq_div_iff_mult_less_eq)
  have n: "n \<le> two63" using m by (rule le_trans [OF _ div_le_dividend])
  have hd: "unit_char (hd u)" using u(1,2) by (cases u) auto
  then have "leading_int 0 (dec n @ u @ t) = Some (n, u @ t)"
    using leading_int_dec [OF n, of "u @ t"] leading_int_stop [of "u @ t" n] u(1)
    by (simp add: no_digit_def unit_char_def)
  moreover have "takeWhile unit_char (u @ t) = u" "dropWhile unit_char (u @ t) = t"
    using span_block [OF u(2), of t] assms(3) by (auto simp: unit_char_def)
  moreover have "hd (dec n @ u @ t) = hd (dec n)" "is_digit (hd (dec n))" "dec n \<noteq> []"
    by (simp_all add: hd_dec)
  ultimately show ?thesis
    using u hd m by (simp add: duration_part_def Let_def unit_char_def)
qed

text \<open>A duration reads as what it spells. A sequence of numbers with units, signed or not, is read as
  the sum it denotes, and the sum of no such sequence that fits an \<open>int64\<close> is
  rejected or rounded.\<close>

theorem duration_reads:
  assumes "ps \<noteq> []" "snd ` set ps \<subseteq> fst ` set unit_map" "duration_value ps < two63"
  shows "parse_duration fp (duration_text ps) = Some (int (duration_value ps))
    \<and> parse_duration fp (CHR ''-'' # duration_text ps) = Some (- int (duration_value ps))"
proof -
  have sum: "duration_parts fp d (duration_text ps) = Some (d + duration_value ps)"
    if "snd ` set ps \<subseteq> fst ` set unit_map" "d + duration_value ps < two63" for d ps
    using that
  proof (induction ps arbitrary: d)
    case Nil
    then show ?case by (simp add: duration_text_def duration_value_def duration_parts.simps)
  next
    case (Cons x ps)
    obtain n u where x: "x = (n, u)" by (cases x)
    let ?v = "n * the (map_of unit_map u)"
    have val: "duration_value (x # ps) = ?v + duration_value ps" by (simp add: duration_value_def x)
    have spelled: "duration_text (x # ps) = dec n @ u @ duration_text ps" by (simp add: duration_text_def x)
    have follow: "duration_text ps = [] \<or> is_digit (hd (duration_text ps))"
      by (cases ps) (auto simp: duration_text_def hd_dec)
    have part: "duration_part fp (dec n @ u @ duration_text ps) = Some (?v, duration_text ps)"
      using Cons.prems x val by (intro duration_part_reads follow) auto
    have "(d + ?v) mod two64 = d + ?v" "\<not> two63 < d + ?v"
      using Cons.prems(2) val by (simp_all add: two63_def two64_def)
    then have "duration_parts fp d (duration_text (x # ps)) = duration_parts fp (d + ?v) (duration_text ps)"
      unfolding spelled by (subst duration_parts.simps) (simp add: part Let_def)
    also have "\<dots> = Some (d + ?v + duration_value ps)"
      using Cons.prems val by (intro Cons.IH) auto
    finally show ?case by (simp add: val)
  qed
  obtain n u qs where ps: "ps = (n, u) # qs" using assms(1) by (cases ps) auto
  have u: "u \<noteq> []" using assms(2) units_spelled [of u] by (auto simp: ps)
  have spelled: "duration_text ps = dec n @ u @ duration_text qs" by (simp add: duration_text_def ps)
  have sign: "cut_sign (duration_text ps) = (False, duration_text ps)"
    unfolding spelled using hd_dec [of n] by (cases "dec n") (auto simp: cut_sign_def)
  have zero: "duration_text ps \<noteq> ''0''" "duration_text ps \<noteq> ''''"
    unfolding spelled using u by (auto simp: append_eq_Cons_conv)
  have minus: "cut_sign (CHR ''-'' # duration_text ps) = (True, duration_text ps)" by (simp add: cut_sign_def)
  show ?thesis
    using sum [of ps 0] assms(2,3) sign minus zero by (simp add: parse_duration_def)
qed

lemma duration_reads_witness:
  "duration_value [(1, ''h''), (30, ''m'')] = 5400000000000
   \<and> parse_duration (\<lambda>f unit scale. 0) (duration_text [(1, ''h''), (30, ''m'')]) = Some 5400000000000"
proof -
  have "duration_value [(1, ''h''), (30, ''m'')] = 5400000000000"
    by (simp add: duration_value_def unit_map_def)
  moreover from this duration_reads [of "[(1, ''h''), (30, ''m'')]" "\<lambda>f unit scale. 0"]
  have "parse_duration (\<lambda>f unit scale. 0) (duration_text [(1, ''h''), (30, ''m'')]) = Some 5400000000000"
    by (simp add: two63_def unit_map_def)
  ultimately show ?thesis by simp
qed

end
