(* ===== verification/ControlPlane.thy ===== *)
theory ControlPlane
  imports Builder Fixture WebSystem Config Reaper
begin

text \<open>
  The glue of the process, \<open>cmd/controlplane/main.go\<close>: how the configuration switches the parts
  on, where a service's sources come from (\<open>specFunc\<close>, \<open>gitBuildSpec\<close>), how a publish pins one commit
  per repository and builds the draft (\<open>builderFunc\<close>), the source a play resolves Projects from, and the order
  of the shutdown. One type \<open>'d\<close> is the world the network, git, docker and the file system act on.
\<close>

section \<open>Where a service is built from\<close>

record ('k, 'd) machine =
  mc_unicode :: unicode
  mc_github :: "('k, 'd) gh_env"
  mc_host :: "'d host"
  mc_docker :: "'d build_env"
  mc_embedded :: "'d embedded"

datatype spec_err =
    NotConfigured
  | RepoRejected repo_err
  | TokenRefused gh_err
  | CommitUnresolved git_err
  | FixtureBroken fixture_err

definition fixture_project_id :: string where
  "fixture_project_id = ''fixture''"

text \<open>The commit at the head of a repository, and the token it was resolved with.\<close>

definition resolve_head ::
    "('k, 'd) machine \<Rightarrow> 'k client \<Rightarrow> string \<Rightarrow> string \<Rightarrow> 'd \<Rightarrow> 'd \<times> (spec_err, string \<times> string) result" where
  "resolve_head mc gh owner repo d =
     (case installation_token (mc_github mc) gh owner repo d of
        (d1, Inl e) \<Rightarrow> (d1, Err (TokenRefused e))
      | (d1, Inr (tok, _)) \<Rightarrow>
          (case resolve_commit (mc_host mc) (clone_url owner repo) ''HEAD'' tok d1 of
             (d2, Inl e) \<Rightarrow> (d2, Err (CommitUnresolved e))
           | (d2, Inr sha) \<Rightarrow> (d2, Ok (sha, tok))))"

text \<open>The \<open>Context\<close> closure: it mints a token only when none was minted to resolve the commit.\<close>

definition git_context ::
    "('k, 'd) machine \<Rightarrow> 'k client \<Rightarrow> string \<Rightarrow> string \<Rightarrow> string \<Rightarrow> string \<Rightarrow> 'd \<Rightarrow> 'd \<times> (string \<times> ('d \<Rightarrow> 'd)) option" where
  "git_context mc gh owner repo sha resolve_tok d =
     (case (if resolve_tok = ''''
            then (case installation_token (mc_github mc) gh owner repo d of
                    (d1, Inl e) \<Rightarrow> (d1, None)
                  | (d1, Inr (t, _)) \<Rightarrow> (d1, Some t))
            else (d, Some resolve_tok)) of
        (d1, None) \<Rightarrow> (d1, None)
      | (d1, Some tok) \<Rightarrow>
          (case clone_commit (mc_host mc) (clone_url owner repo) sha tok d1 of
             (d2, Inl e) \<Rightarrow> (d2, None)
           | (d2, Inr (work, parent)) \<Rightarrow> (d2, Some (work, \<lambda>d. fst (h_remove (mc_host mc) parent d)))))"

definition image_name :: "string \<Rightarrow> service \<Rightarrow> string" where
  "image_name pid svc = ''showcase/'' @ pid @ ''-'' @ svc_name svc"

definition git_build_spec ::
    "('k, 'd) machine \<Rightarrow> 'k client option \<Rightarrow> string \<Rightarrow> service \<Rightarrow> string \<Rightarrow> 'd \<Rightarrow> 'd \<times> (spec_err, 'd build_spec) result" where
  "git_build_spec mc gh pid svc commit d =
     (case gh of
        None \<Rightarrow> (d, Err NotConfigured)
      | Some c \<Rightarrow>
          (case parse_repo (mc_unicode mc) (svc_repo svc) of
             Inl e \<Rightarrow> (d, Err (RepoRejected e))
           | Inr (owner, repo) \<Rightarrow>
               (case (if commit = '''' then resolve_head mc c owner repo d else (d, Ok (commit, ''''))) of
                  (d1, Inl e) \<Rightarrow> (d1, Err e)
                | (d1, Inr (sha, resolve_tok)) \<Rightarrow>
                    (d1, Ok \<lparr>bs_image = image_name pid svc, bs_version = sha, bs_dockerfile = svc_dockerfile svc,
                             bs_context = git_context mc c owner repo sha resolve_tok\<rparr>))))"

definition fixture_context :: "'d embedded \<Rightarrow> string \<Rightarrow> 'd \<Rightarrow> 'd \<times> (string \<times> ('d \<Rightarrow> 'd)) option" where
  "fixture_context em service d =
     (case fixture_extract em service d of
        (d1, Inl e) \<Rightarrow> (d1, None)
      | (d1, Inr dc) \<Rightarrow> (d1, Some dc))"

definition spec_for ::
    "('k, 'd) machine \<Rightarrow> 'k client option \<Rightarrow> string \<Rightarrow> service \<Rightarrow> string \<Rightarrow> 'd \<Rightarrow> 'd \<times> (spec_err, 'd build_spec) result" where
  "spec_for mc gh pid svc commit d =
     (if pid = fixture_project_id
      then (case fixture_version (mc_embedded mc) (svc_name svc) of
              Inl e \<Rightarrow> (d, Err (FixtureBroken e))
            | Inr version \<Rightarrow>
                (d, Ok \<lparr>bs_image = image_name pid svc, bs_version = version, bs_dockerfile = fixture_dockerfile,
                        bs_context = fixture_context (mc_embedded mc) (svc_name svc)\<rparr>))
      else git_build_spec mc gh pid svc commit d)"

text \<open>As the building source takes it.\<close>

definition build_specs :: "('k, 'd) machine \<Rightarrow> 'k client option \<Rightarrow> 'd spec_func" where
  "build_specs mc gh d pid svc commit =
     (case spec_for mc gh pid svc commit d of
        (d', Inl e) \<Rightarrow> (d', None)
      | (d', Inr sp) \<Rightarrow> (d', Some sp))"

section \<open>Publishing a draft\<close>

text \<open>The loop that pins every service to the head of its repository, resolved once for each repository.\<close>

definition repo_key :: "unicode \<Rightarrow> string \<Rightarrow> string \<Rightarrow> string" where
  "repo_key u owner repo = to_lower u (owner @ ''/'' @ repo)"

fun pin_services ::
    "('k, 'd) machine \<Rightarrow> 'k client \<Rightarrow> service list \<Rightarrow> (string \<rightharpoonup> string) \<Rightarrow> (string \<rightharpoonup> string) \<Rightarrow> 'd
       \<Rightarrow> 'd \<times> (spec_err, string \<rightharpoonup> string) result" where
  "pin_services mc gh [] heads commits d = (d, Ok commits)"
| "pin_services mc gh (svc # svcs) heads commits d =
     (case parse_repo (mc_unicode mc) (svc_repo svc) of
        Inl e \<Rightarrow> (d, Err (RepoRejected e))
      | Inr (owner, repo) \<Rightarrow>
          (let key = repo_key (mc_unicode mc) owner repo
           in case (case heads key of
                      Some sha \<Rightarrow> (d, Ok sha)
                    | None \<Rightarrow> (case resolve_head mc gh owner repo d of
                                 (d1, Inl e) \<Rightarrow> (d1, Err e)
                               | (d1, Inr (sha, _)) \<Rightarrow> (d1, Ok sha))) of
                (d1, Inl e) \<Rightarrow> (d1, Err e)
              | (d1, Inr sha) \<Rightarrow>
                  pin_services mc gh svcs (heads(key \<mapsto> sha)) (commits(svc_name svc \<mapsto> sha)) d1))"

datatype publish_err = EmptyProject | PinFailed spec_err | DraftFailed building_err

definition draft_project :: "manifest \<Rightarrow> (string \<rightharpoonup> string) \<Rightarrow> project" where
  "draft_project m commits = \<lparr>pj_manifest = m, pj_images = Map.empty, pj_commit = '''', pj_commits = commits\<rparr>"

text \<open>\<open>BuildProject\<close>: the commits the services were built at. \<open>None\<close> is a build that does not return.\<close>

definition build_project ::
    "('k, 'd) machine \<Rightarrow> 'k client \<Rightarrow> string \<Rightarrow> manifest \<Rightarrow> builder \<Rightarrow> 'd
       \<Rightarrow> (builder \<times> 'd \<times> (publish_err, string \<rightharpoonup> string) result) option" where
  "build_project mc gh pid m b d =
     (if m_services m = [] then Some (b, d, Err EmptyProject)
      else case pin_services mc gh (m_services m) Map.empty Map.empty d of
             (d1, Inl e) \<Rightarrow> Some (b, d1, Err (PinFailed e))
           | (d1, Inr commits) \<Rightarrow>
               (case building_source (mc_docker mc) (build_specs mc (Some gh)) (static_source (draft_project m commits)) pid b d1 of
                  None \<Rightarrow> None
                | Some (b', d', Inl e) \<Rightarrow> Some (b', d', Err (DraftFailed e))
                | Some (b', d', Inr _) \<Rightarrow> Some (b', d', Ok commits)))"

text \<open>What a play resolves Projects from: with a database the published Projects first, then the fixture.\<close>

definition fixture_app :: project where
  "fixture_app = \<lparr>pj_manifest = fixture_manifest, pj_images = Map.empty, pj_commit = '''', pj_commits = Map.empty\<rparr>"

definition base_source :: "('j codec \<times> bool \<times> 'j database) option \<Rightarrow> project_source" where
  "base_source store =
     (case store of
        None \<Rightarrow> static_source fixture_app
      | Some (cd, fault, db) \<Rightarrow> fallback_source (database_source cd fault db) (static_source fixture_app))"

definition play_source ::
    "('k, 'd) machine \<Rightarrow> 'k client option \<Rightarrow> ('j codec \<times> bool \<times> 'j database) option \<Rightarrow> string \<Rightarrow> builder \<Rightarrow> 'd
       \<Rightarrow> (builder \<times> 'd \<times> (building_err, project) result) option" where
  "play_source mc gh store pid b d =
     building_source (mc_docker mc) (build_specs mc gh) (base_source store) pid b d"

section \<open>One commit for each repository\<close>

text \<open>What a pinning means: each service carries the head of its own repository, a full commit.\<close>

definition pinned :: "unicode \<Rightarrow> (string \<rightharpoonup> string) \<Rightarrow> (string \<rightharpoonup> string) \<Rightarrow> service \<Rightarrow> bool" where
  "pinned u heads commits svc \<longleftrightarrow>
     (\<exists>owner repo sha. parse_repo u (svc_repo svc) = Ok (owner, repo) \<and> heads (repo_key u owner repo) = Some sha
        \<and> commits (svc_name svc) = Some sha \<and> match_string sha_re sha)"

lemma resolve_commit_full:
  assumes "resolve_commit h remote ref tok d = (d', Ok sha)"
  shows "match_string sha_re sha"
  using assms by (auto simp: resolve_commit_def Let_def split: prod.splits sum.splits if_splits)

lemma resolve_head_full:
  assumes "resolve_head mc gh owner repo d = (d', Ok (sha, tok))"
  shows "match_string sha_re sha"
  using assms resolve_commit_full by (fastforce simp: resolve_head_def split: prod.splits sum.splits)

lemma pin_services_pinned:
  assumes "pin_services mc gh svcs heads commits d = (d', Ok commits')" "distinct (map svc_name svcs)"
    "\<And>k sha. heads k = Some sha \<Longrightarrow> match_string sha_re sha"
  shows "\<exists>heads'. heads \<subseteq>\<^sub>m heads' \<and> (\<forall>svc \<in> set svcs. pinned (mc_unicode mc) heads' commits' svc)
    \<and> (\<forall>n. n \<notin> svc_name ` set svcs \<longrightarrow> commits' n = commits n)"
  using assms
proof (induction svcs arbitrary: heads commits d)
  case (Cons svc svcs)
  obtain owner repo where p: "parse_repo (mc_unicode mc) (svc_repo svc) = Ok (owner, repo)"
    using Cons.prems(1) by (cases "parse_repo (mc_unicode mc) (svc_repo svc)") auto
  let ?key = "repo_key (mc_unicode mc) owner repo"
  obtain d1 sha where sha: "heads ?key = Some sha \<or> heads ?key = None \<and> (\<exists>tok. resolve_head mc gh owner repo d = (d1, Ok (sha, tok)))"
    and rest: "pin_services mc gh svcs (heads(?key \<mapsto> sha)) (commits(svc_name svc \<mapsto> sha)) d1 = (d', Ok commits')"
    using Cons.prems(1) p by (auto simp: Let_def split: option.splits prod.splits sum.splits)
  have full: "match_string sha_re sha" using sha by (auto dest: Cons.prems(3) resolve_head_full)
  have ext: "heads \<subseteq>\<^sub>m heads(?key \<mapsto> sha)" using sha by (auto simp: map_le_def)
  have heads: "match_string sha_re s" if "(heads(?key \<mapsto> sha)) k = Some s" for k s
    using that full Cons.prems(3) [of k s] by (auto split: if_splits)
  have dist: "distinct (map svc_name svcs)" using Cons.prems(2) by simp
  have "\<exists>heads'. heads(?key \<mapsto> sha) \<subseteq>\<^sub>m heads' \<and> (\<forall>s \<in> set svcs. pinned (mc_unicode mc) heads' commits' s)
      \<and> (\<forall>n. n \<notin> svc_name ` set svcs \<longrightarrow> commits' n = (commits(svc_name svc \<mapsto> sha)) n)"
    by (rule Cons.IH [OF rest dist]) (rule heads)
  then obtain heads' where IH: "heads(?key \<mapsto> sha) \<subseteq>\<^sub>m heads'" "\<forall>s \<in> set svcs. pinned (mc_unicode mc) heads' commits' s"
    "\<forall>n. n \<notin> svc_name ` set svcs \<longrightarrow> commits' n = (commits(svc_name svc \<mapsto> sha)) n"
    by blast
  have "heads' ?key = Some sha" using IH(1) by (auto simp: map_le_def)
  moreover have "commits' (svc_name svc) = Some sha" using IH(3) Cons.prems(2) by simp
  ultimately have "pinned (mc_unicode mc) heads' commits' svc" using p full by (auto simp: pinned_def)
  moreover have "heads \<subseteq>\<^sub>m heads'" by (rule map_le_trans [OF ext IH(1)])
  ultimately show ?case using IH(2,3) by (intro exI [of _ heads']) auto
qed (auto intro: map_le_refl)


section \<open>A play after a publish\<close>

lemma build_specs_pinned:
  assumes "pid \<noteq> fixture_project_id" "commit \<noteq> ''''" "parse_repo (mc_unicode mc) (svc_repo svc) = Ok (owner, repo)"
  shows "build_specs mc (Some gh) d pid svc commit =
    (d, Some \<lparr>bs_image = image_name pid svc, bs_version = commit, bs_dockerfile = svc_dockerfile svc,
              bs_context = git_context mc gh owner repo commit ''''\<rparr>)"
  using assms by (simp add: build_specs_def spec_for_def git_build_spec_def)

lemma build_specs_named:
  assumes "pid \<noteq> fixture_project_id" "commit \<noteq> ''''" "build_specs mc (Some gh) d pid svc commit = (d', Some sp)"
  shows "bs_image sp = image_name pid svc" "bs_version sp = commit"
  using assms by (auto simp: build_specs_def spec_for_def git_build_spec_def split: sum.splits prod.splits)

lemma full_commit_nonempty: "match_string sha_re sha \<Longrightarrow> sha \<noteq> ''''"
  by (auto simp: sha_re_iff)

lemma image_name_inj: "image_name pid svc = image_name pid svc' \<longleftrightarrow> svc_name svc = svc_name svc'"
  by (simp add: image_name_def)

text \<open>Once a publish of a Project has succeeded on a cache with room for its services, a source that answers the
  Project at the published commits is built from the cache alone, in any world.\<close>

lemma pinned_source_is_warm:
  assumes "build_project mc gh pid m b d = Some (b', d', Ok commits)" "builder_ok b"
    "distinct (map svc_name (m_services m))" "int (length (m_services m)) \<le> bd_max b"
    "unat (bd_tick b) + length (m_services m) < 2 ^ 64 - 1" "pid \<noteq> fixture_project_id"
    "base pid = Ok p" "pj_manifest p = m" "pj_commits p = commits"
  shows "\<exists>b'' images. building_source (mc_docker mc) (build_specs mc (Some gh)) base pid b' world
      = Some (b'', world, Ok (p\<lparr>pj_images := images\<rparr>))
    \<and> list_all (\<lambda>svc. images (svc_name svc)
        = Some (image_name pid svc @ '':'' @ short_version (the (commits (svc_name svc))))) (m_services m)"
proof -
  let ?spec = "build_specs mc (Some gh)" and ?svcs = "m_services m" and ?ver = "\<lambda>svc. the (commits (svc_name svc))"
  obtain d1 where pin: "pin_services mc gh ?svcs Map.empty Map.empty d = (d1, Ok commits)"
    using assms(1) by (auto simp: build_project_def split: if_splits prod.splits sum.splits option.splits)
  from pin_services_pinned [OF pin assms(3)] obtain heads where
    pinned: "\<And>svc. svc \<in> set ?svcs \<Longrightarrow> pinned (mc_unicode mc) heads commits svc"
    by auto
  have some: "commits (svc_name svc) = Some (?ver svc)" "?ver svc \<noteq> ''''" if "svc \<in> set ?svcs" for svc
    using pinned [OF that] full_commit_nonempty by (auto simp: pinned_def)
  have here: "commit_for q svc = ?ver svc" if "svc \<in> set ?svcs" "pj_commits q = commits" for q svc
    using some [OF that(1)] that(2) by (auto simp: commit_for_def split: option.split)
  let ?draft = "draft_project m commits"
  have draft: "pj_commits ?draft = commits" "pj_manifest ?draft = m" by (simp_all add: draft_project_def)
  obtain images where built: "build_services (mc_docker mc) ?spec pid ?draft ?svcs Map.empty b d1 = Some (b', d', Ok images)"
    using assms(1) pin by (auto simp: build_project_def building_source_def static_source_def draft split: if_splits option.splits sum.splits)
  have named: "bs_image sp = image_name pid svc \<and> bs_version sp = ?ver svc"
    if "svc \<in> set ?svcs" "?spec d0 pid svc (commit_for ?draft svc) = (d2, Some sp)" for svc d0 d2 sp
    using build_specs_named [OF assms(6) _ that(2)] here [OF that(1) draft(1)] some [OF that(1)] by simp
  have pure: "\<exists>sp. (\<forall>d. ?spec d pid svc (commit_for p svc) = (d, Some sp))
      \<and> bs_image sp = image_name pid svc \<and> bs_version sp = ?ver svc" if mem: "svc \<in> set ?svcs" for svc
  proof -
    obtain owner repo where "parse_repo (mc_unicode mc) (svc_repo svc) = Ok (owner, repo)"
      using pinned [OF mem] by (auto simp: pinned_def)
    with here [OF mem assms(9)] some [OF mem] show ?thesis by (simp add: build_specs_pinned [OF assms(6)])
  qed
  have size: "distinct (map (image_name pid) ?svcs)" "length ?svcs \<le> nat (bd_max b)"
    using assms(3,4) by (auto simp: distinct_map inj_on_def image_name_inj)
  have "\<exists>b'' images'. build_services (mc_docker mc) ?spec pid p ?svcs Map.empty b' world = Some (b'', world, Ok images')
      \<and> (\<forall>svc \<in> set ?svcs. images' (svc_name svc) = Some (image_name pid svc @ '':'' @ short_version (?ver svc)))"
    by (rule built_services_warm [where img = "image_name pid" and ver = ?ver, OF built assms(2,5) size(2,1) assms(3)])
      (erule (1) named, erule pure)
  then show ?thesis using assms(7,8) by (auto simp: building_source_def list_all_iff)
qed

section \<open>A sample machine\<close>

definition sample_machine :: "(unit, unit) machine" where
  "sample_machine =
     \<lparr>mc_unicode = sample_unicode,
      mc_github =
        \<lparr>ge_url_ok = (\<lambda>u. True),
         ge_do = (\<lambda>rq n. (n, Ok \<lparr>hr_status = (if hq_method rq = ''POST'' then 201 else 200), hr_body = ''''\<rparr>)),
         ge_now = (\<lambda>n. 0), ge_sign = (\<lambda>k s n. (n, Some '''')), ge_installation = (\<lambda>b. Some 1),
         ge_token = (\<lambda>b. Some (''tok'', 0)), ge_permission = (\<lambda>b. Some ''write''), ge_printable = (\<lambda>r. True)\<rparr>,
      mc_host = good_host\<lparr>h_git := (\<lambda>argv env w. (w, sample_sha, None))\<rparr>,
      mc_docker = sample_build_env, mc_embedded = sample_tree\<rparr>"

definition sample_client :: "unit client" where
  "sample_client = \<lparr>cl_app_id = ''1'', cl_key = (), cl_api_base = ''https://api.github.com''\<rparr>"

lemma sample_machine_parts:
  "mc_unicode sample_machine = sample_unicode" "mc_docker sample_machine = sample_build_env"
  by (simp_all add: sample_machine_def)

lemma sample_token: "installation_token (mc_github sample_machine) sample_client owner repo () = ((), Ok (''tok'', 0))"
  by (simp add: installation_token_def mint_token_def app_jwt_def repo_installation_id_def send_def sample_machine_def
      installation_request_def mint_request_def Let_def)

lemma sample_sha_ref: "match_string sha_re sample_sha"
  using sample_sha_hex by (simp add: sha_re_iff)

lemma sample_head: "resolve_head sample_machine sample_client owner repo () = ((), Ok (sample_sha, ''tok''))"
proof -
  have "trim_space sample_sha = sample_sha" "first_field sample_sha = sample_sha" "sample_sha \<noteq> ''''" by code_simp+
  then have "resolve_commit (mc_host sample_machine) r ''HEAD'' ''tok'' () = ((), Ok sample_sha)" for r
    using sample_sha_ref by (simp add: resolve_commit_def run_git_def sample_machine_def Let_def)
  then show ?thesis by (simp add: resolve_head_def sample_token)
qed

lemma sample_repo: "parse_repo sample_unicode (reference ''GitHub.com/'' ''octo'' ''web'' ''.git/'') = Ok (''octo'', ''web'')"
  by (rule parse_repo_reference [OF sample_pair sample_shape(2,1)])

lemma sample_publish:
  assumes "pid \<noteq> fixture_project_id"
  shows "\<exists>b'. build_project sample_machine sample_client pid sample_manifest (new_builder 1 None) ()
     = Some (b', (), Ok [''web'' \<mapsto> sample_sha])"
proof -
  let ?sp = "\<lparr>bs_image = image_name pid (hd (m_services sample_manifest)), bs_version = sample_sha, bs_dockerfile = ''Dockerfile'',
    bs_context = git_context sample_machine sample_client ''octo'' ''web'' sample_sha ''''\<rparr>"
  have pin: "pin_services sample_machine sample_client (m_services sample_manifest) Map.empty Map.empty ()
      = ((), Ok [''web'' \<mapsto> sample_sha])"
    by (simp add: sample_manifest_def sample_machine_parts sample_repo sample_head Let_def)
  have spec: "build_specs sample_machine (Some sample_client) () pid svc sample_sha = ((), Some ?sp)"
    if "svc \<in> set (m_services sample_manifest)" for svc
    using that full_commit_nonempty [OF sample_sha_ref] sample_repo
    by (subst build_specs_pinned [where owner = "''octo''" and repo = "''web''"])
      (auto simp: sample_manifest_def assms image_name_def sample_machine_parts)
  have "snd (git_context sample_machine sample_client ''octo'' ''web'' sample_sha '''' ()) \<noteq> None"
    by (simp add: git_context_def sample_token)
      (simp add: sample_machine_def clone_commit_def sample_sha_ref good_host_def clone_steps_def run_git_def Let_def)
  then obtain dir cleanup where "snd (bs_context ?sp ()) = Some (dir, cleanup)" by auto
  from sample_build_any [OF refl this] obtain b' where
    "build sample_build_env ?sp (new_builder 1 None) () = Some (b', (), Ok ((image_name pid (hd (m_services sample_manifest)) @ '':'') @ short_version sample_sha))"
    by auto
  then have "build_services (mc_docker sample_machine) (build_specs sample_machine (Some sample_client)) pid
      (draft_project sample_manifest [''web'' \<mapsto> sample_sha]) (m_services sample_manifest) Map.empty (new_builder 1 None) ()
    = Some (b', (), Ok [''web'' \<mapsto> (image_name pid (hd (m_services sample_manifest)) @ '':'') @ short_version sample_sha])"
    using spec full_commit_nonempty [OF sample_sha_ref]
    by (simp add: sample_manifest_def commit_for_def draft_project_def sample_machine_parts)
  then show ?thesis
    by (simp add: build_project_def pin building_source_def static_source_def draft_project_def)
      (simp add: sample_manifest_def)
qed

lemma fixture_is_no_uuid: "\<not> match_string uuid_re fixture_project_id"
  by code_simp

lemma sample_uuid_plays: "sample_uuid \<noteq> fixture_project_id"
  using sample_uuid fixture_is_no_uuid by auto

lemma sample_services: "map svc_name (m_services sample_manifest) = [''web'']"
  by (simp add: sample_manifest_def)


text \<open>C2: a Guest never waits on a build, and plays what was published. Once a publish has built an Owner's
  Project on a cache with room for its services and settled, a play of the Project answers the
  manifest that was built, pinned at the published commits, with the image of every service, and
  makes no call to GitHub, git, docker or the file system: the world is what it was, whatever happened
  to it in between.\<close>

theorem publish_then_play:
  assumes "database_ok db" "get_owner_project False ow pid db = Ok p" "match_string uuid_re (sp_id p)"
    and "cd_decode cd (sp_manifest p) = Some m" "cd_decode_commits cd (cd_encode_commits cd commits) = Some commits"
    and "build_project mc gh (sp_id p) m b d = Some (b', d', Ok commits)" "builder_ok b"
    and "distinct (map svc_name (m_services m))" "int (length (m_services m)) \<le> bd_max b"
    and "unat (bd_tick b) + length (m_services m) < 2 ^ 64 - 1"
  shows "\<exists>b'' images. play_source mc (Some gh)
      (Some (cd, False, settle_build cd \<lparr>bj_owner = ow, bj_login = lg, bj_project = sp_id p, bj_manifest = m\<rparr>
                          (Ok commits) cancelled False fault2 now db)) (sp_id p) b' world
      = Some (b'', world, Ok \<lparr>pj_manifest = m, pj_images = images, pj_commit = headline_commit m commits, pj_commits = commits\<rparr>)
    \<and> list_all (\<lambda>svc. images (svc_name svc)
        = Some (image_name (sp_id p) svc @ '':'' @ short_version (the (commits (svc_name svc))))) (m_services m)"
proof -
  let ?db = "settle_build cd \<lparr>bj_owner = ow, bj_login = lg, bj_project = sp_id p, bj_manifest = m\<rparr>
    (Ok commits) cancelled False fault2 now db"
  let ?q = "\<lparr>pj_manifest = m, pj_images = Map.empty, pj_commit = headline_commit m commits, pj_commits = commits\<rparr>"
  have base: "base_source (Some (cd, False, ?db)) (sp_id p) = Ok ?q"
    using settled_build_plays [OF assms(1-5)] by (simp add: base_source_def fallback_source_def)
  have pid: "sp_id p \<noteq> fixture_project_id"
    using assms(3) fixture_is_no_uuid by auto
  have "\<exists>b'' images. building_source (mc_docker mc) (build_specs mc (Some gh)) (base_source (Some (cd, False, ?db))) (sp_id p) b' world
      = Some (b'', world, Ok (?q\<lparr>pj_images := images\<rparr>))
    \<and> list_all (\<lambda>svc. images (svc_name svc)
        = Some (image_name (sp_id p) svc @ '':'' @ short_version (the (commits (svc_name svc))))) (m_services m)"
    using base by (intro pinned_source_is_warm [OF assms(6-10) pid]) simp_all
  then show ?thesis by (simp add: play_source_def)
qed

lemma publish_then_play_witness:
  "\<exists>b' b'' images. build_project sample_machine sample_client sample_uuid sample_manifest (new_builder 1 None) ()
     = Some (b', (), Ok [''web'' \<mapsto> sample_sha])
   \<and> play_source sample_machine (Some sample_client)
       (Some (sample_codec, False,
          settle_build sample_codec \<lparr>bj_owner = 1, bj_login = ''octo'', bj_project = sample_uuid, bj_manifest = sample_manifest\<rparr>
            (Ok [''web'' \<mapsto> sample_sha]) False False False 40 sample_db)) sample_uuid b' ()
     = Some (b'', (), Ok \<lparr>pj_manifest = sample_manifest, pj_images = images, pj_commit = sample_sha, pj_commits = [''web'' \<mapsto> sample_sha]\<rparr>)"
proof -
  obtain b' where run: "build_project sample_machine sample_client sample_uuid sample_manifest (new_builder 1 None) ()
     = Some (b', (), Ok [''web'' \<mapsto> sample_sha])"
    using sample_publish [OF sample_uuid_plays] by blast
  have headline: "headline_commit sample_manifest [''web'' \<mapsto> sample_sha] = sample_sha"
    by (simp add: headline_commit_def sample_manifest_def commit_or_empty_def)
  have size: "distinct (map svc_name (m_services sample_manifest))" "int (length (m_services sample_manifest)) \<le> bd_max (new_builder 1 None)"
    "unat (bd_tick (new_builder 1 None)) + length (m_services sample_manifest) < 2 ^ 64 - 1"
    by (simp_all add: sample_manifest_def new_builder_def)
  have codec: "cd_decode sample_codec (Inl sample_manifest) = Some sample_manifest"
    "cd_decode_commits sample_codec (cd_encode_commits sample_codec c) = Some c" for c
    by (simp_all add: sample_codec_def)
  from publish_then_play [OF sample_db_ok sample_get, unfolded sample_project_fields, OF sample_uuid codec(1) codec(2) run
      builder_ok_new size, of "''octo''" False False 40 "()"] run
  show ?thesis unfolding headline by blast
qed

section \<open>The wiring\<close>

text \<open>What \<open>main\<close> derives from the configuration. The directory for generated Compose files hangs off the
  temporary directory of the machine.\<close>

record 'k deployment =
  dp_addr :: string
  dp_config_addr :: string
  dp_splash_addr :: string
  dp_booting_url :: string
  dp_persistent :: bool
  dp_provider :: "github_app option"
  dp_secure :: bool
  dp_github :: "'k client option"
  dp_publishing :: bool
  dp_registry :: registry
  dp_builder :: builder
  dp_runner :: compose_runner
  dp_manager :: manager
  dp_reaper :: reaper_config

definition oauth_callback :: "rat config \<Rightarrow> string" where
  "oauth_callback c =
     (if cf_callback_url c = '''' then ''http://localhost:'' @ itoa (cf_port c) @ ''/auth/github/callback''
      else cf_callback_url c)"

definition identity_provider :: "rat config \<Rightarrow> github_app option" where
  "identity_provider c =
     (if cf_client_id c \<noteq> '''' \<and> cf_client_secret c \<noteq> ''''
      then Some (new_github_provider (cf_client_id c) (cf_client_secret c) (oauth_callback c)) else None)"

definition booting_url :: "rat config \<Rightarrow> string" where
  "booting_url c =
     (if cf_booting_url c = '''' then ''http://host.docker.internal:'' @ itoa (cf_splash_port c) else cf_booting_url c)"

definition image_builder :: "rat config \<Rightarrow> builder" where
  "image_builder c =
     new_builder (cf_max_cached c)
       (Some \<lparr>sb_image = cf_sandbox_image c, sb_network = cf_build_network c, sb_memory_mb = cf_build_memory c,
              sb_cpus = cf_build_cpus c, sb_pids_limit = cf_build_pids c, sb_timeout = cf_build_timeout c\<rparr>)"

definition github_client :: "'k key_parsers \<Rightarrow> rat config \<Rightarrow> 'k client option" where
  "github_client kp c =
     (if cf_app_id c \<noteq> '''' \<and> cf_private_key c \<noteq> ''''
      then (case new_client kp (cf_app_id c) (cf_private_key c) of Inl e \<Rightarrow> None | Inr cl \<Rightarrow> Some cl)
      else None)"

definition session_runner :: "string \<Rightarrow> rat config \<Rightarrow> compose_runner" where
  "session_runner tmp c =
     new_compose tmp [with_runtime (cf_runtime c), with_proxy (cf_traefik_container c), with_egress_proxy_image (cf_egress_image c)]"

definition reaper_settings :: "rat config \<Rightarrow> reaper_config" where
  "reaper_settings c =
     new_reaper_config
       \<lparr>rc_idle = cf_idle_timeout c, rc_max_runtime = cf_max_runtime c, rc_crash_grace = cf_crash_grace c,
        rc_failure_linger = cf_failure_linger c, rc_interval = cf_reaper_interval c\<rparr>"

definition wire :: "'k key_parsers \<Rightarrow> string \<Rightarrow> rat config \<Rightarrow> 'k deployment" where
  "wire kp tmp c =
     (let persistent = (cf_database_url c \<noteq> ''''); gh = github_client kp c
      in \<lparr>dp_addr = addr c,
          dp_config_addr = join_host_port (cf_internal_host c) (itoa (cf_internal_port c)),
          dp_splash_addr = join_host_port (cf_internal_host c) (itoa (cf_splash_port c)),
          dp_booting_url = booting_url c,
          dp_persistent = persistent,
          dp_provider = (if persistent then identity_provider c else None),
          dp_secure = (cf_env c = ''prod''),
          dp_github = gh,
          dp_publishing = (persistent \<and> gh \<noteq> None),
          dp_registry = new_registry (cf_demo_domain c),
          dp_builder = image_builder c,
          dp_runner = session_runner tmp c,
          dp_manager = \<lparr>mg_scheme = cf_demo_scheme c, mg_max_sessions = cf_max_sessions c\<rparr>,
          dp_reaper = reaper_settings c\<rparr>)"

text \<open>The public listener of a deployment; what it does not take from the configuration is the first argument.\<close>

definition deployed ::
    "('j, 'd, oauth_err) web_env \<Rightarrow> ('k, 'd) machine \<Rightarrow> 'd oauth_env \<Rightarrow> 'k deployment \<Rightarrow> ('j, 'd, oauth_err) web_env" where
  "deployed base mc oe dp =
     base\<lparr>we_unicode := mc_unicode mc,
          we_provider := map_option (github_provider oe) (dp_provider dp),
          we_secure := dp_secure dp,
          we_configured := dp_publishing dp,
          we_access := map_option (has_repo_access (mc_github mc)) (dp_github dp),
          we_play := True, we_authn := dp_persistent dp, we_projects := dp_persistent dp\<rparr>"

section \<open>The shutdown\<close>

text \<open>\<open>run\<close>, once the signal has come: the public server, then the boots in flight, then the builds in flight, each
  with whether it drained in time; the answer is whether the process exits cleanly.\<close>

definition run_server ::
    "bool \<Rightarrow> ('w \<Rightarrow> 'w \<times> bool) \<Rightarrow> ('w \<Rightarrow> 'w \<times> bool) \<Rightarrow> ('w \<Rightarrow> 'w \<times> bool) option \<Rightarrow> 'w \<Rightarrow> 'w \<times> bool" where
  "run_server serve_failed drain_http drain_boots drain_builds w =
     (case drain_http w of
        (w1, False) \<Rightarrow> (w1, False)
      | (w1, True) \<Rightarrow>
          (let w2 = fst (drain_boots w1);
               w3 = (case drain_builds of None \<Rightarrow> w2 | Some drain \<Rightarrow> fst (drain w2))
           in (w3, \<not> serve_failed)))"

section \<open>What a deployment exposes\<close>

lemma routes_without_owners:
  "route_of (routes pl False pr) m segs \<in> {Healthz, Readyz, PlaySession, SinglePageApp}"
  using route_of_method [of "routes pl False pr" m segs]
  by (auto simp: routes_def pat_def split: if_splits)

text \<open>Without a database the public listener keeps nothing. Whatever request comes, a deployment without
  \<open>DATABASE_URL\<close> answers liveness, readiness, a play or the single-page app, and leaves tables, network and
  builds alone.\<close>

theorem stateless_without_database:
  assumes "cf_database_url c = ''''"
  shows "fst (serve (deployed base mc oe (wire kp tmp c)) rq st) = st"
proof -
  let ?we = "deployed base mc oe (wire kp tmp c)"
  have "we_authn ?we = False" using assms by (simp add: deployed_def wire_def Let_def)
  then show ?thesis
    using routes_without_owners [of "we_play ?we" "we_projects ?we" "wr_method rq" "wr_segs rq"]
    by (auto simp: serve_def Let_def)
qed

definition cookies_of :: "web_reply \<Rightarrow> cookie list" where
  "cookies_of r = (case r of AuthReply a \<Rightarrow> ar_cookies a | _ \<Rightarrow> [])"

lemma refuse_cookies [simp]: "ar_cookies (refuse code cs msg) = cs" "ar_cookies (redirect code cs loc) = cs"
  by (simp_all add: refuse_def redirect_def)

lemma cookie_flags [simp]:
  "ck_http_only (set_cookie s n v t)" "ck_secure (set_cookie s n v t) = s" "ck_path (set_cookie s n v t) = ''/''"
  "ck_http_only (clear_cookie s n)" "ck_secure (clear_cookie s n) = s" "ck_path (clear_cookie s n) = ''/''"
  by (simp_all add: set_cookie_def clear_cookie_def)

definition hardened_cookie :: "bool \<Rightarrow> cookie \<Rightarrow> bool" where
  "hardened_cookie secure ck \<longleftrightarrow> ck_http_only ck \<and> ck_secure ck = secure \<and> ck_same_site ck = ''Lax'' \<and> ck_path ck = ''/''"

lemma hardened_made [simp]:
  "hardened_cookie s (set_cookie s n v t)" "hardened_cookie s (clear_cookie s n)"
  by (simp_all add: hardened_cookie_def set_cookie_def clear_cookie_def)

lemma callback_cookies:
  "callback pv secure sha aq rnd now fl fl2 db n = (db', n', rep) \<Longrightarrow> list_all (hardened_cookie secure) (ar_cookies rep)"
  by (auto simp: callback_def Let_def split: option.splits sum.splits prod.splits if_splits)

lemma owner_request_cookies:
  "cookies_of (snd (owner_request we rq ep who st)) = []"
proof -
  have "ar_cookies (snd (claim_username u who decoded fl db)) = []" for u decoded fl and db :: "'a database"
    by (auto simp: claim_username_def split: option.split sum.split prod.split store_err.split)
  then show ?thesis
    by (cases ep) (auto simp: owner_request_def cookies_of_def with_db_def publish_request_def Let_def split: prod.split)
qed

text \<open>C18: every cookie is hardened. Each cookie in any answer of a deployment is out of reach of scripts, limited to
  same-site navigation, and sent over TLS only exactly when the deployment is production.\<close>

theorem cookies_hardened:
  "list_all (hardened_cookie (cf_env c = ''prod'')) (cookies_of (snd (serve (deployed base mc oe (wire kp tmp c)) rq st)))"
proof -
  let ?we = "deployed base mc oe (wire kp tmp c)"
  have sec: "we_secure ?we = (cf_env c = ''prod'')" by (simp add: deployed_def wire_def Let_def)
  have gate: "cookies_of (snd (require_owner sha aq fl now db (st, AuthReply (refuse 401 [] msg))
      (\<lambda>who. owner_request ?we rq ep who st))) = []" for sha aq fl now db msg ep
    by (simp add: require_owner_def owner_request_cookies split: option.split) (simp add: cookies_of_def)
  have login: "list_all (hardened_cookie s) (ar_cookies (login pv s rnd))" for pv :: "('b, oauth_err) provider option" and s rnd
    by (auto simp: login_def split: option.split)
  have out: "list_all (hardened_cookie s) (ar_cookies (snd (logout s sha aq fl db)))" for s sha aq fl and db :: "'a database"
    by (simp add: logout_def)
  have "ar_cookies (me sha aq fl now db) = []" for sha aq fl now and db :: "'a database"
    by (auto simp: me_def split: option.split)
  then show ?thesis
    unfolding sec [symmetric]
    by (auto simp: serve_def Let_def gate with_db_def login out callback_cookies split: endpoint.split prod.split)
      (auto simp: cookies_of_def login out callback_cookies)
qed

definition sample_floats :: "rat floats" where
  "sample_floats = \<lparr>fl_parse = (\<lambda>s. None), fl_part = (\<lambda>f unit scale. f * unit div scale), fl_two = 2\<rparr>"

definition sample_parsers :: "unit key_parsers" where
  "sample_parsers = \<lparr>kp_pem = (\<lambda>s. None), kp_pkcs1 = (\<lambda>s. None), kp_pkcs8 = (\<lambda>s. None)\<rparr>"

definition sample_oauth :: "unit oauth_env" where
  "sample_oauth = \<lparr>oe_url_ok = (\<lambda>u. True), oe_do = (\<lambda>rq n. (n, Err ''offline'')), oe_token = (\<lambda>b. None), oe_user = (\<lambda>b. None)\<rparr>"

lemma stateless_without_database_witness:
  "fst (serve (deployed sample_env sample_machine sample_oauth
      (wire sample_parsers ''/tmp'' (load_config sample_floats [''ENV'' \<mapsto> ''prod''])))
     (sample_request\<lparr>wr_method := ''POST'', wr_segs := [''api'', ''owner'', ''projects'']\<rparr>) (web_start ())) = web_start ()"
  by (rule stateless_without_database) (simp add: load_config_def getenv_def)

end
