(* ===== verification/Cleanup.thy ===== *)
theory Cleanup
  imports ControlPlane
begin

text \<open>
  What a publish leaves on the file system of the control plane: nothing. The temporaries are the
  clones of \<open>cloneCommit\<close> (\<open>internal/githubapp/git.go\<close>), which the builder removes through the
  cleanup of the build context (\<open>internal/builder/builder.go\<close>), and the image files of the sandbox
  (\<open>internal/builder/sandbox.go\<close>).
\<close>

section \<open>The laws of temporaries\<close>

text \<open>What is assumed of the world outside, of which \<open>live\<close> reads the temporaries that exist: network,
  git and docker leave them alone; \<open>os.MkdirTemp\<close> and \<open>os.CreateTemp\<close> create one that was not there, whose
  name is not a path to a \<open>.git\<close>, or fail; a removal removes.\<close>

definition keeps :: "('d \<Rightarrow> string set) \<Rightarrow> ('d \<Rightarrow> 'd) \<Rightarrow> bool" where
  "keeps live f \<longleftrightarrow> (\<forall>d. live (f d) = live d)"

definition creates :: "('d \<Rightarrow> string set) \<Rightarrow> 'd \<Rightarrow> 'd \<Rightarrow> string \<Rightarrow> bool" where
  "creates live d d' p \<longleftrightarrow> p \<notin> live d \<and> live d' = insert p (live d) \<and> \<not> has_suffix p ''/.git''"

definition removes :: "('d \<Rightarrow> string set) \<Rightarrow> (string \<Rightarrow> 'd \<Rightarrow> 'd) \<Rightarrow> bool" where
  "removes live f \<longleftrightarrow> (\<forall>p d. live (f p d) = live d - {p})"

definition docker_tidy :: "('d \<Rightarrow> string set) \<Rightarrow> 'd build_env \<Rightarrow> bool" where
  "docker_tidy live bv \<longleftrightarrow>
     (\<forall>args. keeps live (\<lambda>d. fst (bv_run bv d args)))
     \<and> (\<forall>p m. keeps live (\<lambda>d. fst (bv_chmod bv d p m)))
     \<and> keeps live (\<lambda>d. fst (bv_rand bv d))
     \<and> (\<forall>args t. keeps live (\<lambda>d. fst (bv_build bv d args t)))
     \<and> (\<forall>d. case snd (bv_tar bv d) of
              None \<Rightarrow> live (fst (bv_tar bv d)) = live d
            | Some t \<Rightarrow> creates live d (fst (bv_tar bv d)) t)
     \<and> removes live (\<lambda>p d. bv_remove bv d p)"

definition host_tidy :: "('d \<Rightarrow> string set) \<Rightarrow> 'd host \<Rightarrow> bool" where
  "host_tidy live h \<longleftrightarrow>
     (\<forall>argv env. keeps live (\<lambda>d. fst (h_git h argv env d)))
     \<and> (\<forall>tmpl d. case snd (h_mkdir h tmpl d) of
                  Inl e \<Rightarrow> live (fst (h_mkdir h tmpl d)) = live d
                | Inr p \<Rightarrow> creates live d (fst (h_mkdir h tmpl d)) p)
     \<and> removes live (\<lambda>p d. fst (h_remove h p d))
     \<and> (\<forall>d p. p \<in> live d \<longrightarrow> \<not> has_suffix p ''/.git'')"

definition network_tidy :: "('d \<Rightarrow> string set) \<Rightarrow> ('k, 'd) gh_env \<Rightarrow> bool" where
  "network_tidy live ge \<longleftrightarrow>
     (\<forall>rq. keeps live (\<lambda>d. fst (ge_do ge rq d))) \<and> (\<forall>k s. keeps live (\<lambda>d. fst (ge_sign ge k s d)))"

lemma docker_keeps:
  assumes "docker_tidy live bv"
  shows "bv_run bv d args = (d1, ok, out) \<Longrightarrow> live d1 = live d"
    and "bv_chmod bv d p m = (d2, ok2) \<Longrightarrow> live d2 = live d"
    and "bv_rand bv d = (d3, r) \<Longrightarrow> live d3 = live d"
    and "bv_build bv d args' t = (d4, oc, e) \<Longrightarrow> live d4 = live d"
    and "bv_tar bv d = (d5, None) \<Longrightarrow> live d5 = live d"
    and "bv_tar bv d = (d6, Some f) \<Longrightarrow> creates live d d6 f"
    and "live (bv_remove bv d p) = live d - {p}"
    and "live (fst (bv_run bv d args)) = live d"
proof -
  note ops = assms [unfolded docker_tidy_def keeps_def removes_def]
  have keep: "live (fst (bv_run bv d args)) = live d" "live (fst (bv_chmod bv d p m)) = live d"
    "live (fst (bv_rand bv d)) = live d" "live (fst (bv_build bv d args' t)) = live d"
    by (rule ops [THEN conjunct1, rule_format], rule ops [THEN conjunct2, THEN conjunct1, rule_format],
        rule ops [THEN conjunct2, THEN conjunct2, THEN conjunct1, rule_format],
        rule ops [THEN conjunct2, THEN conjunct2, THEN conjunct2, THEN conjunct1, rule_format])
  note rest = ops [THEN conjunct2, THEN conjunct2, THEN conjunct2, THEN conjunct2]
  show "bv_run bv d args = (d1, ok, out) \<Longrightarrow> live d1 = live d" using keep(1) by simp
  show "bv_chmod bv d p m = (d2, ok2) \<Longrightarrow> live d2 = live d" using keep(2) by simp
  show "bv_rand bv d = (d3, r) \<Longrightarrow> live d3 = live d" using keep(3) by simp
  show "bv_build bv d args' t = (d4, oc, e) \<Longrightarrow> live d4 = live d" using keep(4) by simp
  have tar: "case snd (bv_tar bv d) of None \<Rightarrow> live (fst (bv_tar bv d)) = live d
      | Some t \<Rightarrow> creates live d (fst (bv_tar bv d)) t" by (rule rest [THEN conjunct1, rule_format])
  show "bv_tar bv d = (d5, None) \<Longrightarrow> live d5 = live d" using tar by simp
  show "bv_tar bv d = (d6, Some f) \<Longrightarrow> creates live d d6 f" using tar by simp
  show "live (bv_remove bv d p) = live d - {p}" by (rule rest [THEN conjunct2, rule_format])
  show "live (fst (bv_run bv d args)) = live d" by (rule keep(1))
qed

section \<open>A build\<close>

lemma relax_live:
  assumes "docker_tidy live bv"
  shows "relax_context_perms bv vs d = (d', ok) \<Longrightarrow> live d' = live d"
proof (induction vs arbitrary: d)
  case (Cons v vs)
  obtain d1 ok1 where v: "relax_visit bv v d = (d1, ok1)" by fastforce
  then have "live d1 = live d"
    by (auto simp: relax_visit_def Let_def docker_keeps(2) [OF assms] split: walk_visit.splits if_splits option.splits)
  with Cons v show ?case by (auto split: if_splits)
qed simp

lemma sandbox_ran_live:
  assumes "docker_tidy live bv" "sandbox_build bv b tag dir df d = (b1, d1, res)"
    "ensure_network bv b d = (b0, d0, Ok ())" "relax_context_perms bv (bv_walk bv d0 dir) d0 = (d2, True)"
    "bv_rand bv d2 = (d3, bytes)" "rand_hex bytes = Some hex" "bv_tar bv d3 = (d4, Some f)"
  shows "live d1 = live d3"
proof -
  note keep = docker_keeps [OF assms(1)] and start = assms(2-7)
  obtain d5 oc e where run: "bv_build bv d4 (run_args (bv_cpus bv) (bd_sandbox b0) (''showcase-build-'' @ hex) tag dir df) f
      = (d5, oc, e)" by (metis prod_cases3)
  have "\<exists>d7. live d7 = live d5 \<and> d1 = bv_remove bv (fst (bv_run bv d7 [''rm'', ''-f'', ''showcase-build-'' @ hex])) f"
  proof (cases oc)
    case BuildRan
    obtain d6 ok6 out6 where ld: "bv_run bv d5 [''load'', ''-i'', f] = (d6, ok6, out6)" by (metis prod_cases3)
    show ?thesis
      using start run BuildRan ld keep(1) [OF ld]
      by (intro exI [of _ d6]) (simp add: sandbox_build_def Let_def)
  qed (use start run in \<open>auto simp: sandbox_build_def Let_def\<close>)
  then obtain d7 where d7: "live d7 = live d5"
    "d1 = bv_remove bv (fst (bv_run bv d7 [''rm'', ''-f'', ''showcase-build-'' @ hex])) f" by blast
  have "live d1 = live d7 - {f}" unfolding d7(2) keep(7) keep(8) ..
  with keep(4) [OF run] keep(6) [OF assms(7)] d7(1) show ?thesis unfolding creates_def by (elim conjE) simp
qed

lemma sandbox_build_live:
  assumes "docker_tidy live bv" "sandbox_build bv b tag dir df d = (b1, d1, res)"
  shows "live d1 = live d"
proof -
  note keep = docker_keeps [OF assms(1)]
  obtain b0 d0 r0 where en: "ensure_network bv b d = (b0, d0, r0)" by (metis prod_cases3)
  have d0: "live d0 = live d"
    using en keep(1) by (auto simp: ensure_network_def Let_def split: if_splits prod.splits bool.splits)
  obtain d2 ok where rl: "relax_context_perms bv (bv_walk bv d0 dir) d0 = (d2, ok)" by fastforce
  have d2: "live d2 = live d" using relax_live [OF assms(1) rl] d0 by simp
  obtain d3 bytes where rnd: "bv_rand bv d2 = (d3, bytes)" by fastforce
  have d3: "live d3 = live d" using keep(3) [OF rnd] d2 by simp
  obtain d4 tar where tar: "bv_tar bv d3 = (d4, tar)" by fastforce
  show ?thesis
  proof (cases "r0 = Ok () \<and> ok \<and> rand_hex bytes \<noteq> None \<and> tar \<noteq> None")
    case False
    then consider (net) e where "r0 = Inl e" | (perms) "r0 = Ok ()" "\<not> ok" | (rand) "r0 = Ok ()" "ok" "rand_hex bytes = None"
      | (no_tar) hex where "r0 = Ok ()" "ok" "rand_hex bytes = Some hex" "tar = None"
      by (cases r0) auto
    then show ?thesis
    proof cases
      case net
      with assms(2) en d0 show ?thesis by (simp add: sandbox_build_def)
    next
      case perms
      with assms(2) en rl d2 show ?thesis by (simp add: sandbox_build_def)
    next
      case rand
      with assms(2) en rl rnd d3 show ?thesis by (simp add: sandbox_build_def)
    next
      case (no_tar hex)
      then have t: "bv_tar bv d3 = (d4, None)" using tar by simp
      from keep(5) [OF t] d3 have "live d4 = live d" by simp
      moreover have "d1 = d4" using assms(2) en rl rnd no_tar t by (simp add: sandbox_build_def Let_def)
      ultimately show ?thesis by simp
    qed
  next
    case True
    then obtain hex f where "r0 = Ok ()" "ok" "rand_hex bytes = Some hex" "tar = Some f" by auto
    with sandbox_ran_live [OF assms] en rl rnd tar d3 show ?thesis by simp
  qed
qed

lemma evict_live:
  assumes "evict bv cap c d = Some r" "docker_tidy live bv"
  shows "live (snd r) = live d"
proof -
  have "docker_tidy live bv \<longrightarrow> live (snd r) = live d"
  proof (rule evict.raw_induct [OF _ assms(1)])
    fix ev :: "'a build_env \<Rightarrow> int \<Rightarrow> cache \<Rightarrow> 'a \<Rightarrow> (cache \<times> 'a) option" and bv cap c d r
    assume IH: "\<And>bv cap c d r. ev bv cap c d = Some r \<Longrightarrow> docker_tidy live bv \<longrightarrow> live (snd r) = live d"
      and step: "(if cap < int (length c) then ev bv cap (cache_remove (lru_key c) c) (remove_image bv (tag_of c (lru_key c)) d)
        else Some (c, d)) = Some r"
    show "docker_tidy live bv \<longrightarrow> live (snd r) = live d"
    proof (cases "cap < int (length c)")
      case True
      with step have "ev bv cap (cache_remove (lru_key c) c) (remove_image bv (tag_of c (lru_key c)) d) = Some r" by simp
      from IH [OF this] show ?thesis by (simp add: remove_image_def docker_keeps(8))
    next
      case False
      with step show ?thesis by auto
    qed
  qed
  with assms(2) show ?thesis by simp
qed

text \<open>What a build specification promises of its context: a failure leaves no temporary, and the cleanup takes
  the temporaries back to what they were.\<close>

definition restores :: "('d \<Rightarrow> string set) \<Rightarrow> 'd build_spec \<Rightarrow> bool" where
  "restores live sp \<longleftrightarrow>
     (\<forall>d. case snd (bs_context sp d) of
            None \<Rightarrow> live (fst (bs_context sp d)) = live d
          | Some (dir, cleanup) \<Rightarrow> (\<forall>e. live e = live (fst (bs_context sp d)) \<longrightarrow> live (cleanup e) = live d))"

lemma build_live:
  assumes "docker_tidy live bv" "restores live sp" "build bv sp b d = Some (b', d', res)"
  shows "live d' = live d"
proof (cases "is_hit sp b")
  case True
  from build_hit_versions(2) [OF True assms(3)] show ?thesis by simp
next
  case False
  let ?b = "b\<lparr>bd_tick := bd_tick b + 1\<rparr>" and ?tag = "bs_image sp @ '':'' @ short_version (bs_version sp)"
  have run: "build_miss bv sp ?b d = Some (b', d', res)"
    using assms(3) False by (auto simp: build_def is_hit_def Let_def split: option.splits if_splits)
  obtain d1 cx where ctx: "bs_context sp d = (d1, cx)" by fastforce
  have here: "case cx of None \<Rightarrow> live d1 = live d
      | Some (dir, cleanup) \<Rightarrow> (\<forall>e. live e = live d1 \<longrightarrow> live (cleanup e) = live d)"
    using assms(2) [unfolded restores_def, rule_format, of d] unfolding ctx fst_conv snd_conv .
  show ?thesis
  proof (cases cx)
    case None
    with run ctx here show ?thesis by (simp add: build_miss_def)
  next
    case (Some dc)
    obtain dir cleanup where dc: "dc = (dir, cleanup)" by (cases dc)
    have restored: "live (cleanup e) = live d" if "live e = live d1" for e using here that by (simp add: Some dc)
    obtain b1 d2 r where sb: "sandbox_build bv ?b ?tag dir (bs_dockerfile sp) d1 = (b1, d2, r)" by (metis prod_cases3)
    have d2: "live d2 = live d1" by (rule sandbox_build_live [OF assms(1) sb])
    show ?thesis
    proof (cases r)
      case (Inl e)
      with run ctx Some dc sb have "d' = cleanup d2" by (simp add: build_miss_def Let_def)
      with restored [OF d2] show ?thesis by simp
    next
      case (Inr v)
      obtain d3 c where d3: "live d3 = live d2"
        "map_option (\<lambda>(c', d'). (b1\<lparr>bd_cache := c'\<rparr>, cleanup d', Ok ?tag)) (evict bv (bd_max b1) c d3) = Some (b', d', res)"
      proof -
        let ?d3 = "case cache_get (bd_cache b1) (bs_image sp) of
            Some prev \<Rightarrow> if en_tag prev \<noteq> ?tag then remove_image bv (en_tag prev) d2 else d2 | None \<Rightarrow> d2"
        have "live ?d3 = live d2" by (simp add: remove_image_def docker_keeps(8) [OF assms(1)] split: option.split)
        moreover have "map_option (\<lambda>(c', d'). (b1\<lparr>bd_cache := c'\<rparr>, cleanup d', Ok ?tag)) (evict bv (bd_max b1)
            (cache_put (bs_image sp) \<lparr>en_version = bs_version sp, en_tag = ?tag, en_used = bd_tick b1\<rparr> (bd_cache b1)) ?d3)
          = Some (b', d', res)"
          using run ctx Some dc sb Inr by (simp add: build_miss_def Let_def cong: option.case_cong)
        ultimately show thesis by (rule that)
      qed
      then obtain c' d4 where ev: "evict bv (bd_max b1) c d3 = Some (c', d4)" "d' = cleanup d4" by auto
      from evict_live [OF ev(1) assms(1)] have "live d4 = live d1" using d2 d3(1) by simp
      with restored ev(2) show ?thesis by simp
    qed
  qed
qed

section \<open>Tokens, commits and clones\<close>

lemma send_live: "network_tidy live ge \<Longrightarrow> send ge rq d = (d', r) \<Longrightarrow> live d' = live d"
  by (auto simp: network_tidy_def keeps_def send_def split: if_splits prod.splits sum.splits) (metis fst_conv)+

lemma token_live:
  assumes "network_tidy live ge" "installation_token ge c owner repo d = (d', r)"
  shows "live d' = live d"
proof -
  obtain d1 j where jwt: "app_jwt ge c d = (d1, j)" by fastforce
  have d1: "live d1 = live d"
    using assms(1) jwt by (auto simp: app_jwt_def network_tidy_def keeps_def Let_def split: prod.splits option.splits) (metis fst_conv)+
  show ?thesis
  proof (cases j)
    case (Inl e)
    with assms(2) jwt d1 show ?thesis by (simp add: installation_token_def mint_token_def)
  next
    case (Inr tok)
    obtain d2 i where inst: "repo_installation_id ge c tok owner repo d1 = (d2, i)" by fastforce
    have d2: "live d2 = live d1"
      using inst by (auto simp: repo_installation_id_def dest: send_live [OF assms(1)]
          split: prod.splits sum.splits option.splits if_splits)
    show ?thesis
    proof (cases i)
      case (Inl e)
      with assms(2) jwt \<open>j = Inr tok\<close> inst d1 d2 show ?thesis by (simp add: installation_token_def mint_token_def)
    next
      case (Inr n)
      obtain d3 rs where snd: "send ge (mint_request ge c tok n repo contents_read) d2 = (d3, rs)" by fastforce
      have "d' = d3"
        using assms(2) jwt \<open>j = Inr tok\<close> inst Inr snd
        by (auto simp: installation_token_def mint_token_def split: sum.splits if_splits option.splits)
      with send_live [OF assms(1) snd] d1 d2 show ?thesis by simp
    qed
  qed
qed

lemma host_keeps:
  assumes "host_tidy live h"
  shows "live (fst (h_git h argv env d)) = live d"
    and "live (fst (h_remove h p d)) = live d - {p}"
    and "h_mkdir h tmpl d = (d1, Inl e) \<Longrightarrow> live d1 = live d"
    and "h_mkdir h tmpl d = (d2, Inr q) \<Longrightarrow> creates live d d2 q"
    and "x \<in> live d \<Longrightarrow> \<not> has_suffix x ''/.git''"
proof -
  note ops = assms [unfolded host_tidy_def keeps_def removes_def]
  show "live (fst (h_git h argv env d)) = live d" by (rule ops [THEN conjunct1, rule_format])
  have mk: "case snd (h_mkdir h tmpl d) of Inl e \<Rightarrow> live (fst (h_mkdir h tmpl d)) = live d
      | Inr p \<Rightarrow> creates live d (fst (h_mkdir h tmpl d)) p"
    by (rule ops [THEN conjunct2, THEN conjunct1, rule_format])
  show "h_mkdir h tmpl d = (d1, Inl e) \<Longrightarrow> live d1 = live d" using mk by simp
  show "h_mkdir h tmpl d = (d2, Inr q) \<Longrightarrow> creates live d d2 q" using mk by simp
  show "live (fst (h_remove h p d)) = live d - {p}" by (rule ops [THEN conjunct2, THEN conjunct2, THEN conjunct1, rule_format])
  show "x \<in> live d \<Longrightarrow> \<not> has_suffix x ''/.git''"
    by (rule ops [THEN conjunct2, THEN conjunct2, THEN conjunct2, rule_format])
qed

lemma run_git_live:
  assumes "host_tidy live h"
  shows "run_git h tok args d = (d', r) \<Longrightarrow> live d' = live d"
    and "run_steps h tok ss d = (d'', e) \<Longrightarrow> live d'' = live d"
proof -
  show git: "live d' = live d" if "run_git h tok args d = (d', r)" for args d d' r
    using that host_keeps(1) [OF assms, of "hardening_args @ args" "hardening_env (h_path h) tok" d]
    by (auto simp: run_git_def split: prod.splits option.splits)
  show "run_steps h tok ss d = (d'', e) \<Longrightarrow> live d'' = live d"
  proof (induction ss arbitrary: d)
    case (Cons s ss)
    obtain d1 r where g: "run_git h tok s d = (d1, r)" by fastforce
    with Cons git [OF g] show ?case by (cases r) auto
  qed simp
qed

lemma resolve_commit_live:
  assumes "host_tidy live h" "resolve_commit h remote ref tok d = (d', r)"
  shows "live d' = live d"
proof -
  obtain d1 o1 where g: "run_git h tok [''ls-remote'', ''--'', remote, if ref = '''' then ''HEAD'' else ref] d = (d1, o1)"
    by fastforce
  with assms(2) have "d' = d1"
    by (auto simp: resolve_commit_def Let_def split: sum.splits if_splits)
  with run_git_live(1) [OF assms(1) g] show ?thesis by simp
qed

lemma clone_commit_live:
  assumes "host_tidy live h" "clone_commit h remote sha tok d = (d', r)"
  shows "case r of Inl e \<Rightarrow> live d' = live d | Inr (work, parent) \<Rightarrow> parent \<notin> live d \<and> live d' = insert parent (live d)"
proof (cases "match_string sha_re sha")
  case False
  with assms(2) show ?thesis by (auto simp: clone_commit_def)
next
  case True
  note keep = host_keeps [OF assms(1)]
  obtain d1 m where mk: "h_mkdir h ''showcase-clone-*'' d = (d1, m)" by fastforce
  show ?thesis
  proof (cases m)
    case (Inl e)
    with assms(2) mk True keep(3) [of _ d d1 e] show ?thesis by (auto simp: clone_commit_def)
  next
    case (Inr parent)
    have cr: "parent \<notin> live d" "live d1 = insert parent (live d)" using keep(4) mk Inr by (auto simp: creates_def)
    let ?work = "parent @ ''/repo''"
    obtain d2 e where st: "run_steps h tok (clone_steps ?work remote sha) d1 = (d2, e)" by fastforce
    have d2: "live d2 = live d1" by (rule run_git_live(2) [OF assms(1) st])
    obtain d3 e3 where rm: "h_remove h (?work @ ''/.git'') d2 = (d3, e3)" by fastforce
    have "has_suffix (?work @ ''/.git'') ''/.git''" by (simp add: has_suffix_def)
    then have "?work @ ''/.git'' \<notin> live d2" using keep(5) by blast
    then have d3: "live d3 = live d2" using keep(2) [of "?work @ ''/.git''" d2] rm by simp
    have back1: "live (fst (h_remove h parent x)) = live d" if "live x = live d1" for x
      using that cr keep(2) [of parent x] by simp
    show ?thesis
      using assms(2) True mk Inr st rm cr d2 d3 back1
      by (cases e; cases e3) (auto simp: clone_commit_def Let_def)
  qed
qed

lemma resolve_head_live:
  assumes "network_tidy live (mc_github mc)" "host_tidy live (mc_host mc)" "resolve_head mc gh owner repo d = (d', r)"
  shows "live d' = live d"
proof -
  obtain d1 t where tok: "installation_token (mc_github mc) gh owner repo d = (d1, t)" by fastforce
  have d1: "live d1 = live d" by (rule token_live [OF assms(1) tok])
  show ?thesis
  proof (cases t)
    case (Inl e)
    with assms(3) tok d1 show ?thesis by (simp add: resolve_head_def)
  next
    case (Inr te)
    obtain tk ex where te: "te = (tk, ex)" by (cases te)
    obtain d2 c where rc: "resolve_commit (mc_host mc) (clone_url owner repo) ''HEAD'' tk d1 = (d2, c)" by fastforce
    have "d' = d2" using assms(3) tok Inr te rc by (auto simp: resolve_head_def split: sum.splits)
    with resolve_commit_live [OF assms(2) rc] d1 show ?thesis by simp
  qed
qed

section \<open>A publish\<close>

definition tidy :: "('d \<Rightarrow> string set) \<Rightarrow> ('k, 'd) machine \<Rightarrow> bool" where
  "tidy live mc \<longleftrightarrow> docker_tidy live (mc_docker mc) \<and> host_tidy live (mc_host mc) \<and> network_tidy live (mc_github mc)"

lemma git_context_restores:
  assumes "tidy live mc"
  shows "case snd (git_context mc c owner repo sha tok d) of
      None \<Rightarrow> live (fst (git_context mc c owner repo sha tok d)) = live d
    | Some (dir, cleanup) \<Rightarrow>
        (\<forall>e. live e = live (fst (git_context mc c owner repo sha tok d)) \<longrightarrow> live (cleanup e) = live d)"
proof -
  have parts: "host_tidy live (mc_host mc)" "network_tidy live (mc_github mc)" using assms by (simp_all add: tidy_def)
  obtain d1 t where mint: "(if tok = '''' then (case installation_token (mc_github mc) c owner repo d of
        (d1, Inl e) \<Rightarrow> (d1, None) | (d1, Inr (t, _)) \<Rightarrow> (d1, Some t)) else (d, Some tok)) = (d1, t)" by fastforce
  have d1: "live d1 = live d"
    using mint by (auto dest: token_live [OF parts(2)] split: if_splits prod.splits sum.splits)
  show ?thesis
  proof (cases t)
    case None
    with mint d1 show ?thesis by (simp add: git_context_def)
  next
    case (Some tk)
    obtain d2 r where cl: "clone_commit (mc_host mc) (clone_url owner repo) sha tk d1 = (d2, r)" by fastforce
    have step: "git_context mc c owner repo sha tok d = (case r of Inl e \<Rightarrow> (d2, None)
        | Inr (work, parent) \<Rightarrow> (d2, Some (work, \<lambda>d. fst (h_remove (mc_host mc) parent d))))"
      using mint cl Some by (simp add: git_context_def)
    show ?thesis
      using clone_commit_live [OF parts(1) cl] d1 host_keeps(2) [OF parts(1)]
      by (cases r) (auto simp: step split: prod.splits)
  qed
qed

lemma build_specs_live:
  assumes "tidy live mc" "pid \<noteq> fixture_project_id" "build_specs mc gh d pid svc commit = (d', osp)"
  shows "live d' = live d" "osp = Some sp \<Longrightarrow> restores live sp"
proof -
  have parts: "host_tidy live (mc_host mc)" "network_tidy live (mc_github mc)" using assms(1) by (simp_all add: tidy_def)
  obtain d1 r where sp: "git_build_spec mc gh pid svc commit d = (d1, r)" by fastforce
  have d': "d' = d1" "osp = (case r of Inl e \<Rightarrow> None | Inr sp \<Rightarrow> Some sp)"
    using assms(2,3) sp by (auto simp: build_specs_def spec_for_def split: sum.splits)
  show "live d' = live d"
    using sp by (auto simp: d'(1) git_build_spec_def dest: resolve_head_live [OF parts(2,1)]
        split: option.splits sum.splits prod.splits if_splits)
  assume "osp = Some sp"
  then obtain c owner repo sha tok where ctx: "bs_context sp = git_context mc c owner repo sha tok"
    using sp d'(2) by (auto simp: git_build_spec_def split: option.splits sum.splits prod.splits)
  show "restores live sp"
    unfolding restores_def ctx by (intro allI) (rule git_context_restores [OF assms(1)])
qed

lemma build_services_live:
  assumes "tidy live mc" "pid \<noteq> fixture_project_id"
    "build_services (mc_docker mc) (build_specs mc gh) pid p svcs images b d = Some (b', d', res)"
  shows "live d' = live d"
  using assms(3)
proof (induction svcs arbitrary: images b d)
  case (Cons svc svcs)
  have docker: "docker_tidy live (mc_docker mc)" using assms(1) by (simp add: tidy_def)
  obtain d1 osp where sp: "build_specs mc gh d pid svc (commit_for p svc) = (d1, osp)" by fastforce
  note live = build_specs_live [OF assms(1,2) sp]
  show ?case
  proof (cases osp)
    case None
    with Cons.prems sp live(1) show ?thesis by simp
  next
    case (Some s)
    obtain b1 d2 r where bd: "build (mc_docker mc) s b d1 = Some (b1, d2, r)"
      using Cons.prems sp Some by (cases "build (mc_docker mc) s b d1") auto
    have d2: "live d2 = live d" using build_live [OF docker live(2) [OF Some] bd] live(1) by simp
    show ?thesis
    proof (cases r)
      case (Inl e)
      with Cons.prems sp Some bd d2 show ?thesis by simp
    next
      case (Inr tag)
      with Cons.prems sp Some bd have "build_services (mc_docker mc) (build_specs mc gh) pid p svcs
          (images(svc_name svc \<mapsto> tag)) b1 d2 = Some (b', d', res)" by (simp del: fun_upd_apply)
      from Cons.IH [OF this] d2 show ?thesis by simp
    qed
  qed
qed simp

lemma pin_services_live:
  assumes "tidy live mc" "pin_services mc gh svcs heads commits d = (d', r)"
  shows "live d' = live d"
  using assms(2)
proof (induction svcs arbitrary: heads commits d)
  case (Cons svc svcs)
  have parts: "network_tidy live (mc_github mc)" "host_tidy live (mc_host mc)" using assms(1) by (simp_all add: tidy_def)
  show ?case
  proof (cases "parse_repo (mc_unicode mc) (svc_repo svc)")
    case (Inl e)
    with Cons.prems show ?thesis by simp
  next
    case (Inr pair)
    obtain owner repo where pair: "pair = (owner, repo)" by (cases pair)
    let ?key = "repo_key (mc_unicode mc) owner repo"
    obtain d1 h where h: "(case heads ?key of Some sha \<Rightarrow> (d, Ok sha)
        | None \<Rightarrow> (case resolve_head mc gh owner repo d of (d1, Inl e) \<Rightarrow> (d1, Err e) | (d1, Inr (sha, _)) \<Rightarrow> (d1, Ok sha)))
      = (d1, h)" by fastforce
    have d1: "live d1 = live d"
      using h by (auto dest: resolve_head_live [OF parts] split: option.splits prod.splits sum.splits)
    show ?thesis
    proof (cases h)
      case (Inl e)
      with Cons.prems Inr pair h d1 show ?thesis by (simp add: \<open>parse_repo (mc_unicode mc) (svc_repo svc) = Inr pair\<close> Let_def)
    next
      case (Inr sha)
      with Cons.prems pair h have "pin_services mc gh svcs (heads(?key \<mapsto> sha)) (commits(svc_name svc \<mapsto> sha)) d1 = (d', r)"
        by (simp add: \<open>parse_repo (mc_unicode mc) (svc_repo svc) = Inr pair\<close> Let_def del: fun_upd_apply)
      from Cons.IH [OF this] d1 show ?thesis by simp
    qed
  qed
qed simp

text \<open>C7: a publish leaves no temporary behind. Whatever fails on the way, a token, the network, a clone, the
  sandbox, the docker daemon, and whatever succeeds, the clones with their sources and the image
  files that exist after a publish are those that existed before.\<close>

theorem publish_leaves_no_temporary:
  assumes "tidy live mc" "pid \<noteq> fixture_project_id" "build_project mc gh pid m b d = Some (b', d', res)"
  shows "live d' = live d"
proof -
  obtain d1 r where pin: "pin_services mc gh (m_services m) Map.empty Map.empty d = (d1, r)" by fastforce
  have d1: "live d1 = live d" by (rule pin_services_live [OF assms(1) pin])
  show ?thesis
  proof (cases "m_services m = []"; cases r)
    assume "m_services m = []"
    with assms(3) show ?thesis by (simp add: build_project_def)
  next
    assume "m_services m = []"
    with assms(3) show ?thesis by (simp add: build_project_def)
  next
    fix e assume "m_services m \<noteq> []" "r = Inl e"
    with assms(3) pin have "d' = d1" by (simp add: build_project_def)
    with d1 show ?thesis by simp
  next
    fix commits assume r: "m_services m \<noteq> []" "r = Inr commits"
    let ?run = "build_services (mc_docker mc) (build_specs mc (Some gh)) pid (draft_project m commits) (m_services m) Map.empty b d1"
    show ?thesis
    proof (cases ?run)
      case None
      with assms(3) pin r show ?thesis
        by (simp add: build_project_def building_source_def static_source_def draft_project_def)
    next
      case (Some t)
      obtain b1 d2 r1 where t: "t = (b1, d2, r1)" by (metis prod_cases3)
      have "d' = d2"
        using assms(3) pin r Some t
        by (cases r1) (simp_all add: build_project_def building_source_def static_source_def draft_project_def)
      with build_services_live [OF assms(1,2) Some [unfolded t]] d1 show ?thesis by simp
    qed
  qed
qed

section \<open>A machine that counts its temporaries\<close>

text \<open>The world is the list of temporaries; a new one is longer than all others. Docker has no network to offer, so
  that every build fails after the clone.\<close>

definition fresh_temp :: "string list \<Rightarrow> string" where
  "fresh_temp d = replicate (Suc (sum_list (map length d))) (CHR ''a'')"

definition temps :: "string list \<Rightarrow> string set" where
  "temps d = {p \<in> set d. \<not> has_suffix p ''/.git''}"

definition ledger_machine :: "(unit, string list) machine" where
  "ledger_machine =
     \<lparr>mc_unicode = sample_unicode,
      mc_github =
        \<lparr>ge_url_ok = (\<lambda>u. True),
         ge_do = (\<lambda>rq n. (n, Ok \<lparr>hr_status = (if hq_method rq = ''POST'' then 201 else 200), hr_body = ''''\<rparr>)),
         ge_now = (\<lambda>n. 0), ge_sign = (\<lambda>k s n. (n, Some '''')), ge_installation = (\<lambda>b. Some 1),
         ge_token = (\<lambda>b. Some (''tok'', 0)), ge_permission = (\<lambda>b. Some ''write''), ge_printable = (\<lambda>r. True)\<rparr>,
      mc_host =
        \<lparr>h_git = (\<lambda>argv env d. (d, sample_sha, None)), h_mkdir = (\<lambda>p d. (fresh_temp d # d, Ok (fresh_temp d))),
         h_remove = (\<lambda>p d. (filter (\<lambda>q. q \<noteq> p) d, None)), h_path = ''/usr/bin''\<rparr>,
      mc_docker =
        \<lparr>bv_run = (\<lambda>d args. (d, False, ''no network'')), bv_walk = (\<lambda>d dir. []), bv_chmod = (\<lambda>d p m. (d, True)),
         bv_rand = (\<lambda>d. (d, Some ''abcdefgh'')), bv_tar = (\<lambda>d. (fresh_temp d # d, Some (fresh_temp d))),
         bv_build = (\<lambda>d args tar. (d, BuildRan, '''')), bv_remove = (\<lambda>d p. filter (\<lambda>q. q \<noteq> p) d), bv_cpus = (\<lambda>_. ''2'')\<rparr>,
      mc_embedded =
        \<lparr>em_walk = (\<lambda>s. None), em_read = (\<lambda>p. None), em_sha256 = (\<lambda>s. s), em_mkdir_temp = (\<lambda>p d. (d, None)),
         em_mkdir_all = (\<lambda>p d. (d, False)), em_write = (\<lambda>p c d. (d, False)), em_remove_all = (\<lambda>p d. d)\<rparr>\<rparr>"

lemma fresh_temp_new: "fresh_temp d \<notin> set d" "\<not> has_suffix (fresh_temp d) ''/.git''"
proof -
  have "length p \<le> sum_list (map length d)" if "p \<in> set d" for p
    using that by (intro member_le_sum_list) auto
  then show "fresh_temp d \<notin> set d" by (fastforce simp: fresh_temp_def)
  show "\<not> has_suffix (fresh_temp d) ''/.git''"
  proof
    assume "has_suffix (fresh_temp d) ''/.git''"
    then have "CHR ''/'' \<in> set (fresh_temp d)" unfolding has_suffix_iff by auto
    then show False by (simp add: fresh_temp_def split: if_splits)
  qed
qed

lemma ledger_tidy: "tidy temps ledger_machine"
  using fresh_temp_new
  by (auto simp: tidy_def docker_tidy_def host_tidy_def network_tidy_def keeps_def creates_def removes_def temps_def
      ledger_machine_def)

lemma ledger_token: "installation_token (mc_github ledger_machine) sample_client owner repo d = (d, Ok (''tok'', 0))"
  by (simp add: installation_token_def mint_token_def app_jwt_def repo_installation_id_def send_def ledger_machine_def
      installation_request_def mint_request_def Let_def)

lemma ledger_pins:
  "pin_services ledger_machine sample_client (m_services sample_manifest) Map.empty Map.empty d = (d, Ok [''web'' \<mapsto> sample_sha])"
proof -
  have "trim_space sample_sha = sample_sha" "first_field sample_sha = sample_sha" "sample_sha \<noteq> ''''" by code_simp+
  then have "resolve_commit (mc_host ledger_machine) r ''HEAD'' ''tok'' d = (d, Ok sample_sha)" for r
    using sample_sha_ref by (simp add: resolve_commit_def run_git_def ledger_machine_def Let_def)
  then have "resolve_head ledger_machine sample_client owner repo d = (d, Ok (sample_sha, ''tok''))" for owner repo
    by (simp add: resolve_head_def ledger_token)
  moreover have "mc_unicode ledger_machine = sample_unicode" by (simp add: ledger_machine_def)
  ultimately show ?thesis by (simp add: sample_manifest_def sample_repo Let_def)
qed

lemma ledger_build: "\<exists>b' d' e. build (mc_docker ledger_machine) sp (new_builder 1 None) d = Some (b', d', Err e)"
proof -
  have net: "ensure_network (mc_docker ledger_machine) (new_builder 1 None\<lparr>bd_tick := 1\<rparr>) d
      = (new_builder 1 None\<lparr>bd_tick := 1\<rparr>, d, Err (NetworkFailed ''no network''))" for d
    by (simp add: ensure_network_def ledger_machine_def new_builder_def default_sandbox_def has_prefix_def Let_def)
  then have "sandbox_build (mc_docker ledger_machine) (new_builder 1 None\<lparr>bd_tick := 1\<rparr>) tag dir df d
      = (new_builder 1 None\<lparr>bd_tick := 1\<rparr>, d, Err (NetworkFailed ''no network''))" for tag dir df d
    by (simp add: sandbox_build_def)
  moreover have "build (mc_docker ledger_machine) sp (new_builder 1 None) d
      = build_miss (mc_docker ledger_machine) sp (new_builder 1 None\<lparr>bd_tick := 1\<rparr>) d"
    by (simp add: build_def new_builder_def cache_get_def Let_def)
  moreover obtain d1 cx where "bs_context sp d = (d1, cx)" by fastforce
  ultimately show ?thesis by (cases cx) (auto simp: build_miss_def Let_def)
qed

lemma publish_leaves_no_temporary_witness:
  "\<exists>b' d' e. build_project ledger_machine sample_client ''p'' sample_manifest (new_builder 1 None) [''/tmp/x'']
       = Some (b', d', Err e) \<and> temps d' = {''/tmp/x''}"
proof -
  let ?draft = "draft_project sample_manifest [''web'' \<mapsto> sample_sha]" and ?svc = "hd (m_services sample_manifest)"
  have svcs: "m_services sample_manifest = [?svc]" "pj_manifest ?draft = sample_manifest"
    by (simp_all add: sample_manifest_def draft_project_def)
  obtain d1 osp where sp: "build_specs ledger_machine (Some sample_client) [''/tmp/x''] ''p'' ?svc (commit_for ?draft ?svc) = (d1, osp)"
    by fastforce
  have "\<exists>b' d' e. build_services (mc_docker ledger_machine) (build_specs ledger_machine (Some sample_client)) ''p'' ?draft
      (m_services sample_manifest) Map.empty (new_builder 1 None) [''/tmp/x''] = Some (b', d', Err e)"
  proof (cases osp)
    case None
    with sp show ?thesis by (subst svcs(1)) simp
  next
    case (Some s)
    obtain b' d' e where "build (mc_docker ledger_machine) s (new_builder 1 None) d1 = Some (b', d', Err e)"
      using ledger_build by blast
    with sp Some show ?thesis by (subst svcs(1)) simp
  qed
  then obtain b' d' e where "build_services (mc_docker ledger_machine) (build_specs ledger_machine (Some sample_client)) ''p'' ?draft
      (m_services sample_manifest) Map.empty (new_builder 1 None) [''/tmp/x''] = Some (b', d', Err e)" by blast
  moreover have "m_services sample_manifest \<noteq> []" by (simp add: sample_manifest_def)
  ultimately have run: "build_project ledger_machine sample_client ''p'' sample_manifest (new_builder 1 None) [''/tmp/x'']
      = Some (b', d', Err (DraftFailed e))"
    using svcs(2) by (simp add: build_project_def ledger_pins building_source_def static_source_def)
  have "temps d' = temps [''/tmp/x'']"
    by (rule publish_leaves_no_temporary [OF ledger_tidy _ run]) (simp add: fixture_project_id_def)
  also have "\<dots> = {''/tmp/x''}" by (auto simp: temps_def has_suffix_def)
  finally show ?thesis using run by blast
qed

end
