(* ===== verification/Migrate.thy ===== *)
theory Migrate
  imports Prelude GoText
begin

text \<open>
  Schema migrations (\<open>internal/store/migrate.go\<close>): the embedded files, and \<open>Migrate\<close> on a
  database of any type that runs SQL. The database server's part is a parameter: whether a body runs
  and what it makes of the data, and the faults of each statement. A transaction that does not commit
  leaves the data and the bookkeeping table as they were.
\<close>

section \<open>The embedded files\<close>

text \<open>A directory entry: its name, whether it is a directory, and its bytes when it can be read.\<close>

record dir_entry =
  de_name :: string
  de_is_dir :: bool
  de_body :: "string option"

record migration =
  mg_version :: int
  mg_name :: string
  mg_sql :: string
  mg_checksum :: string

datatype migrate_err =
    ReadDirFailed
  | BadMigrationName string
  | BadMigrationVersion string
  | DuplicateVersion int string
  | ReadMigrationFailed string
  | AcquireFailed
  | LockFailed
  | EnsureFailed
  | LoadAppliedFailed
  | UnknownApplied int int
  | ModifiedAfterApply int string
  | ApplyFailed int string

definition parse_migration_name :: "string \<Rightarrow> (migrate_err, int \<times> string) result" where
  "parse_migration_name filename =
     (case cut (trim_suffix filename ''.sql'') CHR ''_'' of
        None \<Rightarrow> Err (BadMigrationName filename)
      | Some (digits, name) \<Rightarrow>
          if digits = '''' \<or> name = '''' then Err (BadMigrationName filename)
          else case atoi digits of
                 None \<Rightarrow> Err (BadMigrationVersion filename)
               | Some version \<Rightarrow> Ok (version, name))"

fun load_entries ::
    "(string \<Rightarrow> string) \<Rightarrow> dir_entry list \<Rightarrow> int set \<Rightarrow> migration list \<Rightarrow> (migrate_err, migration list) result" where
  "load_entries checksum [] seen migs = Ok migs"
| "load_entries checksum (e # es) seen migs =
     (if de_is_dir e \<or> \<not> has_suffix (de_name e) ''.sql'' then load_entries checksum es seen migs
      else case parse_migration_name (de_name e) of
             Inl err \<Rightarrow> Err err
           | Inr (version, name) \<Rightarrow>
               if version \<in> seen then Err (DuplicateVersion version (de_name e))
               else case de_body e of
                      None \<Rightarrow> Err (ReadMigrationFailed (de_name e))
                    | Some body \<Rightarrow>
                        load_entries checksum es (insert version seen)
                          (migs @ [\<lparr>mg_version = version, mg_name = name, mg_sql = body,
                                    mg_checksum = checksum body\<rparr>]))"

text \<open>\<open>checksum\<close> is the hexadecimal SHA-256 of a file; the entries are missing when the directory
  cannot be read.\<close>

definition load_migrations ::
    "(string \<Rightarrow> string) \<Rightarrow> dir_entry list option \<Rightarrow> (migrate_err, migration list) result" where
  "load_migrations checksum entries =
     (case entries of
        None \<Rightarrow> Err ReadDirFailed
      | Some es \<Rightarrow> bind_res (load_entries checksum es {} []) (\<lambda>migs. Ok (sort_key mg_version migs)))"

section \<open>Applying them\<close>

text \<open>The data, and the table \<open>schema_migrations\<close> as the map from versions to checksums.\<close>

record 'd schema =
  sm_data :: 'd
  sm_applied :: "int \<rightharpoonup> string"

record 'd migrate_env =
  me_acquire :: bool
  me_lock :: bool
  me_ensure :: bool
  me_load :: bool
  me_begin :: "int \<Rightarrow> bool"
  me_exec :: "string \<Rightarrow> 'd \<Rightarrow> 'd option"
  me_insert :: "int \<Rightarrow> bool"
  me_commit :: "int \<Rightarrow> bool"

definition apply_one :: "'d migrate_env \<Rightarrow> migration \<Rightarrow> 'd schema \<Rightarrow> 'd schema \<times> bool" where
  "apply_one me m s =
     (if \<not> me_begin me (mg_version m) then (s, False)
      else case me_exec me (mg_sql m) (sm_data s) of
             None \<Rightarrow> (s, False)
           | Some d \<Rightarrow>
               if sm_applied s (mg_version m) \<noteq> None \<or> \<not> me_insert me (mg_version m)
                  \<or> \<not> me_commit me (mg_version m) then (s, False)
               else (\<lparr>sm_data = d, sm_applied = (sm_applied s)(mg_version m \<mapsto> mg_checksum m)\<rparr>, True))"

text \<open>The loop reads the versions that were applied when it started.\<close>

fun apply_pending ::
    "'d migrate_env \<Rightarrow> (int \<rightharpoonup> string) \<Rightarrow> migration list \<Rightarrow> 'd schema \<Rightarrow> 'd schema \<times> migrate_err option" where
  "apply_pending me applied [] s = (s, None)"
| "apply_pending me applied (m # ms) s =
     (case applied (mg_version m) of
        Some sum1 \<Rightarrow>
          if sum1 \<noteq> mg_checksum m then (s, Some (ModifiedAfterApply (mg_version m) (mg_name m)))
          else apply_pending me applied ms s
      | None \<Rightarrow>
          (case apply_one me m s of
             (s', True) \<Rightarrow> apply_pending me applied ms s'
           | (s', False) \<Rightarrow> (s', Some (ApplyFailed (mg_version m) (mg_name m)))))"

definition max_known :: "migration list \<Rightarrow> int" where
  "max_known migs = (if migs = [] then 0 else mg_version (last migs))"

text \<open>The query, its rows and the end of the rows, any of which may fail, as one step.\<close>

definition load_applied :: "'d migrate_env \<Rightarrow> 'd schema \<Rightarrow> (migrate_err, int \<rightharpoonup> string) result" where
  [simp]: "load_applied me s = (if \<not> me_load me then Err LoadAppliedFailed else Ok (sm_applied s))"

text \<open>The versions of the table in the order the driver returns its rows are \<open>rows\<close>; the first one past
  the known versions is reported.\<close>

definition migrate ::
    "(string \<Rightarrow> string) \<Rightarrow> dir_entry list option \<Rightarrow> 'd migrate_env \<Rightarrow> int list \<Rightarrow> 'd schema \<Rightarrow> 'd schema \<times> migrate_err option" where
  "migrate checksum entries me rows s =
     (case load_migrations checksum entries of
        Inl e \<Rightarrow> (s, Some e)
      | Inr migs \<Rightarrow>
          if \<not> me_acquire me then (s, Some AcquireFailed)
          else if \<not> me_lock me then (s, Some LockFailed)
          else if \<not> me_ensure me then (s, Some EnsureFailed)
          else (case load_applied me s of
                  Inl e \<Rightarrow> (s, Some e)
                | Inr applied \<Rightarrow>
                    (case List.find (\<lambda>v. max_known migs < v) rows of
                       Some v \<Rightarrow> (s, Some (UnknownApplied v (max_known migs)))
                     | None \<Rightarrow> apply_pending me applied migs s)))"

section \<open>The files that are accepted\<close>

lemma load_entries_distinct:
  assumes "load_entries checksum es seen migs = Ok ms" "mg_version ` set migs = seen"
    "distinct (map mg_version migs)"
  shows "distinct (map mg_version ms)"
  using assms
proof (induction checksum es seen migs rule: load_entries.induct)
  case (2 checksum e es seen migs)
  then show ?case
    by (auto split: if_splits sum.splits option.splits)
qed simp

lemma load_migrations_Ok:
  assumes "load_migrations checksum entries = Ok ms"
  shows "sorted (map mg_version ms)" "distinct (map mg_version ms)"
proof -
  from assms obtain es migs where "load_entries checksum es {} [] = Ok migs" and ms: "ms = sort_key mg_version migs"
    by (auto simp: load_migrations_def bind_res_Ok_iff split: option.splits)
  then have "distinct (map mg_version migs)" by (auto dest: load_entries_distinct)
  then have "distinct (map mg_version ms)"
    unfolding ms by (metis distinct_map distinct_sort set_sort)
  then show "distinct (map mg_version ms)" .
  show "sorted (map mg_version ms)" unfolding ms by simp
qed

section \<open>The abstract specification\<close>

text \<open>A database is at step \<open>k\<close> of a list of migrations when exactly the first \<open>k\<close> bodies have run, in order,
  on the original data, and exactly these are recorded.\<close>

fun exec_all :: "'d migrate_env \<Rightarrow> migration list \<Rightarrow> 'd \<Rightarrow> 'd option" where
  "exec_all me [] d = Some d"
| "exec_all me (m # ms) d = (case me_exec me (mg_sql m) d of None \<Rightarrow> None | Some d' \<Rightarrow> exec_all me ms d')"

definition recorded :: "migration list \<Rightarrow> int \<rightharpoonup> string" where
  "recorded ms = map_of (map (\<lambda>m. (mg_version m, mg_checksum m)) ms)"

definition at_step :: "'d migrate_env \<Rightarrow> migration list \<Rightarrow> 'd \<Rightarrow> nat \<Rightarrow> 'd schema \<Rightarrow> bool" where
  "at_step me migs d0 k s \<longleftrightarrow>
     k \<le> length migs \<and> exec_all me (take k migs) d0 = Some (sm_data s) \<and> sm_applied s = recorded (take k migs)"

lemma exec_all_append:
  "exec_all me (xs @ ys) d = (case exec_all me xs d of None \<Rightarrow> None | Some d' \<Rightarrow> exec_all me ys d')"
  by (induction xs arbitrary: d) (auto split: option.splits)

lemma recorded_Some:
  assumes "distinct (map mg_version ms)" "m \<in> set ms"
  shows "recorded ms (mg_version m) = Some (mg_checksum m)"
  using assms by (auto simp: recorded_def o_def intro!: map_of_is_SomeI image_eqI)

lemma recorded_None: "recorded ms v = None \<longleftrightarrow> v \<notin> mg_version ` set ms"
  by (auto simp: recorded_def map_of_eq_None_iff image_image)

lemma recorded_snoc:
  "mg_version m \<notin> mg_version ` set ms \<Longrightarrow> recorded (ms @ [m]) = (recorded ms)(mg_version m \<mapsto> mg_checksum m)"
  by (induction ms) (auto simp: recorded_def fun_eq_iff)

lemma apply_one_step:
  assumes "at_step me migs d0 k s" "k < length migs" "distinct (map mg_version migs)"
    "apply_one me (migs ! k) s = (s', ok)"
  shows "if ok then at_step me migs d0 (Suc k) s' else s' = s"
proof -
  have fresh: "mg_version (migs ! k) \<notin> mg_version ` set (take k migs)"
    using assms(2,3)
    by (auto simp: distinct_conv_nth in_set_conv_nth)
  have "take (Suc k) migs = take k migs @ [migs ! k]" using assms(2) by (simp add: take_Suc_conv_app_nth)
  with assms(1,2,4) fresh show ?thesis
    by (auto simp: apply_one_def at_step_def exec_all_append recorded_snoc split: if_splits option.splits)
qed

lemma apply_pending_skip:
  assumes "\<And>m. m \<in> set xs \<Longrightarrow> applied (mg_version m) = Some (mg_checksum m)"
  shows "apply_pending me applied (xs @ ys) s = apply_pending me applied ys s"
  using assms by (induction xs) auto

lemma apply_pending_steps:
  assumes "at_step me migs d0 k s" "distinct (map mg_version migs)"
    "\<And>m. m \<in> set (drop k migs) \<Longrightarrow> applied (mg_version m) = None"
    "apply_pending me applied (drop k migs) s = (s', res)"
  shows "\<exists>k' \<ge> k. at_step me migs d0 k' s' \<and> (res = None \<longleftrightarrow> k' = length migs)
     \<and> (res \<noteq> None \<longrightarrow> (\<exists>m \<in> set (drop k' migs). res = Some (ApplyFailed (mg_version m) (mg_name m))))"
  using assms
proof (induction "length migs - k" arbitrary: k s)
  case 0
  then have "drop k migs = []" "k = length migs" by (auto simp: at_step_def)
  with 0 show ?case by auto
next
  case (Suc n)
  then have k: "k < length migs" by simp
  then have dropk: "drop k migs = migs ! k # drop (Suc k) migs" by (simp add: Cons_nth_drop_Suc)
  obtain s1 ok where one: "apply_one me (migs ! k) s = (s1, ok)" by (cases "apply_one me (migs ! k) s")
  have none: "applied (mg_version (migs ! k)) = None" using Suc.prems(3) dropk by simp
  note step = apply_one_step [OF Suc.prems(1) k Suc.prems(2) one]
  show ?case
  proof (cases ok)
    case True
    with step have "at_step me migs d0 (Suc k) s1" by simp
    moreover have "apply_pending me applied (drop (Suc k) migs) s1 = (s', res)"
      using Suc.prems(4) dropk none one True by simp
    moreover have "n = length migs - Suc k" using Suc.hyps(2) by simp
    moreover have "applied (mg_version m) = None" if "m \<in> set (drop (Suc k) migs)" for m
      using Suc.prems(3) that dropk by simp
    ultimately have "\<exists>k' \<ge> Suc k. at_step me migs d0 k' s' \<and> (res = None \<longleftrightarrow> k' = length migs)
        \<and> (res \<noteq> None \<longrightarrow> (\<exists>m \<in> set (drop k' migs). res = Some (ApplyFailed (mg_version m) (mg_name m))))"
      using Suc.hyps(1) [of "Suc k" s1] Suc.prems(2) by blast
    then show ?thesis by (meson Suc_leD)
  next
    case False
    with step have "s1 = s" by simp
    moreover have "res = Some (ApplyFailed (mg_version (migs ! k)) (mg_name (migs ! k)))" "s' = s1"
      using Suc.prems(4) dropk none one False by auto
    ultimately show ?thesis using Suc.prems(1) k dropk by (intro exI [of _ k]) auto
  qed
qed

lemma at_step_applied:
  assumes "at_step me migs d0 k s" "distinct (map mg_version migs)"
  shows "\<And>m. m \<in> set (take k migs) \<Longrightarrow> sm_applied s (mg_version m) = Some (mg_checksum m)"
    and "\<And>m. m \<in> set (drop k migs) \<Longrightarrow> sm_applied s (mg_version m) = None"
proof -
  have split: "distinct (map mg_version (take k migs) @ map mg_version (drop k migs))"
    using assms(2) by (metis append_take_drop_id map_append)
  then show "\<And>m. m \<in> set (take k migs) \<Longrightarrow> sm_applied s (mg_version m) = Some (mg_checksum m)"
    using assms(1) by (simp add: at_step_def recorded_Some)
  show "\<And>m. m \<in> set (drop k migs) \<Longrightarrow> sm_applied s (mg_version m) = None"
    using assms(1) split by (auto simp: at_step_def recorded_None)
qed

lemma apply_pending_at_step:
  assumes "at_step me migs d0 k s" "distinct (map mg_version migs)"
    "apply_pending me (sm_applied s) migs s = (s', res)"
  shows "\<exists>k' \<ge> k. at_step me migs d0 k' s' \<and> (res = None \<longleftrightarrow> k' = length migs)"
proof -
  have "apply_pending me (sm_applied s) (drop k migs) s = (s', res)"
    using assms(3) apply_pending_skip [of "take k migs" "sm_applied s" me "drop k migs" s]
      at_step_applied(1) [OF assms(1,2)] by simp
  from apply_pending_steps [OF assms(1,2) _ this] at_step_applied(2) [OF assms(1,2)] show ?thesis by blast
qed

lemma max_known_ge:
  assumes "sorted (map mg_version migs)" "m \<in> set migs"
  shows "mg_version m \<le> max_known migs"
proof -
  from assms(2) obtain i where "i < length migs" "m = migs ! i" by (auto simp: in_set_conv_nth)
  with assms(1) show ?thesis
    by (auto simp: max_known_def last_conv_nth sorted_iff_nth_mono)
qed

lemma migrate_at_step:
  assumes "load_migrations checksum entries = Ok migs" "at_step me migs d0 k s"
    and "set rows \<subseteq> dom (sm_applied s)" "migrate checksum entries me rows s = (s', res)"
  shows "\<exists>k' \<ge> k. at_step me migs d0 k' s' \<and> (res = None \<longrightarrow> k' = length migs) \<and> (k = length migs \<longrightarrow> s' = s)"
proof -
  note migs = load_migrations_Ok [OF assms(1)]
  have "mg_version m \<le> max_known migs" if "m \<in> set (take k migs)" for m
    using max_known_ge [OF migs(1)] that by (auto dest: in_set_takeD)
  then have "\<forall>v \<in> set rows. \<not> max_known migs < v"
    using assms(2,3) by (force simp: at_step_def recorded_def dom_map_of_conv_image_fst)
  then have known: "List.find (\<lambda>v. max_known migs < v) rows = None" by (simp add: find_None_iff)
  have same: "s' = s" if "k = length migs"
    using that assms known apply_pending_skip [of migs "sm_applied s" me "[]" s]
      at_step_applied(1) [OF assms(2) migs(2)]
    by (auto simp: migrate_def split: if_splits)
  show ?thesis
  proof (cases "apply_pending me (sm_applied s) migs s = (s', res)")
    case True
    from apply_pending_at_step [OF assms(2) migs(2) True] same show ?thesis by blast
  next
    case False
    with assms(1,4) known have "s' = s" "res \<noteq> None" by (auto simp: migrate_def split: if_splits)
    with assms(2) show ?thesis by blast
  qed
qed

section \<open>Properties\<close>


text \<open>A run refuses, and touches nothing, when the database was migrated by a newer binary, when two files
  claim a version, or when the name of a file is malformed; and an applied file that was edited
  afterwards is reported, never run again.\<close>

lemma migrate_refuses:
  "(\<exists>v \<in> set rows. max_known migs < v) \<and> load_migrations checksum entries = Ok migs \<longrightarrow>
      fst (migrate checksum entries me rows s) = s \<and> snd (migrate checksum entries me rows s) \<noteq> None"
  "load_migrations checksum entries = Err e \<longrightarrow> migrate checksum entries me rows s = (s, Some e)"
  "sm_applied s (mg_version m) = Some old \<and> old \<noteq> mg_checksum m \<longrightarrow>
      apply_pending me (sm_applied s) (m # ms) s = (s, Some (ModifiedAfterApply (mg_version m) (mg_name m)))"
proof -
  show "(\<exists>v \<in> set rows. max_known migs < v) \<and> load_migrations checksum entries = Ok migs \<longrightarrow>
      fst (migrate checksum entries me rows s) = s \<and> snd (migrate checksum entries me rows s) \<noteq> None"
    by (auto simp: migrate_def find_None_iff split: option.split)
qed (auto simp: migrate_def)

section \<open>Samples\<close>

definition sample_entries :: "dir_entry list" where
  "sample_entries =
     [\<lparr>de_name = ''0002_b.sql'', de_is_dir = False, de_body = Some ''B''\<rparr>,
      \<lparr>de_name = ''0001_a.sql'', de_is_dir = False, de_body = Some ''A''\<rparr>,
      \<lparr>de_name = ''README'', de_is_dir = False, de_body = None\<rparr>]"

definition sample_migrations :: "migration list" where
  "sample_migrations =
     [\<lparr>mg_version = 1, mg_name = ''a'', mg_sql = ''A'', mg_checksum = ''A''\<rparr>,
      \<lparr>mg_version = 2, mg_name = ''b'', mg_sql = ''B'', mg_checksum = ''B''\<rparr>]"

text \<open>A server on which everything works but the commit of the second migration.\<close>

definition sample_server :: "string list migrate_env" where
  "sample_server =
     \<lparr>me_acquire = True, me_lock = True, me_ensure = True, me_load = True, me_begin = (\<lambda>v. True),
      me_exec = (\<lambda>sql d. Some (d @ [sql])), me_insert = (\<lambda>v. True), me_commit = (\<lambda>v. v \<noteq> 2)\<rparr>"

lemma sample_load: "load_migrations id (Some sample_entries) = Ok sample_migrations"
  by code_simp


end
