(* ===== verification/Pool.thy ===== *)
theory Pool
  imports Prelude
begin

text \<open>
  The connection pool (\<open>internal/store/store.go\<close>). The pgx library is a parameter: parsing a DSN, opening a pool of
  a configuration, the ping and the close act on the world \<open>'w\<close>. A ping that takes longer than its five seconds is one
  that fails.
\<close>

record ('c, 'p, 'w) pgx =
  px_parse :: "string \<Rightarrow> 'c option"
  px_new :: "'c \<Rightarrow> 'w \<Rightarrow> 'w \<times> 'p option"
  px_ping :: "'p \<Rightarrow> 'w \<Rightarrow> 'w \<times> bool"
  px_close :: "'p \<Rightarrow> 'w \<Rightarrow> 'w"

datatype pool_err = ParseDatabaseUrl | OpenPool | PingDatabase

definition open_pool :: "('c, 'p, 'w) pgx \<Rightarrow> string \<Rightarrow> 'w \<Rightarrow> 'w \<times> (pool_err, 'p) result" where
  "open_pool px dsn w =
     (case px_parse px dsn of
        None \<Rightarrow> (w, Err ParseDatabaseUrl)
      | Some cfg \<Rightarrow>
          (case px_new px cfg w of
             (w1, None) \<Rightarrow> (w1, Err OpenPool)
           | (w1, Some p) \<Rightarrow>
               (case px_ping px p w1 of
                  (w2, False) \<Rightarrow> (px_close px p w2, Err PingDatabase)
                | (w2, True) \<Rightarrow> (w2, Ok p))))"

definition close_pool :: "('c, 'p, 'w) pgx \<Rightarrow> 'p \<Rightarrow> 'w \<Rightarrow> 'w" where
  "close_pool px p w = px_close px p w"

definition ping_pool :: "('c, 'p, 'w) pgx \<Rightarrow> 'p \<Rightarrow> 'w \<Rightarrow> 'w \<times> bool" where
  "ping_pool px p w = px_ping px p w"

text \<open>What pgx documents of the pools that are open in a world.\<close>

definition pgx_ledger :: "('c, 'p, 'w) pgx \<Rightarrow> ('w \<Rightarrow> 'p set) \<Rightarrow> bool" where
  "pgx_ledger px pools \<longleftrightarrow>
     (\<forall>cfg w. case px_new px cfg w of
        (w', None) \<Rightarrow> pools w' = pools w
      | (w', Some p) \<Rightarrow> p \<notin> pools w \<and> pools w' = insert p (pools w)) \<and>
     (\<forall>p w. pools (fst (px_ping px p w)) = pools w) \<and>
     (\<forall>p w. pools (px_close px p w) = pools w - {p})"

text \<open>\<open>Open\<close> leaks no pool: an error leaves the pools there were, whichever of its steps failed, and a success
  exactly one more, which answered a ping and which one \<open>Close\<close> takes away again.\<close>

lemma open_pool_leaks_nothing:
  assumes "pgx_ledger px pools" "open_pool px dsn w = (w', r)"
  shows "case r of
      Inl e \<Rightarrow> pools w' = pools w
    | Inr p \<Rightarrow> p \<notin> pools w \<and> pools w' = insert p (pools w) \<and> (\<exists>w1. ping_pool px p w1 = (w', True)) \<and>
        pools (close_pool px p w') = pools w"
proof (cases "px_parse px dsn")
  case None
  with assms(2) show ?thesis by (auto simp: open_pool_def)
next
  case (Some cfg)
  obtain w1 q where new: "px_new px cfg w = (w1, q)" by fastforce
  have made: "case px_new px cfg w of (w', None) \<Rightarrow> pools w' = pools w
      | (w', Some p) \<Rightarrow> p \<notin> pools w \<and> pools w' = insert p (pools w)"
    by (rule assms(1) [unfolded pgx_ledger_def, THEN conjunct1, rule_format])
  show ?thesis
  proof (cases q)
    case None
    with Some new made assms(2) show ?thesis by (auto simp: open_pool_def)
  next
    case (Some p)
    obtain w2 ok where ping: "px_ping px p w1 = (w2, ok)" by fastforce
    have ledger: "pools (fst (px_ping px p w1)) = pools w1" "pools (px_close px p v) = pools v - {p}" for v
      by (simp_all add: assms(1) [unfolded pgx_ledger_def, THEN conjunct2])
    with made have p: "p \<notin> pools w" "pools w2 = insert p (pools w)" "pools (px_close px p w2) = pools w"
      using new ping Some by auto
    have "open_pool px dsn w = (if ok then (w2, Ok p) else (px_close px p w2, Err PingDatabase))"
      using \<open>px_parse px dsn = Some cfg\<close> new ping Some by (simp add: open_pool_def)
    with p ping assms(2) show ?thesis
      by (cases ok) (auto simp: close_pool_def ping_pool_def)
  qed
qed

end
