(* ===== verification/Startup.thy ===== *)
theory Startup
  imports ControlPlane Migrate Pool
begin

text \<open>
  How the process comes up and recovers (\<open>cmd/controlplane/main.go\<close>, \<open>internal/project/publisher.go\<close>): the
  database is opened and migrated or the process exits, the image cache is warmed with the demo, and the
  recovery sweep settles the builds a crash left behind, once at the start and then at every tick.
\<close>

section \<open>The database\<close>

datatype startup_err = OpenRefused pool_err | MigrationRefused migrate_err

text \<open>An error ends the process before anything listens; the answer is the pool, if there is a database.\<close>

definition open_store ::
    "('c, 'p, 'w) pgx \<Rightarrow> rat config \<Rightarrow> (string \<Rightarrow> string) \<Rightarrow> dir_entry list option \<Rightarrow> 'd migrate_env \<Rightarrow> int list
       \<Rightarrow> 'w \<Rightarrow> 'd schema \<Rightarrow> 'w \<times> 'd schema \<times> (startup_err, 'p option) result" where
  "open_store px c checksum entries sv rows w s =
     (if cf_database_url c = '''' then (w, s, Ok None)
      else
        (case open_pool px (cf_database_url c) w of
           (w', Inl e) \<Rightarrow> (w', s, Err (OpenRefused e))
         | (w', Inr p) \<Rightarrow>
             (case migrate checksum entries sv rows s of
                (s', Some e) \<Rightarrow> (w', s', Err (MigrationRefused e))
              | (s', None) \<Rightarrow> (w', s', Ok (Some p)))))"

text \<open>A process that serves with a database serves a fully migrated one.\<close>

lemma open_store_migrated:
  assumes "load_migrations checksum entries = Ok migs" "at_step sv migs d0 k s" "set rows \<subseteq> dom (sm_applied s)"
    and "open_store px c checksum entries sv rows w s = (w', s', Ok (Some p))"
  shows "at_step sv migs d0 (length migs) s'"
proof -
  have "migrate checksum entries sv rows s = (s', None)"
    using assms(4) by (auto simp: open_store_def split: if_splits prod.splits option.splits sum.splits)
  from migrate_at_step [OF assms(1-3) this] show ?thesis by auto
qed

section \<open>The demo\<close>

text \<open>The startup build of the demo, whose failure is only logged.\<close>

definition warm_up ::
    "('k, 'd) machine \<Rightarrow> 'k deployment \<Rightarrow> ('j codec \<times> bool \<times> 'j database) option \<Rightarrow> 'd \<Rightarrow> (builder \<times> 'd \<times> bool) option" where
  "warm_up mc dp store d =
     (case play_source mc (dp_github dp) store fixture_project_id (dp_builder dp) d of
        None \<Rightarrow> None
      | Some (b', d', Inl _) \<Rightarrow> Some (b', d', False)
      | Some (b', d', Inr _) \<Rightarrow> Some (b', d', True))"

text \<open>No published Project can take the place of the demo, whatever the tables hold and whether they can be read.\<close>

lemma base_source_demo: "base_source store fixture_project_id = Ok fixture_app"
  using fixture_is_no_uuid
  by (auto simp: base_source_def static_source_def fallback_source_def database_source_def get_published_project_def
      split: option.split)

lemma demo_spec:
  "build_specs mc gh d fixture_project_id svc commit =
     (case fixture_version (mc_embedded mc) (svc_name svc) of
        Inl e \<Rightarrow> (d, None)
      | Inr version \<Rightarrow>
          (d, Some \<lparr>bs_image = image_name fixture_project_id svc, bs_version = version, bs_dockerfile = fixture_dockerfile,
                    bs_context = fixture_context (mc_embedded mc) (svc_name svc)\<rparr>))"
  by (simp add: build_specs_def spec_for_def split: sum.split)

definition demo_version :: "('k, 'd) machine \<Rightarrow> service \<Rightarrow> string" where
  "demo_version mc svc =
     (case fixture_version (mc_embedded mc) (svc_name svc) of Inl e \<Rightarrow> '''' | Inr version \<Rightarrow> version)"

lemma demo_services:
  "map svc_name (m_services fixture_manifest) = [''web'', ''api'']" "length (m_services fixture_manifest) = 2"
  by (simp_all add: fixture_manifest_def)

lemma demo_is_warm:
  assumes "play_source mc gh store fixture_project_id b d = Some (b', d', Ok p)" "builder_ok b" "2 \<le> bd_max b"
    "unat (bd_tick b) + 2 < 2 ^ 64 - 1"
  shows "\<exists>b'' images. play_source mc gh' store' fixture_project_id b' world
      = Some (b'', world, Ok (fixture_app\<lparr>pj_images := images\<rparr>))
    \<and> list_all (\<lambda>svc. images (svc_name svc)
        = Some (image_name fixture_project_id svc @ '':'' @ short_version (demo_version mc svc))) (m_services fixture_manifest)"
proof -
  let ?svcs = "m_services fixture_manifest"
  have app: "pj_manifest fixture_app = fixture_manifest" by (simp add: fixture_app_def)
  obtain images where built: "build_services (mc_docker mc) (build_specs mc gh) fixture_project_id fixture_app ?svcs Map.empty b d
      = Some (b', d', Ok images)"
  proof -
    obtain r where "build_services (mc_docker mc) (build_specs mc gh) fixture_project_id fixture_app ?svcs Map.empty b d
        = Some (b', d', r)" "r \<noteq> Inl e" for e
      using assms(1) by (fastforce simp: play_source_def building_source_def base_source_demo app)
    with that show thesis by (cases r) auto
  qed
  have named: "bs_image sp = image_name fixture_project_id svc \<and> bs_version sp = demo_version mc svc"
    if "svc \<in> set ?svcs" "build_specs mc gh d0 fixture_project_id svc (commit_for fixture_app svc) = (d1, Some sp)" for svc d0 d1 sp
    using that(2) by (auto simp: demo_spec demo_version_def split: sum.splits)
  have pure: "\<exists>sp. (\<forall>d. build_specs mc gh' d fixture_project_id svc (commit_for fixture_app svc) = (d, Some sp))
      \<and> bs_image sp = image_name fixture_project_id svc \<and> bs_version sp = demo_version mc svc" if "svc \<in> set ?svcs" for svc
    using build_services_specs [OF built that] by (auto simp: demo_spec demo_version_def split: sum.splits)
  have names: "distinct (map svc_name ?svcs)" by (simp add: demo_services)
  then have images: "distinct (map (image_name fixture_project_id) ?svcs)"
    unfolding distinct_map inj_on_def image_name_inj by blast
  have size: "length ?svcs \<le> nat (bd_max b)" "unat (bd_tick b) + length ?svcs < 2 ^ 64 - 1"
    using assms(3,4) by (simp_all add: demo_services(2))
  have "\<exists>b'' images'. build_services (mc_docker mc) (build_specs mc gh') fixture_project_id fixture_app ?svcs Map.empty b' world
        = Some (b'', world, Ok images')
      \<and> (\<forall>svc \<in> set ?svcs. images' (svc_name svc)
            = Some (image_name fixture_project_id svc @ '':'' @ short_version (demo_version mc svc)))"
    by (rule built_services_warm [where img = "image_name fixture_project_id" and ver = "demo_version mc",
          OF built assms(2) size(2,1) images names])
      (erule (1) named, erule pure)
  then show ?thesis by (auto simp: play_source_def building_source_def base_source_demo app list_all_iff)
qed

text \<open>C14: a Guest never waits on a build of the demo. On a cache with room for the two services of the demo, once
  the startup build has succeeded a play of the demo answers the built-in manifest with both images at
  the version of the embedded sources, without a call to git, docker or the file system, whatever the
  tables hold by then and even when they cannot be read: no published Project takes the demo's place.\<close>

theorem demo_play_is_warm:
  assumes "warm_up mc (wire kp tmp c) store d = Some (b', d', True)" "2 \<le> cf_max_cached c"
  shows "\<exists>b'' images. play_source mc gh store' fixture_project_id b' world
      = Some (b'', world, Ok (fixture_app\<lparr>pj_images := images\<rparr>))
    \<and> list_all (\<lambda>svc. images (svc_name svc)
        = Some (image_name fixture_project_id svc @ '':'' @ short_version (demo_version mc svc))) (m_services fixture_manifest)"
proof -
  obtain p where run: "play_source mc (dp_github (wire kp tmp c)) store fixture_project_id (image_builder c) d = Some (b', d', Ok p)"
    using assms(1) by (auto simp: warm_up_def wire_def Let_def split: option.splits sum.splits)
  have "builder_ok (image_builder c)" "2 \<le> bd_max (image_builder c)" "unat (bd_tick (image_builder c)) + 2 < 2 ^ 64 - 1"
    using assms(2) by (simp_all add: image_builder_def builder_ok_new) (simp_all add: new_builder_def)
  from demo_is_warm [OF run this] show ?thesis .
qed

section \<open>The recovery sweep\<close>

text \<open>\<open>ReapStuckBuilds\<close>: a sweep at once and one at each tick until the process stops, each with whether the database
  fails it. Times are in nanoseconds.\<close>

definition reap_interval :: "int \<Rightarrow> int" where
  "reap_interval grace = (if grace < minutes then minutes else grace)"

definition sweep_times :: "int \<Rightarrow> int \<Rightarrow> nat \<Rightarrow> int list" where
  "sweep_times start grace n = map (\<lambda>i. start + int i * reap_interval grace) [0..<Suc n]"

fun reap_stuck_builds ::
    "('j \<Rightarrow> int option) \<Rightarrow> (int \<Rightarrow> bool) \<Rightarrow> int \<Rightarrow> int \<Rightarrow> int list \<Rightarrow> 'j database \<Rightarrow> 'j database" where
  "reap_stuck_builds service_count fault per_service grace [] db = db"
| "reap_stuck_builds service_count fault per_service grace (now # ticks) db =
     reap_stuck_builds service_count fault per_service grace ticks
       (reap_once service_count (fault now) now per_service grace db)"

text \<open>The end of the window a build has, and what a sweep makes of one row.\<close>

definition build_deadline :: "('j \<Rightarrow> int option) \<Rightarrow> int \<Rightarrow> int \<Rightarrow> int \<Rightarrow> 'j \<Rightarrow> int" where
  "build_deadline sc per grace t man = t + ((case sc man of Some n \<Rightarrow> n | None \<Rightarrow> 1) + 1) * per + grace"

definition reclaimed :: "int \<Rightarrow> 'j project_row \<Rightarrow> 'j project_row" where
  "reclaimed now p = p\<lparr>pr_state := BuildFailedState, pr_error := Some reclaim_error, pr_updated := now\<rparr>"

fun sweep_row ::
    "('j \<Rightarrow> int option) \<Rightarrow> (int \<Rightarrow> bool) \<Rightarrow> int \<Rightarrow> int \<Rightarrow> int list \<Rightarrow> 'j project_row \<Rightarrow> 'j project_row" where
  "sweep_row sc fault per grace [] p = p"
| "sweep_row sc fault per grace (now # ticks) p =
     sweep_row sc fault per grace ticks (if \<not> fault now \<and> stuck sc now per grace p then reclaimed now p else p)"

lemma swept_rows:
  "db_projects (reap_stuck_builds sc fault per grace ticks db) = map (sweep_row sc fault per grace ticks) (db_projects db)"
proof (induction ticks arbitrary: db)
  case Nil
  show ?case by (simp add: map_idI)
next
  case (Cons now ticks)
  show ?case
    by (simp add: Cons.IH reap_once_def reclaim_stuck_builds_def update_rows_def reclaimed_def Let_def)
qed

lemma sweep_row_append:
  "sweep_row sc fault per grace (xs @ ys) p = sweep_row sc fault per grace ys (sweep_row sc fault per grace xs p)"
  by (induction xs arbitrary: p) simp_all

lemma stuck_after_deadline:
  "pr_state p = Building \<Longrightarrow> pr_started p = Some t \<Longrightarrow>
   stuck sc now per grace p \<longleftrightarrow> build_deadline sc per grace t (pr_manifest p) < now"
  by (auto simp: stuck_def build_deadline_def)

lemma sweep_row_spared:
  assumes "pr_state p = Building" "pr_started p = Some t" "\<forall>now \<in> set ticks. now \<le> build_deadline sc per grace t (pr_manifest p)"
  shows "sweep_row sc fault per grace ticks p = p"
  using assms by (induction ticks) (auto simp: stuck_after_deadline not_less)

lemma sweep_row_recovers:
  assumes "pr_state p = Building" "pr_started p = Some t" "\<forall>now \<in> set ticks. now \<le> build_deadline sc per grace t (pr_manifest p)"
    and "build_deadline sc per grace t (pr_manifest p) < now" "\<not> fault now"
  shows "sweep_row sc fault per grace (ticks @ [now]) p = reclaimed now p"
  using assms by (simp add: sweep_row_append sweep_row_spared stuck_after_deadline)

text \<open>The first tick past an instant, at most one interval late.\<close>

lemma first_tick:
  obtains n now where "sweep_times start grace n = map (\<lambda>i. start + int i * reap_interval grace) [0..<n] @ [now]"
    "limit < now" "now \<le> max start (limit + reap_interval grace)"
    "\<forall>t \<in> set (map (\<lambda>i. start + int i * reap_interval grace) [0..<n]). t \<le> limit"
proof -
  let ?at = "\<lambda>i. start + int i * reap_interval grace"
  have pos: "0 < reap_interval grace" by (simp add: reap_interval_def minutes_def seconds_def)
  define n where "n = (LEAST i. limit < ?at i)"
  have "limit < ?at (nat (limit - start) + 1)"
  proof -
    define k where "k = nat (limit - start) + 1"
    have "limit - start < int k * 1" by (simp add: k_def)
    also have "int k * 1 \<le> int k * reap_interval grace" using pos by (intro mult_left_mono) simp_all
    finally show ?thesis unfolding k_def by linarith
  qed
  then have past: "limit < ?at n" unfolding n_def by (rule LeastI)
  have before: "?at i \<le> limit" if "i < n" for i
    using not_less_Least [of i "\<lambda>i. limit < ?at i"] that by (simp add: n_def not_less)
  have "?at n \<le> max start (limit + reap_interval grace)"
  proof (cases n)
    case (Suc i)
    with before [of i] show ?thesis by (simp add: algebra_simps)
  qed simp
  with past before show thesis by (intro that [of n "?at n"]) (auto simp: sweep_times_def)
qed

lemma ticks_before_last:
  assumes "last (sweep_times start grace n) \<le> limit"
  shows "\<forall>t \<in> set (sweep_times start grace n). t \<le> limit"
proof
  fix t assume "t \<in> set (sweep_times start grace n)"
  then have "t \<in> (\<lambda>i. start + int i * reap_interval grace) ` {0..<Suc n}"
    unfolding sweep_times_def set_map set_upt .
  then obtain i where i: "i \<le> n" "t = start + int i * reap_interval grace"
    by (elim imageE) (simp add: less_Suc_eq_le)
  have "0 \<le> reap_interval grace" by (simp add: reap_interval_def minutes_def seconds_def)
  with i have "t \<le> start + int n * reap_interval grace" by (simp add: mult_right_mono)
  with assms show "t \<le> limit" by (simp add: sweep_times_def)
qed

lemma failed_row_restarts:
  assumes "r \<in> set (db_projects db)" "match_string uuid_re (pr_id r)" "pr_state r \<noteq> Building"
  shows "\<exists>p. snd (start_build False now (pr_owner r) (pr_id r) db) = Ok p"
proof -
  have "owned (pr_owner r) (pr_id r) r" by (simp add: owned_def same_uuid_def)
  with assms have "select_row (\<lambda>p. owned (pr_owner r) (pr_id r) p \<and> pr_state p \<noteq> Building) (db_projects db) \<noteq> None"
    unfolding select_row_None by blast
  with assms(2) show ?thesis by (auto simp: start_build_def Let_def split: option.split)
qed

text \<open>C11: a build that a crash left behind is recovered, and a build in its time is left alone. The sweep keeps a Project
  in its build until the window of its own number of services is over; at most one interval of the sweep later,
  or at the next start of the process if that comes after, it is settled as failed with everything else of
  the Project as it was, and the Owner can publish again.\<close>

theorem interrupted_build_recovers:
  assumes "r \<in> set (db_projects db)" "match_string uuid_re (pr_id r)" "pr_state r = Building" "pr_started r = Some t"
    and "limit = build_deadline sc per grace t (pr_manifest r)" "\<forall>now > limit. \<not> fault now"
  shows "(\<forall>n. last (sweep_times start grace n) \<le> limit \<longrightarrow>
            r \<in> set (db_projects (reap_stuck_builds sc fault per grace (sweep_times start grace n) db)))
    \<and> (\<exists>n. last (sweep_times start grace n) \<le> max start (limit + reap_interval grace)
         \<and> r\<lparr>pr_state := BuildFailedState, pr_error := Some reclaim_error, pr_updated := last (sweep_times start grace n)\<rparr>
             \<in> set (db_projects (reap_stuck_builds sc fault per grace (sweep_times start grace n) db))
         \<and> (\<exists>p. snd (start_build False now (pr_owner r) (pr_id r)
              (reap_stuck_builds sc fault per grace (sweep_times start grace n) db)) = Ok p))"
proof (intro conjI allI impI)
  fix n assume "last (sweep_times start grace n) \<le> limit"
  then have "\<forall>t' \<in> set (sweep_times start grace n). t' \<le> limit" by (rule ticks_before_last)
  then have "sweep_row sc fault per grace (sweep_times start grace n) r = r"
    unfolding assms(5) by (rule sweep_row_spared [OF assms(3,4)])
  with assms(1) show "r \<in> set (db_projects (reap_stuck_builds sc fault per grace (sweep_times start grace n) db))"
    unfolding swept_rows by (metis imageI set_map)
next
  obtain n due where n: "sweep_times start grace n = map (\<lambda>i. start + int i * reap_interval grace) [0..<n] @ [due]"
    "limit < due" "due \<le> max start (limit + reap_interval grace)"
    "\<forall>t' \<in> set (map (\<lambda>i. start + int i * reap_interval grace) [0..<n]). t' \<le> limit"
    by (rule first_tick)
  let ?db = "reap_stuck_builds sc fault per grace (sweep_times start grace n) db"
  have "sweep_row sc fault per grace (sweep_times start grace n) r = reclaimed due r"
    unfolding n(1) using n(2,4) assms(5,6) by (intro sweep_row_recovers [OF assms(3,4)]) auto
  with assms(1) have mem: "reclaimed due r \<in> set (db_projects ?db)"
    unfolding swept_rows by (metis imageI set_map)
  from failed_row_restarts [OF mem, of now] assms(2)
  have "\<exists>p. snd (start_build False now (pr_owner r) (pr_id r) ?db) = Ok p" by (simp add: reclaimed_def)
  with mem n(3) show "\<exists>n. last (sweep_times start grace n) \<le> max start (limit + reap_interval grace)
      \<and> r\<lparr>pr_state := BuildFailedState, pr_error := Some reclaim_error, pr_updated := last (sweep_times start grace n)\<rparr>
          \<in> set (db_projects (reap_stuck_builds sc fault per grace (sweep_times start grace n) db))
      \<and> (\<exists>p. snd (start_build False now (pr_owner r) (pr_id r)
           (reap_stuck_builds sc fault per grace (sweep_times start grace n) db)) = Ok p)"
    by (intro exI [of _ n]) (simp add: n(1) reclaimed_def)
qed

lemma interrupted_build_recovers_witness:
  "\<exists>n. start_row 20 sample_project_row\<lparr>pr_state := BuildFailedState, pr_error := Some reclaim_error,
        pr_updated := last (sweep_times 100 10 n)\<rparr>
      \<in> set (db_projects (reap_stuck_builds (\<lambda>_. Some 1) (\<lambda>_. False) 5 10 (sweep_times 100 10 n)
            (fst (start_build False 20 1 sample_uuid sample_db))))"
proof -
  have "start_row 20 sample_project_row \<in> set (db_projects (fst (start_build False 20 1 sample_uuid sample_db)))"
    using sample_owned
    by (simp add: start_build_def sample_uuid select_row_def sample_db_projects update_rows_def Let_def)
      (simp add: sample_project_row_def)
  from interrupted_build_recovers [where sc = "\<lambda>_. Some 1" and fault = "\<lambda>_. False" and per = 5 and grace = 10
      and start = 100 and t = 20, OF this _ _ _ refl]
  show ?thesis using sample_uuid by (auto simp: start_row_def sample_project_row_def)
qed

definition demo_tree :: "unit embedded" where
  "demo_tree = sample_tree\<lparr>em_mkdir_temp := (\<lambda>p d. (d, Some ''/tmp/fixture'')), em_mkdir_all := (\<lambda>p d. (d, True)),
     em_write := (\<lambda>p c d. (d, True)), em_walk := (\<lambda>s. Some [(s, True), (s @ ''/Dockerfile'', False)])\<rparr>"

lemma sample_build_goes:
  assumes "builder_ok b" "unat (bd_tick b) < 2 ^ 64 - 2" "bs_context sp () = ((), Some dc)"
  shows "\<exists>b' tag. build sample_build_env sp b () = Some (b', (), Ok tag) \<and> builder_ok b' \<and> bd_tick b' = bd_tick b + 1"
proof -
  obtain b' res where run: "build sample_build_env sp b () = Some (b', (), res)" "builder_ok b'" "bd_tick b' = bd_tick b + 1"
    using build_sound [OF assms(1,2), of sample_build_env sp "()"] by auto
  have "sandbox_build sample_build_env c tag dir df () \<noteq> (b1, (), Inl e)" for c tag dir df b1 e
    by (simp add: sandbox_build_def ensure_network_def sample_build_env_def rand_hex_def Let_def)
  then have "res \<noteq> Inl e" for e
    using run(1) assms(3)
    by (cases dc) (auto simp: build_def build_miss_def Let_def split: option.splits if_splits prod.splits sum.splits)
  with run show ?thesis by (cases res) auto
qed

definition demo_machine :: "(unit, unit) machine" where
  "demo_machine = sample_machine\<lparr>mc_embedded := demo_tree\<rparr>"

lemma demo_sample_spec:
  "\<exists>sp dc. build_specs demo_machine gh () fixture_project_id svc commit = ((), Some sp) \<and> bs_context sp () = ((), Some dc)"
proof -
  have files: "context_files demo_tree s = Ok [s @ ''/Dockerfile'']" for s
    by (simp add: context_files_def demo_tree_def sample_tree_def Let_def)
  have reads: "em_read demo_tree = (\<lambda>p. Some p)" "em_mkdir_temp demo_tree = (\<lambda>p d. (d, Some ''/tmp/fixture''))"
    "em_mkdir_all demo_tree = (\<lambda>p d. (d, True))" "em_write demo_tree = (\<lambda>p c d. (d, True))"
    by (simp_all add: demo_tree_def sample_tree_def)
  have "\<exists>v. fixture_version demo_tree s = Ok v" for s by (simp add: fixture_version_def files reads)
  then obtain v where "fixture_version (mc_embedded demo_machine) (svc_name svc) = Ok v"
    by (auto simp: demo_machine_def)
  moreover have "\<exists>dc. fixture_context (mc_embedded demo_machine) s () = ((), Some dc)" for s
    by (simp add: demo_machine_def fixture_context_def fixture_extract_def files reads Let_def)
  ultimately show ?thesis by (simp add: demo_spec)
qed

lemma demo_warms:
  assumes "builder_ok b" "unat (bd_tick b) + length svcs < 2 ^ 64 - 2"
  shows "\<exists>b' images'. build_services sample_build_env (build_specs demo_machine gh) fixture_project_id p svcs images b ()
    = Some (b', (), Ok images')"
  using assms
proof (induction svcs arbitrary: b images)
  case (Cons svc svcs)
  obtain sp dc where sp: "build_specs demo_machine gh () fixture_project_id svc (commit_for p svc) = ((), Some sp)"
    "bs_context sp () = ((), Some dc)" using demo_sample_spec by blast
  have small: "unat (bd_tick b) < 2 ^ 64 - 2" using Cons.prems(2) by simp
  obtain b1 tag where bd: "build sample_build_env sp b () = Some (b1, (), Ok tag)" "builder_ok b1" "bd_tick b1 = bd_tick b + 1"
    using sample_build_goes [OF Cons.prems(1) small sp(2)] by blast
  have "unat (bd_tick b1) + length svcs < 2 ^ 64 - 2"
    using Cons.prems(2) tick_step(1) [OF small] unfolding bd(3) by (simp add: unat_word_ariths)
  from Cons.IH [OF bd(2) this] sp(1) bd(1) show ?case by (simp del: fun_upd_apply)
qed simp

lemma demo_play_is_warm_witness:
  "\<exists>b' b'' images. warm_up demo_machine (wire sample_parsers ''/tmp'' (load_config sample_floats Map.empty))
       (None :: (sample_doc codec \<times> bool \<times> sample_doc database) option) () = Some (b', (), True)
     \<and> play_source demo_machine (None :: unit client option) (None :: (sample_doc codec \<times> bool \<times> sample_doc database) option)
         fixture_project_id b' () = Some (b'', (), Ok (fixture_app\<lparr>pj_images := images\<rparr>))"
proof -
  let ?c = "load_config sample_floats Map.empty"
  let ?dp = "wire sample_parsers ''/tmp'' ?c" and ?none = "None :: (sample_doc codec \<times> bool \<times> sample_doc database) option"
  have cap: "2 \<le> cf_max_cached ?c" by (simp add: load_config_def getenv_int_def)
  have b: "builder_ok (dp_builder ?dp)" "unat (bd_tick (dp_builder ?dp)) + length (m_services fixture_manifest) < 2 ^ 64 - 2"
    by (simp_all add: wire_def image_builder_def builder_ok_new Let_def) (simp add: new_builder_def fixture_manifest_def)
  obtain b' images where "build_services sample_build_env (build_specs demo_machine (dp_github ?dp)) fixture_project_id fixture_app
      (m_services fixture_manifest) Map.empty (dp_builder ?dp) () = Some (b', (), Ok images)"
    using demo_warms [OF b] by blast
  then have warm: "warm_up demo_machine ?dp ?none () = Some (b', (), True)"
    by (simp add: warm_up_def play_source_def building_source_def base_source_demo)
      (simp add: fixture_app_def demo_machine_def sample_machine_def)
  from demo_play_is_warm [OF this cap, of None ?none "()"] warm show ?thesis by blast
qed

section \<open>The removal of expired logins\<close>

text \<open>\<open>pruneLoginSessions\<close>: once at the start and then every hour, each time whether the database fails or not.\<close>

definition prune_times :: "int \<Rightarrow> nat \<Rightarrow> int list" where
  "prune_times start n = map (\<lambda>i. start + int i * (60 * minutes)) [0..<Suc n]"

fun prune_login_sessions :: "(int \<Rightarrow> bool) \<Rightarrow> int list \<Rightarrow> 'j database \<Rightarrow> 'j database" where
  "prune_login_sessions fault [] db = db"
| "prune_login_sessions fault (now # ticks) db =
     prune_login_sessions fault ticks (fst (delete_expired_login_sessions (fault now) now db))"

lemma prune_login_rows:
  "db_owners (prune_login_sessions fault ticks db) = db_owners db"
  "db_logins (prune_login_sessions fault ticks db)
     = filter (\<lambda>l. \<forall>now \<in> set ticks. fault now \<or> now < lr_expires l) (db_logins db)"
  by (induction ticks arbitrary: db) (auto simp: delete_expired_login_sessions_def intro: filter_cong)

text \<open>Removing them changes no answer: who is signed in is decided when the question is asked.\<close>

lemma prune_is_invisible:
  assumes "\<forall>t \<in> set ticks. t \<le> now"
  shows "owner_by_login_session fault' now token (prune_login_sessions fault ticks db) = owner_by_login_session fault' now token db"
proof -
  let ?live = "\<lambda>l. lr_token l = token \<and> now < lr_expires l"
  have "List.find ?live (filter (\<lambda>l. \<forall>t \<in> set ticks. fault t \<or> t < lr_expires l) (db_logins db)) = List.find ?live (db_logins db)"
    using assms by (intro find_filter) force
  then show ?thesis
    by (simp add: owner_by_login_session_def select_row_def prune_login_rows owner_by_id_def owner_by_def split: option.split)
qed

end
