(* ===== verification/Isolation.thy ===== *)
theory Isolation
  imports Runner
begin

text \<open>
  What a Session can do to its host, across the compiler, the Compose document and the runner: whatever an Owner's
  contract says, the document that \<open>docker compose up\<close> reads confines every container in it.
\<close>

section \<open>A confined document\<close>

text \<open>What the document says of one container, and of the networks.\<close>

definition confined_service :: "string \<Rightarrow> string \<Rightarrow> string \<Rightarrow> compose_service \<Rightarrow> bool" where
  "confined_service rt net name e \<longleftrightarrow>
     cs_runtime e = rt \<and> cs_mem_limit e \<noteq> 0 \<and> cs_cpus e \<noteq> 0 \<and> cs_pids_limit e \<noteq> 0 \<and>
     ''no-new-privileges:true'' \<in> set (cs_security_opt e) \<and>
     list_all (\<lambda>v. cm_type v = ''volume'' \<and> CHR ''/'' \<notin> set (cm_source v)) (cs_volumes e) \<and>
     (name = db_service_name \<or> cs_read_only e \<and> cs_cap_drop e = [''ALL''] \<and> cs_volumes e = [] \<and> cs_user e \<noteq> '''') \<and>
     (name = egress_service_name \<or> cs_networks e = [net])"

definition confined_file :: "compose_runner \<Rightarrow> string \<Rightarrow> egress_rule list \<Rightarrow> compose_file \<Rightarrow> bool" where
  "confined_file c sid rules f \<longleftrightarrow>
     cf_name f = project_name sid \<and>
     (\<forall>name e. cf_services f name = Some e \<longrightarrow>
        confined_service (or_default (cp_runtime c) default_runtime) (network_name sid) name e) \<and>
     cf_networks f (network_name sid) = Some \<lparr>cn_name = network_name sid, cn_internal = True\<rparr> \<and>
     (case cf_services f egress_service_name of
        None \<Rightarrow> rules = [] \<and> dom (cf_networks f) = {network_name sid}
      | Some e \<Rightarrow> rules \<noteq> [] \<and> cs_environment e = [''EGRESS_ALLOWLIST'' \<mapsto> render_allowlist rules])"

lemma plan_options_Ok:
  assumes "plan_options c proj sid rnd = Ok (opts, secrets)"
  shows "op_project opts = project_name sid" "net_of opts = network_name sid"
    "egress_net_of opts = project_name sid @ ''-egress-net''" "runtime_of opts = or_default (cp_runtime c) default_runtime"
  using assms
  by (auto simp: plan_options_def bind_res_Ok_iff base_options_def net_of_def egress_net_of_def runtime_of_def or_default_def
      project_name_def network_name_def split: if_splits)

lemma to_compose_service_of:
  assumes "cf_services (to_compose p) name = Some e" "distinct (map ss_name (pl_services p))"
  obtains s where "s \<in> set (pl_services p)" "ss_name s = name" "e = render_service s"
proof -
  from assms(1) have "name \<in> ss_name ` set (pl_services p)" using to_compose_services_dom [of p] by blast
  with to_compose_services [OF assms(2)] assms(1) that show thesis by fastforce
qed

text \<open>The networks and the proxy of a plan, read off the document.\<close>

lemma compiled_file_networks:
  assumes "compile u m opts = Ok p" "net_of opts \<noteq> egress_net_of opts"
  shows "cf_networks (to_compose p) (net_of opts) = Some \<lparr>cn_name = net_of opts, cn_internal = True\<rparr>"
    and "m_egress m = [] \<Longrightarrow> dom (cf_networks (to_compose p)) = {net_of opts}"
  using assms by (auto simp: compile_Ok_iff plan_of_def to_compose_def render_network_def split: if_splits)

lemma egress_service_listed:
  assumes "compile u m opts = Ok p"
  shows "egress_service_name \<in> ss_name ` set (pl_services p) \<longleftrightarrow> m_egress m \<noteq> []"
proof
  assume "egress_service_name \<in> ss_name ` set (pl_services p)"
  then obtain s where "s \<in> set (pl_services p)" "ss_name s = egress_service_name" by auto
  with plan_networks [OF assms] show "m_egress m \<noteq> []" by fastforce
next
  assume "m_egress m \<noteq> []"
  with assms show "egress_service_name \<in> ss_name ` set (pl_services p)"
    by (auto simp: compile_Ok_iff plan_of_def egress_part_def egress_proxy_service_def)
qed

lemma compiled_file_confined:
  assumes "compile u m opts = Ok p" "op_project opts = project_name sid" "net_of opts = network_name sid"
    "egress_net_of opts \<noteq> net_of opts" "runtime_of opts = or_default (cp_runtime c) default_runtime"
  shows "confined_file c sid (m_egress m) (to_compose p)"
proof -
  note names = plan_names_distinct [OF assms(1)] and nets = plan_networks [OF assms(1)]
  have project: "pl_project p = project_name sid" and net: "net_name (pl_network p) = network_name sid"
    using assms(1-3) by (auto simp: compile_Ok_iff plan_of_def)
  have service: "confined_service (runtime_of opts) (network_name sid) name e"
    if entry: "cf_services (to_compose p) name = Some e" for name e
  proof -
    obtain s where s: "s \<in> set (pl_services p)" "ss_name s = name" "e = render_service s"
      by (rule to_compose_service_of [OF entry names])
    have "name \<noteq> egress_service_name \<Longrightarrow> ss_networks s = [network_name sid]"
      using nets s(1,2) net by fastforce
    with compile_confines [OF assms(1) s(1)] s(2,3) show ?thesis
      by (auto simp: confined_service_def render_service_def render_mount_def list_all_iff)
  qed
  have proxy: "case cf_services (to_compose p) egress_service_name of
      None \<Rightarrow> m_egress m = [] \<and> dom (cf_networks (to_compose p)) = {network_name sid}
    | Some e \<Rightarrow> m_egress m \<noteq> [] \<and> cs_environment e = [''EGRESS_ALLOWLIST'' \<mapsto> render_allowlist (m_egress m)]"
  proof (cases "cf_services (to_compose p) egress_service_name")
    case None
    then have "egress_service_name \<notin> ss_name ` set (pl_services p)" using to_compose_services_dom [of p] by blast
    then have "m_egress m = []" using egress_service_listed [OF assms(1)] by blast
    with None compiled_file_networks(2) [OF assms(1)] assms(3,4) show ?thesis by simp
  next
    case (Some e)
    obtain s where s: "s \<in> set (pl_services p)" "ss_name s = egress_service_name" "e = render_service s"
      by (rule to_compose_service_of [OF Some names])
    then have "m_egress m \<noteq> []" using egress_service_listed [OF assms(1)] by force
    moreover have "ss_env s = [''EGRESS_ALLOWLIST'' \<mapsto> render_allowlist (m_egress m)]"
      using nets s(1,2) by fastforce
    ultimately show ?thesis by (simp add: Some s(3) render_service_def)
  qed
  have "cf_name (to_compose p) = project_name sid" by (simp add: to_compose_def project)
  moreover have "cf_networks (to_compose p) (network_name sid) = Some \<lparr>cn_name = network_name sid, cn_internal = True\<rparr>"
    using compiled_file_networks(1) [OF assms(1)] assms(3,4) by simp
  ultimately show ?thesis using service proxy by (simp add: confined_file_def assms(5))
qed

section \<open>Whatever boots\<close>

text \<open>C3: whatever a Guest plays is confined. Whatever the source of Projects answers, a contract nobody checked included,
  \<open>Provision\<close> either changes nothing or hands \<open>docker compose up\<close> a file that encodes a document in which every
  container runs under the platform's runtime with caps on memory, CPU and processes, without new
  privileges and without host paths; all but the platform's database run read-only, without
  capabilities and volumes and not as the image's user; and no container but the platform's proxy, which has exactly the declared
  allow-list and exists only when there is one, is on a network with a route out.\<close>

theorem whatever_boots_is_confined:
  assumes "provision u pf c src rnd pid sid w = (w', r)"
  shows "w' = w \<or> (\<exists>proj f doc url secrets. src pid = Ok proj
     \<and> confined_file c sid (m_egress (pj_manifest proj)) f \<and> pf_marshal pf f = Some doc
     \<and> boot_stack pf c proj sid url secrets (compose_path c sid) (w\<lparr>wd_files := (wd_files w)(compose_path c sid \<mapsto> doc)\<rparr>) = (w', r))"
proof -
  have "confined_file c sid (m_egress (pj_manifest proj)) (to_compose p)"
    if plan: "build_plan u c proj sid rnd = Ok (p, url, secrets)" for proj p url secrets
  proof -
    from plan obtain opts where "plan_options c proj sid rnd = Ok (opts, secrets)" "compile u (pj_manifest proj) opts = Ok p"
      by (auto simp: build_plan_def bind_res_Ok_iff map_err_Ok_iff)
    note opts = plan_options_Ok [OF this(1)] and compiled = this(2)
    have "egress_net_of opts \<noteq> net_of opts" by (simp add: opts network_name_def)
    from compiled_file_confined [OF compiled opts(1,2) this opts(4)] show ?thesis .
  qed
  with assms show ?thesis
    by (auto simp: provision_def split: sum.splits prod.splits option.splits if_splits) blast+
qed

theorem whatever_boots_is_confined_witness:
  "\<exists>f w'. confined_file sample_runner ''a2'' [] f
     \<and> provision sample_unicode willing_platform sample_runner (static_source sample_project) None ''p'' ''a2'' sample_world
         = (w', Ok ''http://web:8080'')"
proof -
  obtain p where p: "build_plan sample_unicode sample_runner sample_project ''a2'' None = Ok (p, ''http://web:8080'', [])"
    using sample_project_plan by blast
  have sid: "validate_session_id ''a2'' = Ok ()" by (simp add: validate_session_id_Ok char_class_defs)
  obtain w' where w': "provision sample_unicode willing_platform sample_runner (static_source sample_project) None
      ''p'' ''a2'' sample_world = (w', Ok ''http://web:8080'')"
    by (simp add: provision_def sid static_source_def p willing_platform_def refusing_platform_def boot_stack_def compose_cmd_def
        docker_cmd_def attach_proxy_def sample_world_def Let_def case_prod_unfold)
  have reg: "wd_registry sample_world = Some (new_registry ''ex.dev'')" "reg_distinct (new_registry ''ex.dev'')"
    "reg_get (new_registry ''ex.dev'') ''a2'' = None"
    using reg_ok_new by (simp_all add: sample_world_def reg_ok_def new_registry_def reg_get_def)
  from provision_success_is_live [OF w' reg(1,2)] reg(1,3) have "w' \<noteq> sample_world" by auto
  with whatever_boots_is_confined [OF w'] w' show ?thesis
    by (auto simp: static_source_def sample_project_def fixture_project_def)
qed

end
