(* ===== verification/Tunnel.thy ===== *)
theory Tunnel
  imports EgressProxy
begin

text \<open>
  The tunnel of the egress proxy (\<open>tunnel\<close> and the end of \<open>handleConnect\<close> in \<open>cmd/egress-proxy/main.go\<close>): two
  goroutines that copy bytes, one for each direction, and the closing of both connections once both are done.
  Reads and writes come in pieces of any size, fail at any point, and interleave in any order.
\<close>

section \<open>Two directions\<close>

text \<open>One direction: what its source will still send before the end of the stream, what was written to its destination,
  whether the destination's write half was closed, whether \<open>io.Copy\<close> failed, and whether the goroutine is done.\<close>

record direction =
  dr_source :: string
  dr_written :: string
  dr_half_closed :: bool
  dr_failed :: bool
  dr_done :: bool

record tunnel =
  tn_up :: direction
  tn_down :: direction
  tn_closed :: bool

definition new_direction :: "string \<Rightarrow> direction" where
  "new_direction bytes = \<lparr>dr_source = bytes, dr_written = '''', dr_half_closed = False, dr_failed = False, dr_done = False\<rparr>"

text \<open>\<open>Hijack\<close> returns the connection and a buffer with the bytes of the client that the server has read already; the
  code drops the buffer and reads on from the connection.\<close>

definition hijacked_tunnel :: "string \<Rightarrow> string \<Rightarrow> string \<Rightarrow> tunnel" where
  "hijacked_tunnel buffered client upstream =
     \<lparr>tn_up = new_direction client, tn_down = new_direction upstream, tn_closed = False\<rparr>"

text \<open>The copy loop and the half-close that follows it whatever its result. A failed write may have written a part of the
  piece that was read.\<close>

definition finish_copy :: "bool \<Rightarrow> direction \<Rightarrow> direction" where
  "finish_copy failed d = d\<lparr>dr_half_closed := True, dr_failed := failed, dr_done := True\<rparr>"

inductive copy_step :: "direction \<Rightarrow> direction \<Rightarrow> bool" where
  copy_piece: "\<not> dr_done d \<Longrightarrow> dr_source d = piece @ rest \<Longrightarrow> piece \<noteq> '''' \<Longrightarrow>
    copy_step d (d\<lparr>dr_source := rest, dr_written := dr_written d @ piece\<rparr>)"
| copy_write_fails: "\<not> dr_done d \<Longrightarrow> dr_source d = part @ lost @ rest \<Longrightarrow> lost \<noteq> '''' \<Longrightarrow>
    copy_step d (finish_copy True (d\<lparr>dr_source := rest, dr_written := dr_written d @ part\<rparr>))"
| copy_read_fails: "\<not> dr_done d \<Longrightarrow> copy_step d (finish_copy True d)"
| copy_ends: "\<not> dr_done d \<Longrightarrow> dr_source d = '''' \<Longrightarrow> copy_step d (finish_copy False d)"

inductive_cases copy_stepE: "copy_step d d'"

text \<open>\<open>wg.Wait\<close> returns when both directions are done; only then do the deferred calls close the connections.\<close>

inductive tunnel_step :: "tunnel \<Rightarrow> tunnel \<Rightarrow> bool" where
  tunnel_up: "\<not> tn_closed t \<Longrightarrow> copy_step (tn_up t) d \<Longrightarrow> tunnel_step t (t\<lparr>tn_up := d\<rparr>)"
| tunnel_down: "\<not> tn_closed t \<Longrightarrow> copy_step (tn_down t) d \<Longrightarrow> tunnel_step t (t\<lparr>tn_down := d\<rparr>)"
| tunnel_close: "\<not> tn_closed t \<Longrightarrow> dr_done (tn_up t) \<Longrightarrow> dr_done (tn_down t) \<Longrightarrow> tunnel_step t (t\<lparr>tn_closed := True\<rparr>)"

inductive_cases tunnel_stepE: "tunnel_step t t'"

section \<open>The invariant of a direction\<close>

definition relays :: "string \<Rightarrow> direction \<Rightarrow> bool" where
  "relays sent d \<longleftrightarrow>
     prefix (dr_written d) sent \<and>
     (\<not> dr_failed d \<longrightarrow> dr_written d @ dr_source d = sent) \<and>
     (dr_done d \<longrightarrow> dr_half_closed d) \<and>
     (dr_done d \<and> \<not> dr_failed d \<longrightarrow> dr_written d = sent) \<and>
     (dr_failed d \<longrightarrow> dr_done d) \<and> (dr_half_closed d \<longrightarrow> dr_done d)"

lemma relays_new: "relays sent (new_direction sent)"
  by (simp add: relays_def new_direction_def)

lemma relays_step: "copy_step d d' \<Longrightarrow> relays sent d \<Longrightarrow> relays sent d'"
  by (erule copy_stepE) (auto simp: relays_def finish_copy_def)

definition tunnel_ok :: "string \<Rightarrow> string \<Rightarrow> tunnel \<Rightarrow> bool" where
  "tunnel_ok client upstream t \<longleftrightarrow>
     relays client (tn_up t) \<and> relays upstream (tn_down t) \<and> (tn_closed t \<longrightarrow> dr_done (tn_up t) \<and> dr_done (tn_down t))"

lemma tunnel_ok_step: "tunnel_step t t' \<Longrightarrow> tunnel_ok client upstream t \<Longrightarrow> tunnel_ok client upstream t'"
  by (erule tunnel_stepE) (auto simp: tunnel_ok_def relays_step)

lemma tunnel_ok_run: "tunnel_step\<^sup>*\<^sup>* t t' \<Longrightarrow> tunnel_ok client upstream t \<Longrightarrow> tunnel_ok client upstream t'"
  by (induction rule: rtranclp_induct) (auto intro: tunnel_ok_step)

lemma tunnel_ok_start: "tunnel_ok client upstream (hijacked_tunnel buffered client upstream)"
  by (simp add: tunnel_ok_def hijacked_tunnel_def relays_new)

section \<open>Progress\<close>

text \<open>What a direction still has to do, which every step makes less.\<close>

definition copy_work :: "direction \<Rightarrow> nat" where
  "copy_work d = (if dr_done d then 0 else Suc (length (dr_source d)))"

definition tunnel_work :: "tunnel \<Rightarrow> nat" where
  "tunnel_work t = (if tn_closed t then 0 else Suc (copy_work (tn_up t) + copy_work (tn_down t)))"

lemma copy_step_works: "copy_step d d' \<Longrightarrow> copy_work d' < copy_work d"
  by (erule copy_stepE) (auto simp: copy_work_def finish_copy_def)

lemma tunnel_step_works: "tunnel_step t t' \<Longrightarrow> tunnel_work t' < tunnel_work t"
  by (erule tunnel_stepE) (auto simp: tunnel_work_def dest: copy_step_works)

lemma copy_step_exists: "\<not> dr_done d \<Longrightarrow> \<exists>d'. copy_step d d'"
  using copy_read_fails by blast

lemma tunnel_step_exists: "\<not> tn_closed t \<Longrightarrow> \<exists>t'. tunnel_step t t'"
  using copy_step_exists tunnel_up tunnel_down tunnel_close by blast

text \<open>Where nothing fails, everything arrives.\<close>

lemma copy_all:
  assumes "\<not> dr_done d"
  shows "\<exists>d'. copy_step\<^sup>*\<^sup>* d d' \<and> dr_done d' \<and> \<not> dr_failed d'"
proof (cases "dr_source d = ''''")
  case True
  with copy_ends [OF assms] show ?thesis
    by (intro exI [of _ "finish_copy False d"]) (simp add: finish_copy_def r_into_rtranclp)
next
  case False
  let ?d = "d\<lparr>dr_source := '''', dr_written := dr_written d @ dr_source d\<rparr>"
  from False copy_piece [OF assms, of "dr_source d" "''''"] have "copy_step d ?d" by simp
  moreover have "copy_step ?d (finish_copy False ?d)" using assms by (intro copy_ends) simp_all
  ultimately show ?thesis
    by (intro exI [of _ "finish_copy False ?d"]) (auto simp: finish_copy_def intro: rtranclp_trans r_into_rtranclp)
qed



text \<open>What the client sent before the server let go of the connection never arrives.\<close>

lemma buffered_bytes_are_lost:
  assumes "tunnel_step\<^sup>*\<^sup>* (hijacked_tunnel buffered client upstream) t" "buffered \<noteq> ''''"
  shows "dr_written (tn_up t) \<noteq> buffered @ client"
proof -
  from tunnel_ok_run [OF assms(1) tunnel_ok_start] have "prefix (dr_written (tn_up t)) client"
    by (simp add: tunnel_ok_def relays_def)
  then have "length (dr_written (tn_up t)) \<le> length client" by (rule prefix_length_le)
  moreover from assms(2) have "length client < length (buffered @ client)" by simp
  ultimately show ?thesis by (metis not_less)
qed

end
