(* ===== verification/StatusPages.thy ===== *)
theory StatusPages
  imports TraefikConfig
begin

text \<open>
  The text of the status pages (\<open>internal/proxy/splash.go\<close>), which an edge of the platform shows to any Guest: constant
  documents, of which only the one of a booting Session asks the browser to come back.
\<close>

definition html_lines :: "string list \<Rightarrow> string" where
  "html_lines ls = concat (map (\<lambda>l. l @ [CHR 0x0A]) ls)"

definition splash_html :: string where
  "splash_html = html_lines
    [''<!doctype html>'',
     ''<html lang=\"en\">'',
     ''<head>'',
     ''  <meta charset=\"utf-8\">'',
     ''  <meta name=\"viewport\" content=\"width=device-width, initial-scale=1\">'',
     ''  <meta http-equiv=\"refresh\" content=\"2\">'',
     ''  <title>Starting your demo'' @ [CHR 0xE2, CHR 0x80, CHR 0xA6] @ ''</title>'',
     ''  <style>'',
     ''    :root { color-scheme: light dark; }'',
     ''    body { font-family: system-ui, sans-serif; display: grid; place-items: center;'',
     ''           min-height: 100vh; margin: 0; }'',
     ''    .box { text-align: center; }'',
     ''    .spinner { width: 2.5rem; height: 2.5rem; margin: 0 auto 1rem;'',
     ''               border: 3px solid currentColor; border-top-color: transparent;'',
     ''               border-radius: 50%; animation: spin 0.8s linear infinite; opacity: 0.6; }'',
     ''    @keyframes spin { to { transform: rotate(360deg); } }'',
     ''    p { opacity: 0.7; }'',
     ''  </style>'',
     ''</head>'',
     ''<body>'',
     ''  <div class=\"box\">'',
     ''    <div class=\"spinner\"></div>'',
     ''    <h1>Starting your demo'' @ [CHR 0xE2, CHR 0x80, CHR 0xA6] @ ''</h1>'',
     ''    <p>Booting a fresh, isolated environment. This page will load it automatically.</p>'',
     ''  </div>'',
     ''</body>'',
     ''</html>'']"

definition terminal_page :: "string \<Rightarrow> string \<Rightarrow> string \<Rightarrow> string" where
  "terminal_page title heading message = html_lines
    [''<!doctype html>'',
     ''<html lang=\"en\">'',
     ''<head>'',
     ''  <meta charset=\"utf-8\">'',
     ''  <meta name=\"viewport\" content=\"width=device-width, initial-scale=1\">'',
     ''  <title>'' @ title @ ''</title>'',
     ''  <style>'',
     ''    :root { color-scheme: light dark; }'',
     ''    body { font-family: system-ui, sans-serif; display: grid; place-items: center;'',
     ''           min-height: 100vh; margin: 0; }'',
     ''    .box { text-align: center; max-width: 32rem; padding: 0 1rem; }'',
     ''    p { opacity: 0.7; }'',
     ''  </style>'',
     ''</head>'',
     ''<body>'',
     ''  <div class=\"box\">'',
     ''    <h1>'' @ heading @ ''</h1>'',
     ''    <p>'' @ message @ ''</p>'',
     ''  </div>'',
     ''</body>'',
     ''</html>'']"

definition failed_html :: string where
  "failed_html = terminal_page (''Demo failed to start'')
    (''This demo failed to start'')
    (''Something went wrong while booting this demo. Each play starts a fresh environment '' @ [CHR 0xE2, CHR 0x80, CHR 0x94] @ '' head back and try again.'')"

definition crashed_html :: string where
  "crashed_html = terminal_page (''Demo crashed'')
    (''This demo crashed'')
    (''The demo stopped responding and couldn'' @ [CHR 0x27] @ ''t recover. Each play starts a fresh environment '' @ [CHR 0xE2, CHR 0x80, CHR 0x94] @ '' head back and try again.'')"

definition ended_html :: string where
  "ended_html = terminal_page (''Demo session ended'')
    (''This demo session has ended'')
    (''Demo sessions are temporary. Head back and press play to start a fresh one.'')"

definition page_text :: "page \<Rightarrow> string" where
  "page_text p =
     (case p of SplashPage \<Rightarrow> splash_html | FailedPage \<Rightarrow> failed_html | CrashedPage \<Rightarrow> crashed_html | EndedPage \<Rightarrow> ended_html)"

text \<open>The pages of a Session that will not come back do not reload.\<close>

lemma html_lines_set: "set (html_lines ls) \<subseteq> (\<Union>l \<in> set ls. set l) \<union> {CHR 0x0A}"
  by (auto simp: html_lines_def)

lemma terminal_page_plain:
  assumes "CHR ''q'' \<notin> set title" "CHR ''q'' \<notin> set heading" "CHR ''q'' \<notin> set message"
  shows "\<not> contains_str (terminal_page title heading message) ''http-equiv''"
proof
  assume "contains_str (terminal_page title heading message) ''http-equiv''"
  then have "CHR ''q'' \<in> set (terminal_page title heading message)" by (auto simp: contains_str_iff)
  with assms show False by (simp add: terminal_page_def html_lines_def)
qed

lemma html_lines_contains:
  assumes "l \<in> set ls" "contains_str l p"
  shows "contains_str (html_lines ls) p"
proof -
  obtain xs ys where ls: "ls = xs @ l # ys" using assms(1) by (auto simp: in_set_conv_decomp)
  obtain a b where "l = a @ p @ b" using assms(2) by (auto simp: contains_str_iff)
  then have "html_lines ls = (html_lines xs @ a) @ p @ (b @ [CHR 0x0A] @ html_lines ys)"
    by (simp add: ls html_lines_def)
  then show ?thesis unfolding contains_str_iff by blast
qed

lemma splash_refreshes: "contains_str splash_html ''http-equiv''"
  unfolding splash_html_def
  by (rule html_lines_contains [of "''  <meta http-equiv=\"refresh\" content=\"2\">''"]) (simp_all add: has_prefix_def)

lemma only_splash_refreshes: "contains_str (page_text p) ''http-equiv'' \<longleftrightarrow> p = SplashPage"
  by (cases p)
    (simp_all add: page_text_def splash_refreshes failed_html_def crashed_html_def ended_html_def terminal_page_plain)

text \<open>A status answer and its page agree: it asks the client to retry exactly when its page refreshes.\<close>

lemma status_page_consistent:
  "contains_str (page_text (pg_page (status_handler lookup host))) ''http-equiv''
     \<longleftrightarrow> pg_retry_after (status_handler lookup host) \<noteq> None"
  by (simp add: only_splash_refreshes status_handler_def write_page_def split: option.split state.split)

end
