(* ===== verification/Spec2Isabelle.thy ===== *)
theory Spec2Isabelle
  imports Metrics SessionSystem ReaperRun Cleanup Startup Isolation Tunnel StatusPages
begin

text \<open>
  \<^bold>\<open>showcase.dev: a model of the control plane and its correctness.\<close>

  An \<^emph>\<open>Owner\<close> signs in with GitHub, saves the \<^emph>\<open>Project\<close> they want to show and publishes it; a
  \<^emph>\<open>Guest\<close> presses play and gets a private copy of it, a \<^emph>\<open>Session\<close>, that runs for a while and
  is then removed. The program is one Go process (\<open>src/cmd/controlplane\<close>) beside a Docker daemon,
  a Postgres server and a Traefik proxy, and one small proxy it starts next to a Session
  (\<open>src/cmd/egress-proxy\<close>). All paths below are relative to \<open>src/\<close>.

  \<^bold>\<open>How the parts interact.\<close> The public form of a Project is mapped to a \<^emph>\<open>run contract\<close>
  (\<open>ProjectForm\<close>), which \<open>Validate\<close> accepts or refuses (\<open>Manifest\<close>) and the tables keep (\<open>Store\<close>).
  A publish checks the Owner's access to each repository through the GitHub App (\<open>GitHubClient\<close>),
  starts a background build and answers at once (\<open>ProjectApi\<close>); the build resolves and clones
  each repository (\<open>GitHubRepo\<close>) and turns it into an image in a sandbox, through a cache
  (\<open>Builder\<close>), and its end is written to the tables. A play asks for the published
  contract and the pinned commits, takes a slot in the registry (\<open>Registry\<close>, \<open>SessionManager\<close>)
  and boots in the background: the contract is compiled to a locked-down Stack (\<open>Compile\<close>,
  \<open>ExecutionPlan\<close>) that \<open>docker compose\<close> starts (\<open>Runner\<close>). Traefik polls its routing table from
  the registry (\<open>TraefikConfig\<close>) and serves the counters (\<open>Metrics\<close>) that let the reaper end a
  Session that is idle, unhealthy, crashed or over its time (\<open>Reaper\<close>).

  \<^bold>\<open>Which theory models which code.\<close>
  \<^item> \<open>Prelude\<close>: the result type of fallible code and generic lemmas on lists, options and maps.
    \<open>GoStrings\<close>, \<open>GoText\<close>, \<open>GoRegex\<close>, \<open>GoNet\<close>: the part of Go's standard library the code calls
    (\<open>strings\<close>, \<open>strconv\<close>, \<open>unicode/utf8\<close>, \<open>regexp\<close>, \<open>net\<close>, \<open>path\<close>), on strings as lists of bytes.
    A regular expression is a datatype with a derivative matcher, proved equal to its language.
  \<^item> \<open>Manifest\<close>: \<open>internal/runcontract/manifest.go\<close>, the contract and \<open>Validate\<close> with every error.
    \<open>ExecutionPlan\<close>: \<open>plan.go\<close> and \<open>compose.go\<close>. \<open>Compile\<close>: \<open>compile.go\<close>.
    \<open>Isolation\<close> composes the three with \<open>Runner\<close>: from a contract to the document a boot writes.
  \<^item> \<open>EgressProxy\<close>: the handlers of \<open>cmd/egress-proxy/main.go\<close>. \<open>Tunnel\<close>: its \<open>tunnel\<close>, the two
    goroutines that copy as an inductive step relation over both directions.
  \<^item> \<open>Registry\<close>: \<open>internal/proxy/proxy.go\<close>. \<open>TraefikConfig\<close>: \<open>config.go\<close> and the choice of page
    of \<open>splash.go\<close>. \<open>StatusPages\<close>: the text of those pages. \<open>Metrics\<close>: \<open>metrics.go\<close>.
  \<^item> \<open>Runner\<close>: \<open>internal/runner\<close> (\<open>compose.go\<close>, \<open>fixture.go\<close>, \<open>source.go\<close> and the stub of \<open>runner.go\<close>).
    \<open>SessionManager\<close>: \<open>internal/session/session.go\<close>. \<open>Reaper\<close>: \<open>tick\<close> of \<open>reaper.go\<close>,
    and \<open>ReaperRun\<close> its \<open>Run\<close> with what happens between two ticks. \<open>SessionSystem\<close>: the
    interleaving of plays, boots, shutdowns and reaps, a step relation over the registry, the boots in
    flight and the Stacks that run.
  \<^item> \<open>Builder\<close>: \<open>internal/builder\<close> (\<open>builder.go\<close>, \<open>sandbox.go\<close>, \<open>source.go\<close>). \<open>Fixture\<close>:
    \<open>internal/fixture/fixture.go\<close>.
  \<^item> \<open>GitHubRepo\<close>: \<open>internal/githubapp/repo.go\<close> and \<open>git.go\<close>. \<open>GitHubClient\<close>: \<open>client.go\<close>.
  \<^item> \<open>Store\<close>: \<open>internal/store\<close> (\<open>projects.go\<close>, \<open>owner.go\<close>, \<open>session.go\<close>), on the tables the
    migrations create. \<open>Migrate\<close>: \<open>migrate.go\<close>. \<open>Pool\<close>: \<open>store.go\<close>, the connection pool.
  \<^item> \<open>ProjectForm\<close>: \<open>internal/project/form.go\<close> and \<open>slug.go\<close>. \<open>ProjectApi\<close>: \<open>project.go\<close>,
    \<open>publisher.go\<close>, \<open>source.go\<close>. \<open>Auth\<close>: \<open>internal/auth\<close> (\<open>auth.go\<close>, \<open>provider.go\<close>,
    \<open>username.go\<close>).
  \<^item> \<open>WebSystem\<close>: \<open>internal/server\<close> and \<open>internal/web\<close>: every route with its handler, and the
    control plane as one step function over requests, ends of builds, sweeps and prunes.
    \<open>Config\<close>: \<open>internal/config/config.go\<close>. \<open>ControlPlane\<close>: \<open>cmd/controlplane/main.go\<close>.
    \<open>Startup\<close>: what \<open>main.go\<close> does before it serves and beside it: the store on its migrated
    tables, the warm-up of the demo, the removal of expired logins, and the recovery sweep
    \<open>ReapStuckBuilds\<close> of \<open>publisher.go\<close>. \<open>Cleanup\<close>: what a publish leaves on the file system,
    across \<open>git.go\<close>, \<open>builder.go\<close> and \<open>main.go\<close>.

  \<^bold>\<open>How state and effects correspond.\<close> A Go struct is a \<open>record\<close> with the struct's fields, an error
  is a constructor of an error datatype carrying what its message interpolates, and a function that
  fails returns \<open>Ok\<close> or \<open>Err\<close>. A handler takes the state it may change and returns it updated; a
  Go map whose order shows is an association list, a table is the list of its rows with the
  constraints of the migrations checked by the operations. Each statement on the database is one
  step whose failure is an argument, so every fault is covered by the quantifier over it; likewise
  every answer of the network, of \<open>git\<close> and of \<open>docker\<close>. Sizes that can wrap are words: the logical
  clock of the image cache and the sums of request counters are 64-bit words, ports, caps and
  timers are bounded integers.

  \<^bold>\<open>Interfaces.\<close> \<open>keyed_store\<close> (in \<open>Registry\<close>) states what a keyed collection promises, what a
  lookup returns after an insertion or a removal and how its size moves; it is interpreted on the
  registry of routes and on the cache of images, and the lemmas about caps and evictions come from
  it. \<open>stack_teardown\<close> (in \<open>Reaper\<close>) states what the reaper relies on when it ends a Session: the
  route goes exactly when the teardown succeeds; it is interpreted on \<open>Teardown\<close> of the Compose
  runner, and the properties of the reaper rest on that.

  \<^bold>\<open>What the properties show.\<close>
  \<^item> Publishing: the gate on starting a build; that the commits a build pins are the ones played;
    that a published Project boots from the cache without a build; what an edit during a build
    leads to; that no failure changes the version a Guest plays; that no temporary is left; that a
    build the process did not survive is marked failed by the sweep and can be published again.
  \<^item> The HTTP surface: Owners are isolated over every route, the tables keep their invariant over
    every sequence of events, reading changes nothing, drafts are invisible, cookies are hardened,
    a sign-in needs the state. A deployment without a database keeps nothing (a lemma).
  \<^item> Builds: \<open>Build\<close> ends, its cache refines least-recently-used, the sandbox has exactly its flags;
    after the warm-up the demo boots without a build, with a database and without one.
  \<^item> Sessions: the cap under every interleaving, no orphaned Stack, a failed boot cleans up, no demo
    ends early and every demo ends; the phases of the step relation are refined by \<open>Provision\<close>.
  \<^item> Contracts: \<open>Validate\<close> accepts exactly the well-formed ones; whatever document a boot writes, from
    any contract and any source, confines every service of it; a plan starts in order and gives the
    Session network no route out; the routing table serves the live Sessions and points nowhere else.
  \<^item> Egress: a request leaves only to a host of the allow-list, and a tunnel relays each side's bytes
    in order, losing none that the other side could still take, and closes only when both are done.
  \<^item> Wire forms and limits: round trips of the form and of the allow-list, the bounds of names and
    of the configuration, resumable migrations.

  \<^bold>\<open>Termination and bounds.\<close> Loops are structural recursion, or functions with a measure. The
  eviction loop of the builder ends only if the daemon removes what the cache forgets, so it is a
  \<open>partial_function (option)\<close> and \<open>build_terminates\<close> proves that it returns, for a cache whose clock
  has not wrapped (fewer than \<open>2 ^ 64\<close> builds). No definition takes fuel.

  \<^bold>\<open>Parameters.\<close> What is not in the repository is an argument: the Docker daemon, \<open>git\<close>, the
  network, the SQL server and its driver, the embedded files, SHA-256, RSA, random bytes, the clock, the decoding
  of JSON and the encoding of YAML, \<open>float64\<close>, and the case tables of Unicode. Hypotheses on them are
  stated in the theorem that needs them and its witness has an instance: that a hash does not
  collide, that a daemon keeps what it built, that a removal of a directory removes it.

  \<^bold>\<open>Not modelled.\<close> Logging, the bytes of the
  single-page app, flags, signals and listeners, and the recovery of a panic (the model has none). A
  ticker is the list of the times it fires. A context that times out shows as the failure
  of the operation it interrupts. Goroutines appear as the order of events: any order, in \<open>WebSystem\<close>
  and in \<open>SessionSystem\<close>; a data race inside one operation is excluded by the mutexes of
  the code and not by a proof.

  \<^bold>\<open>What modelling showed.\<close> A failed boot whose teardown fails leaves a Stack that nothing
  removes; the page of a failure holds a slot of the cap; an absolute-form \<open>https\<close> request is
  checked at port 80; a path prefix with a backtick escapes its rule; a build that an edit
  overtook still publishes; names may be 77 bytes long where the comment says 39; \<open>run\<close> returns without
  draining when the HTTP server misses its deadline; the hash of a build context does not
  separate its fields; the proxy drops the bytes a client sent before it saw the answer to its
  \<open>CONNECT\<close>, which the server had already buffered (\<open>buffered_bytes_are_lost\<close>).
\<close>

end
